(* ===== verification/Prelude.thy ===== *)
theory Prelude
  imports Main "HOL-Library.List_Lexorder"
begin

text \<open>
  What every component shares: the state-and-exception monad in which the
  coroutines of the program are written (a coroutine that awaits a service, may
  raise and leaves the world changed), the two judgements used to reason about
  it (\<open>frame\<close>: a part of the state is untouched; \<open>keeps\<close>: a predicate on
  states is preserved), and generic lemmas on lists and options.
\<close>

named_theorems io_simps \<open>unfolding rules that run a coroutine on a state\<close>
named_theorems frame_intros \<open>introduction rules for the frame judgement\<close>
named_theorems keeps_intros \<open>introduction rules for the preservation judgement\<close>

section \<open>Coroutines: state passing with exceptions\<close>

text \<open>
  A coroutine takes the state and returns either an exception (\<open>Inl\<close>) or a
  value (\<open>Inr\<close>), together with the state it leaves behind in both cases: what
  was written before a \<open>raise\<close> stays written, as in Python.
\<close>

type_synonym ('s, 'e, 'a) io = "'s \<Rightarrow> ('e + 'a) \<times> 's"

definition ret :: "'a \<Rightarrow> ('s, 'e, 'a) io" where
  "ret a s = (Inr a, s)"

definition raise :: "'e \<Rightarrow> ('s, 'e, 'a) io" where
  "raise e s = (Inl e, s)"

definition bindM :: "('s, 'e, 'a) io \<Rightarrow> ('a \<Rightarrow> ('s, 'e, 'b) io) \<Rightarrow> ('s, 'e, 'b) io" where
  "bindM m f s = (case m s of (Inl e, s') \<Rightarrow> (Inl e, s') | (Inr a, s') \<Rightarrow> f a s')"

text \<open>\<open>try: m except ...: h\<close>. The handler returns \<open>None\<close> for an exception that
  no \<open>except\<close> clause names; such an exception propagates.\<close>

definition catchM :: "('s, 'e, 'a) io \<Rightarrow> ('e \<Rightarrow> ('s, 'e, 'a) io option) \<Rightarrow> ('s, 'e, 'a) io" where
  "catchM m h s =
     (case m s of
        (Inl e, s') \<Rightarrow> (case h e of None \<Rightarrow> (Inl e, s') | Some k \<Rightarrow> k s')
      | (Inr a, s') \<Rightarrow> (Inr a, s'))"

text \<open>\<open>try: m finally: f\<close>. The outcome of \<open>m\<close> stands unless \<open>f\<close> itself raises.\<close>

definition finallyM :: "('s, 'e, 'a) io \<Rightarrow> ('s, 'e, unit) io \<Rightarrow> ('s, 'e, 'a) io" where
  "finallyM m f s =
     (case m s of (r, s') \<Rightarrow>
        (case f s' of (Inl e, s'') \<Rightarrow> (Inl e, s'') | (Inr _, s'') \<Rightarrow> (r, s'')))"

definition getsM :: "('s \<Rightarrow> 'a) \<Rightarrow> ('s, 'e, 'a) io" where
  "getsM f s = (Inr (f s), s)"

definition modifyM :: "('s \<Rightarrow> 's) \<Rightarrow> ('s, 'e, unit) io" where
  "modifyM f s = (Inr (), f s)"

definition liftM :: "'e + 'a \<Rightarrow> ('s, 'e, 'a) io" where
  "liftM r s = (r, s)"

primrec for_each :: "'x list \<Rightarrow> ('x \<Rightarrow> ('s, 'e, unit) io) \<Rightarrow> ('s, 'e, unit) io" where
  "for_each [] f = ret ()"
| "for_each (x # xs) f = bindM (f x) (\<lambda>_. for_each xs f)"

abbreviation result :: "('s, 'e, 'a) io \<Rightarrow> 's \<Rightarrow> 'e + 'a" where
  "result m s \<equiv> fst (m s)"

abbreviation final :: "('s, 'e, 'a) io \<Rightarrow> 's \<Rightarrow> 's" where
  "final m s \<equiv> snd (m s)"

lemma io_run [io_simps, simp]:
  "ret a s = (Inr a, s)"
  "raise e s = (Inl e, s)"
  "getsM f s = (Inr (f s), s)"
  "modifyM g s = (Inr (), g s)"
  "liftM r s = (r, s)"
  by (simp_all add: ret_def raise_def getsM_def modifyM_def liftM_def)

lemma bindM_ret [simp]: "bindM (ret a) f = f a"
  by (simp add: bindM_def fun_eq_iff)

lemma bindM_raise [simp]: "bindM (raise e) f = raise e"
  by (simp add: bindM_def fun_eq_iff)

lemma bindM_assoc: "bindM (bindM m f) g = bindM m (\<lambda>a. bindM (f a) g)"
  by (auto simp: bindM_def fun_eq_iff split: prod.splits sum.splits)

lemma bindM_Inl: "m s = (Inl e, s') \<Longrightarrow> bindM m f s = (Inl e, s')"
  by (simp add: bindM_def)

lemma bindM_Inr: "m s = (Inr a, s') \<Longrightarrow> bindM m f s = f a s'"
  by (simp add: bindM_def)

lemma bindM_eq_InrE:
  assumes "bindM m f s = (Inr b, t)"
  obtains a s' where "m s = (Inr a, s')" "f a s' = (Inr b, t)"
  using assms by (auto simp: bindM_def split: prod.splits sum.splits)

lemma catchM_Inr: "m s = (Inr a, s') \<Longrightarrow> catchM m h s = (Inr a, s')"
  by (simp add: catchM_def)

lemma catchM_ret [simp]: "catchM (ret a) h = ret a"
  by (simp add: catchM_def fun_eq_iff)

lemma catchM_Inl:
  "m s = (Inl e, s') \<Longrightarrow>
   catchM m h s = (case h e of None \<Rightarrow> (Inl e, s') | Some k \<Rightarrow> k s')"
  by (simp add: catchM_def)

subsection \<open>A part of the state that a coroutine leaves alone\<close>

definition frame :: "('s \<Rightarrow> 'b) \<Rightarrow> ('s, 'e, 'a) io \<Rightarrow> bool" where
  "frame sel m \<longleftrightarrow> (\<forall>s. sel (final m s) = sel s)"

lemma frameD: "frame sel m \<Longrightarrow> sel (final m s) = sel s"
  by (simp add: frame_def)

lemma frame_eq: "frame sel m \<Longrightarrow> m s = (r, s') \<Longrightarrow> sel s' = sel s"
  using frameD [of sel m s] by simp

lemma frame_run [frame_intros]:
  "frame sel (ret a)" "frame sel (raise e)" "frame sel (getsM f)" "frame sel (liftM r)"
  by (simp_all add: frame_def)

lemma frame_modifyM [frame_intros]: "(\<And>s. sel (g s) = sel s) \<Longrightarrow> frame sel (modifyM g)"
  by (simp add: frame_def)

lemma frame_bindM [frame_intros]:
  "frame sel m \<Longrightarrow> (\<And>a. frame sel (f a)) \<Longrightarrow> frame sel (bindM m f)"
  by (simp add: frame_def bindM_def split: prod.split sum.split) (metis snd_conv)

lemma frame_catchM [frame_intros]:
  "frame sel m \<Longrightarrow> (\<And>e k. h e = Some k \<Longrightarrow> frame sel k) \<Longrightarrow> frame sel (catchM m h)"
  by (simp add: frame_def catchM_def split: prod.split sum.split option.split) (metis snd_conv)

lemma frame_finallyM [frame_intros]:
  "frame sel m \<Longrightarrow> frame sel f \<Longrightarrow> frame sel (finallyM m f)"
  by (simp add: frame_def finallyM_def split: prod.split sum.split) (metis snd_conv)

lemma frame_for_each [frame_intros]:
  "(\<And>x. frame sel (f x)) \<Longrightarrow> frame sel (for_each xs f)"
  by (induction xs) (auto intro!: frame_intros)

lemma frame_if [frame_intros]:
  "(b \<Longrightarrow> frame sel m) \<Longrightarrow> (\<not> b \<Longrightarrow> frame sel n) \<Longrightarrow> frame sel (if b then m else n)"
  by simp

lemma frame_option [frame_intros]:
  "frame sel m \<Longrightarrow> (\<And>a. x = Some a \<Longrightarrow> frame sel (f a)) \<Longrightarrow>
   frame sel (case x of None \<Rightarrow> m | Some a \<Rightarrow> f a)"
  by (cases x) auto

subsection \<open>A predicate on states that a coroutine preserves\<close>

definition keeps :: "('s \<Rightarrow> bool) \<Rightarrow> ('s, 'e, 'a) io \<Rightarrow> bool" where
  "keeps P m \<longleftrightarrow> (\<forall>s. P s \<longrightarrow> P (final m s))"

lemma keepsD: "keeps P m \<Longrightarrow> P s \<Longrightarrow> P (final m s)"
  by (simp add: keeps_def)

lemma keeps_eq: "keeps P m \<Longrightarrow> m s = (r, s') \<Longrightarrow> P s \<Longrightarrow> P s'"
  using keepsD [of P m s] by simp

lemma keeps_run [keeps_intros]:
  "keeps P (ret a)" "keeps P (raise e)" "keeps P (getsM f)" "keeps P (liftM r)"
  by (simp_all add: keeps_def)

lemma keeps_modifyM [keeps_intros]: "(\<And>s. P s \<Longrightarrow> P (g s)) \<Longrightarrow> keeps P (modifyM g)"
  by (simp add: keeps_def)

lemma keeps_bindM [keeps_intros]:
  "keeps P m \<Longrightarrow> (\<And>a. keeps P (f a)) \<Longrightarrow> keeps P (bindM m f)"
  by (simp add: keeps_def bindM_def split: prod.split sum.split) (metis snd_conv)

lemma keeps_catchM [keeps_intros]:
  "keeps P m \<Longrightarrow> (\<And>e k. h e = Some k \<Longrightarrow> keeps P k) \<Longrightarrow> keeps P (catchM m h)"
  by (auto simp: keeps_def catchM_def split: prod.splits sum.splits option.splits)

lemma keeps_if [keeps_intros]:
  "(b \<Longrightarrow> keeps P m) \<Longrightarrow> (\<not> b \<Longrightarrow> keeps P n) \<Longrightarrow> keeps P (if b then m else n)"
  by simp

lemma keeps_option [keeps_intros]:
  "keeps P m \<Longrightarrow> (\<And>a. x = Some a \<Longrightarrow> keeps P (f a)) \<Longrightarrow>
   keeps P (case x of None \<Rightarrow> m | Some a \<Rightarrow> f a)"
  by (cases x) auto

subsection \<open>Which exceptions a coroutine can raise\<close>

text \<open>From a state that satisfies \<open>I\<close>, the coroutine ends in one that does, and an
  exception it raises satisfies \<open>P\<close>.\<close>

definition safe :: "('s \<Rightarrow> bool) \<Rightarrow> ('e \<Rightarrow> bool) \<Rightarrow> ('s, 'e, 'a) io \<Rightarrow> bool" where
  "safe I P m \<longleftrightarrow> (\<forall>s. I s \<longrightarrow> I (final m s) \<and> (\<forall>e. result m s = Inl e \<longrightarrow> P e))"

named_theorems safe_intros \<open>introduction rules for the exception judgement\<close>

lemma safeD: "safe I P m \<Longrightarrow> I s \<Longrightarrow> m s = (Inl e, s') \<Longrightarrow> P e \<and> I s'"
  unfolding safe_def by (metis fst_conv snd_conv)

lemma safe_state: "safe I P m \<Longrightarrow> I s \<Longrightarrow> m s = (r, s') \<Longrightarrow> I s'"
  unfolding safe_def by (metis snd_conv)

lemma safe_run [safe_intros]:
  "safe I P (ret a)" "safe I P (getsM f)" "P e \<Longrightarrow> safe I P (raise e)" "safe I P (liftM (Inr a))"
  by (simp_all add: safe_def)

lemma safe_liftM: "(\<And>e. r = Inl e \<Longrightarrow> P e) \<Longrightarrow> safe I P (liftM r)"
  by (simp add: safe_def)

lemma safe_bindM [safe_intros]:
  "safe I P m \<Longrightarrow> (\<And>a. safe I P (f a)) \<Longrightarrow> safe I P (bindM m f)"
  by (simp add: safe_def bindM_def split: prod.split sum.split) (metis fst_conv snd_conv)

lemma safe_bindM_val:
  assumes m: "safe I P m" and val: "\<And>s a s'. m s = (Inr a, s') \<Longrightarrow> Q a"
    and f: "\<And>a. Q a \<Longrightarrow> safe I P (f a)"
  shows "safe I P (bindM m f)"
  unfolding safe_def
proof (intro allI impI)
  fix s
  assume I: "I s"
  obtain r s' where ms: "m s = (r, s')" by fastforce
  then have I': "I s'" using m I by (metis safe_state)
  show "I (final (bindM m f) s) \<and> (\<forall>e. result (bindM m f) s = Inl e \<longrightarrow> P e)"
  proof (cases r)
    case (Inl e)
    then show ?thesis using safeD [OF m I] ms I' by (simp add: bindM_def)
  next
    case (Inr a)
    then have "safe I P (f a)" using val [of s a s'] ms f by simp
    then show ?thesis using Inr ms I' by (simp add: bindM_def safe_def)
  qed
qed

lemma safe_catchM:
  assumes m: "safe I Q m"
    and handled: "\<And>e k. Q e \<Longrightarrow> h e = Some k \<Longrightarrow> safe I P k"
    and unhandled: "\<And>e. Q e \<Longrightarrow> h e = None \<Longrightarrow> P e"
  shows "safe I P (catchM m h)"
  unfolding safe_def
proof (intro allI impI)
  fix s
  assume I: "I s"
  obtain r s' where ms: "m s = (r, s')" by fastforce
  then have I': "I s'" using m I by (metis safe_state)
  show "I (final (catchM m h) s) \<and> (\<forall>e. result (catchM m h) s = Inl e \<longrightarrow> P e)"
  proof (cases r)
    case (Inl e)
    then have "Q e" using m I ms by (metis safeD)
    then show ?thesis
      using Inl ms I' handled unhandled
      by (cases "h e") (auto simp: catchM_def safe_def)
  qed (use ms I' in \<open>simp add: catchM_def\<close>)
qed

lemma safe_if [safe_intros]:
  "(b \<Longrightarrow> safe I P m) \<Longrightarrow> (\<not> b \<Longrightarrow> safe I P n) \<Longrightarrow> safe I P (if b then m else n)"
  by simp

lemma safe_option [safe_intros]:
  "(x = None \<Longrightarrow> safe I P m) \<Longrightarrow> (\<And>a. x = Some a \<Longrightarrow> safe I P (f a)) \<Longrightarrow>
   safe I P (case x of None \<Rightarrow> m | Some a \<Rightarrow> f a)"
  by (cases x) auto

section \<open>Lists\<close>

lemma split_at_separator:
  "x \<notin> set xs \<Longrightarrow> x \<notin> set ys \<Longrightarrow> xs @ x # us = ys @ x # vs \<Longrightarrow> xs = ys \<and> us = vs"
  by (induction xs arbitrary: ys) (auto simp: Cons_eq_append_conv append_eq_Cons_conv)

text \<open>Insertion sort by a comparison, the reference meaning of an \<open>ORDER BY\<close>.\<close>

fun insert_by :: "('a \<Rightarrow> 'a \<Rightarrow> bool) \<Rightarrow> 'a \<Rightarrow> 'a list \<Rightarrow> 'a list" where
  "insert_by le x [] = [x]"
| "insert_by le x (y # ys) = (if le x y then x # y # ys else y # insert_by le x ys)"

definition sort_by :: "('a \<Rightarrow> 'a \<Rightarrow> bool) \<Rightarrow> 'a list \<Rightarrow> 'a list" where
  "sort_by le xs = foldr (insert_by le) xs []"

lemma set_insert_by [simp]: "set (insert_by le x ys) = insert x (set ys)"
  by (induction ys) auto

lemma length_insert_by [simp]: "length (insert_by le x ys) = Suc (length ys)"
  by (induction ys) auto

lemma sort_by_simps [simp]:
  "sort_by le [] = []"
  "sort_by le (x # xs) = insert_by le x (sort_by le xs)"
  by (simp_all add: sort_by_def)

lemma set_sort_by [simp]: "set (sort_by le xs) = set xs"
  by (induction xs) auto

lemma length_sort_by [simp]: "length (sort_by le xs) = length xs"
  by (induction xs) auto

lemma distinct_insert_by [simp]: "distinct (insert_by le x ys) = (x \<notin> set ys \<and> distinct ys)"
  by (induction ys) auto

lemma distinct_sort_by [simp]: "distinct (sort_by le xs) = distinct xs"
  by (induction xs) auto

lemma sorted_insert_by:
  assumes total: "\<And>a b. le a b \<or> le b a"
    and trans: "\<And>a b c. le a b \<Longrightarrow> le b c \<Longrightarrow> le a c"
  shows "sorted_wrt le ys \<Longrightarrow> sorted_wrt le (insert_by le x ys)"
proof (induction ys)
  case Nil
  then show ?case by simp
next
  case (Cons y ys)
  then show ?case
    using total [of x y] by (cases "le x y") (auto intro: trans)
qed

lemma sorted_sort_by:
  assumes total: "\<And>a b. le a b \<or> le b a"
    and trans: "\<And>a b c. le a b \<Longrightarrow> le b c \<Longrightarrow> le a c"
  shows "sorted_wrt le (sort_by le xs)"
  by (induction xs) (simp_all add: sorted_insert_by [of le, OF total trans])

text \<open>A list sorted by a relation that is antisymmetric on its elements is determined by
  the set of its elements.\<close>

lemma sorted_wrt_unique:
  assumes "sorted_wrt le xs" "sorted_wrt le ys" "distinct xs" "distinct ys" "set xs = set ys"
    and anti: "\<And>a b. a \<in> set xs \<Longrightarrow> b \<in> set xs \<Longrightarrow> le a b \<Longrightarrow> le b a \<Longrightarrow> a = b"
  shows "xs = ys"
  using assms
proof (induction xs arbitrary: ys)
  case Nil
  then show ?case by simp
next
  case (Cons x xs)
  then obtain y zs where ys: "ys = y # zs" by (cases ys) auto
  have "x = y"
  proof (rule ccontr)
    assume "x \<noteq> y"
    with Cons.prems(5) ys have "y \<in> set xs" "x \<in> set zs"
      by (auto simp: insert_eq_iff set_eq_iff)
    with Cons.prems(1,2) ys have "le x y" "le y x" by auto
    with Cons.prems(6) [of x y] \<open>y \<in> set xs\<close> \<open>x \<noteq> y\<close> show False by simp
  qed
  moreover from this Cons.prems(3-5) ys have "set xs = set zs" by (auto simp: insert_ident)
  ultimately show ?case using Cons ys by auto
qed

text \<open>The orders in which a set of rows can come: \<open>permuted n\<close> takes the elements of a list in an
  order that \<open>n\<close> encodes, and every order has a code.\<close>

function permuted :: "nat \<Rightarrow> 'a list \<Rightarrow> 'a list" where
  "permuted n [] = []"
| "permuted n (x # xs) =
     (let i = n mod length (x # xs) in
      (x # xs) ! i # permuted (n div length (x # xs)) (take i (x # xs) @ drop (Suc i) (x # xs)))"
  by pat_completeness auto
termination
  by (relation "measure (\<lambda>(n, xs). length xs)") (auto simp: less_Suc_eq_le)

lemma insert_nth: "i < length xs \<Longrightarrow> insert (xs ! i) (set (take i xs @ drop (Suc i) xs)) = set xs"
  by (subst (3) id_take_nth_drop [of i xs]) auto

lemma set_permuted [simp]: "set (permuted n xs) = set xs"
proof (induction n xs rule: permuted.induct)
  case (2 n x xs)
  let ?i = "n mod length (x # xs)"
  have "?i < length (x # xs)" by (rule mod_less_divisor) simp
  from insert_nth [OF this] 2 [OF refl] show ?case
    by (simp only: permuted.simps Let_def list.set(2) [of "(x # xs) ! ?i"])
qed simp

lemma length_permuted [simp]: "length (permuted n xs) = length xs"
proof (induction n xs rule: permuted.induct)
  case (2 n x xs)
  have "n mod length (x # xs) < length (x # xs)" by (rule mod_less_divisor) simp
  then show ?case using 2 [OF refl] by (simp add: Let_def)
qed simp

lemma distinct_permuted [simp]: "distinct xs \<Longrightarrow> distinct (permuted n xs)"
  by (simp add: card_distinct distinct_card)

lemma permuted_0 [simp]: "permuted 0 xs = xs"
  by (induction xs) (simp_all add: Let_def)

lemma permuted_all:
  "set ys = set xs \<Longrightarrow> distinct xs \<Longrightarrow> distinct ys \<Longrightarrow> \<exists>n. permuted n xs = ys"
proof (induction ys arbitrary: xs)
  case (Cons y ys)
  then have "y \<in> set xs" by auto
  then obtain i where i: "i < length xs" "xs ! i = y" by (auto simp: in_set_conv_nth)
  let ?rest = "take i xs @ drop (Suc i) xs"
  have split: "xs = take i xs @ y # drop (Suc i) xs" using id_take_nth_drop [OF i(1)] i(2) by simp
  have "distinct (take i xs @ y # drop (Suc i) xs)" using Cons.prems(2) split by simp
  then have rest: "distinct ?rest" "y \<notin> set ?rest" by auto
  have "set xs = insert y (set ?rest)" by (subst split) auto
  then have "set ys = set ?rest" using Cons.prems(1,3) rest(2) by (auto simp: insert_ident)
  then obtain m where "permuted m ?rest = ys" using Cons.IH rest(1) Cons.prems(3) by force
  moreover have "(i + length xs * m) mod length xs = i" "(i + length xs * m) div length xs = m"
    using i(1) by (auto simp: div_add1_eq)
  moreover have "permuted n xs = xs ! (n mod length xs) #
      permuted (n div length xs) (take (n mod length xs) xs @ drop (Suc (n mod length xs)) xs)" for n
    using i(1) by (cases xs) (simp_all only: permuted.simps Let_def, simp)
  ultimately have "permuted (i + length xs * m) xs = y # ys" using i(2) by metis
  then show ?case ..
qed simp

section \<open>Invariants of step relations\<close>

text \<open>What a system of steps promises to its users: a property that each step keeps holds after
  every run.\<close>

locale step_invariant =
  fixes stp :: "'s \<Rightarrow> 's \<Rightarrow> bool"
    and inv :: "'s \<Rightarrow> bool"
  assumes kept: "inv s \<Longrightarrow> stp s s' \<Longrightarrow> inv s'"
begin

lemma run: "stp\<^sup>*\<^sup>* s s' \<Longrightarrow> inv s \<Longrightarrow> inv s'"
  by (induction rule: rtranclp_induct) (auto intro: kept)

end

end
