(* ===== verification/Text.thy ===== *)
theory Text
  imports Prelude
begin

text \<open>
  Python's \<open>str\<close> and \<open>bytes\<close>. A \<open>str\<close> is a list of Unicode code points, so
  \<open>len\<close> counts code points; \<open>bytes\<close> is a list of numbers below 256. The
  string methods the sources call are here, with UTF-8 as the strict codec of
  \<open>str.encode\<close> and \<open>bytes.decode\<close> and the decimal conversions
  \<open>str(int)\<close> and \<open>int(str)\<close>.
\<close>

type_synonym pystr = "nat list"
type_synonym pybytes = "nat list"

definition lit :: "string \<Rightarrow> pystr" where
  "lit s = map of_char s"

lemma lit_Nil [simp]: "lit [] = []"
  by (simp add: lit_def)

lemma lit_inject [simp]: "lit s = lit t \<longleftrightarrow> s = t"
  using inj_on_map_eq_map [of of_char s t] by (auto simp: lit_def inj_on_def)

text \<open>A Python object whose class the program inspects; \<open>PyOther\<close> carries the truth value
  of anything else.\<close>

datatype pyobj =
  PyNone | PyBool bool | PyInt int | PyStr pystr | PyList "pyobj list" | PyOther bool

fun truthy :: "pyobj \<Rightarrow> bool" where
  "truthy PyNone = False"
| "truthy (PyBool b) = b"
| "truthy (PyInt i) = (i \<noteq> 0)"
| "truthy (PyStr s) = (s \<noteq> [])"
| "truthy (PyList xs) = (xs \<noteq> [])"
| "truthy (PyOther b) = b"

section \<open>Character classes\<close>

text \<open>\<open>str.isascii\<close>; \<open>str.isdigit\<close>, which the sources only use in conjunction with
  \<open>isascii\<close>, on ASCII strings; \<open>str.isspace\<close> of one character.\<close>

definition isascii :: "pystr \<Rightarrow> bool" where
  "isascii s \<longleftrightarrow> list_all (\<lambda>c. c < 128) s"

definition digit_char :: "nat \<Rightarrow> bool" where
  "digit_char c \<longleftrightarrow> 48 \<le> c \<and> c \<le> 57"

definition isdigit :: "pystr \<Rightarrow> bool" where
  "isdigit s \<longleftrightarrow> s \<noteq> [] \<and> list_all digit_char s"

definition space_char :: "nat \<Rightarrow> bool" where
  "space_char c \<longleftrightarrow>
     (9 \<le> c \<and> c \<le> 13) \<or> (28 \<le> c \<and> c \<le> 32) \<or> c = 133 \<or> c = 160 \<or> c = 5760 \<or>
     (8192 \<le> c \<and> c \<le> 8202) \<or> c = 8232 \<or> c = 8233 \<or> c = 8239 \<or> c = 8287 \<or> c = 12288"

definition alpha_char :: "nat \<Rightarrow> bool" where
  "alpha_char c \<longleftrightarrow> (65 \<le> c \<and> c \<le> 90) \<or> (97 \<le> c \<and> c \<le> 122)"

lemma isascii_digits: "list_all digit_char s \<Longrightarrow> isascii s"
  by (auto simp: isascii_def digit_char_def list_all_iff)

section \<open>Searching and splitting\<close>

fun startswith :: "pystr \<Rightarrow> pystr \<Rightarrow> bool" where
  "startswith s [] = True"
| "startswith [] (p # ps) = False"
| "startswith (c # s) (p # ps) = (c = p \<and> startswith s ps)"

definition endswith :: "pystr \<Rightarrow> pystr \<Rightarrow> bool" where
  "endswith s p = startswith (rev s) (rev p)"

definition removeprefix :: "pystr \<Rightarrow> pystr \<Rightarrow> pystr" where
  "removeprefix s p = (if startswith s p then drop (length p) s else s)"

text \<open>\<open>s.partition(c)\<close> for a one-character separator: the text before its first
  occurrence, whether there is one, and the text after it.\<close>

definition partition_at :: "nat \<Rightarrow> pystr \<Rightarrow> pystr \<times> bool \<times> pystr" where
  "partition_at c s = (takeWhile (\<lambda>d. d \<noteq> c) s, c \<in> set s, drop 1 (dropWhile (\<lambda>d. d \<noteq> c) s))"

text \<open>\<open>s.rpartition(c)\<close>: around the last occurrence; without one, everything is on
  the right.\<close>

definition rpartition_at :: "nat \<Rightarrow> pystr \<Rightarrow> pystr \<times> bool \<times> pystr" where
  "rpartition_at c s =
     (if c \<in> set s
      then (rev (drop 1 (dropWhile (\<lambda>d. d \<noteq> c) (rev s))), True, rev (takeWhile (\<lambda>d. d \<noteq> c) (rev s)))
      else ([], False, s))"

fun split_on :: "nat \<Rightarrow> pystr \<Rightarrow> pystr list" where
  "split_on c [] = [[]]"
| "split_on c (d # s) =
     (if d = c then [] # split_on c s
      else (case split_on c s of [] \<Rightarrow> [[d]] | w # ws \<Rightarrow> (d # w) # ws))"

text \<open>\<open>s.replace(c, t)\<close> for a one-character pattern.\<close>

definition replace_char :: "nat \<Rightarrow> pystr \<Rightarrow> pystr \<Rightarrow> pystr" where
  "replace_char c t s = concat (map (\<lambda>d. if d = c then t else [d]) s)"

lemma replace_char_simps [simp]:
  "replace_char c t [] = []"
  "replace_char c t (d # s) = (if d = c then t else [d]) @ replace_char c t s"
  by (simp_all add: replace_char_def)

lemma startswith_iff: "startswith s p \<longleftrightarrow> (\<exists>r. s = p @ r)"
  by (induction s p rule: startswith.induct) auto

lemma startswith_append [simp]: "startswith (p @ r) p"
  by (auto simp: startswith_iff)

lemma removeprefix_append [simp]: "removeprefix (p @ r) p = r"
  by (simp add: removeprefix_def)

text \<open>Stripping the characters of a class from both ends.\<close>

definition strip_by :: "(nat \<Rightarrow> bool) \<Rightarrow> pystr \<Rightarrow> pystr" where
  "strip_by P s = rev (dropWhile P (rev (dropWhile P s)))"

lemma strip_by_eq_Nil_iff: "strip_by P s = [] \<longleftrightarrow> list_all P s"
proof
  assume "strip_by P s = []"
  then have all: "\<forall>c\<in>set (dropWhile P s). P c" by (simp add: strip_by_def)
  have "dropWhile P s = []"
    using all hd_dropWhile [of P s] hd_in_set [of "dropWhile P s"] by blast
  then show "list_all P s" by (simp add: list_all_iff)
next
  assume "list_all P s"
  then have "dropWhile P s = []" by (simp only: dropWhile_eq_Nil_conv list_all_iff)
  then show "strip_by P s = []" by (simp only: strip_by_def rev.simps dropWhile.simps)
qed

lemma set_strip_by: "set (strip_by P s) \<subseteq> set s"
  by (auto simp: strip_by_def dest!: set_dropWhileD)

lemma length_strip_by: "length (strip_by P s) \<le> length s"
  unfolding strip_by_def by (metis length_dropWhile_le length_rev le_trans)

section \<open>Decimal integers\<close>

text \<open>\<open>str(n)\<close> and \<open>int(s)\<close> on a string of ASCII digits.\<close>

fun str_nat :: "nat \<Rightarrow> pystr" where
  "str_nat n = (if n < 10 then [48 + n] else str_nat (n div 10) @ [48 + n mod 10])"

declare str_nat.simps [simp del]

definition str_int :: "int \<Rightarrow> pystr" where
  "str_int i = (if i < 0 then 45 # str_nat (nat (- i)) else str_nat (nat i))"

definition int_of_digits :: "pystr \<Rightarrow> nat" where
  "int_of_digits s = foldl (\<lambda>n c. 10 * n + (c - 48)) 0 s"

lemma int_of_digits_snoc [simp]: "int_of_digits (s @ [c]) = 10 * int_of_digits s + (c - 48)"
  by (simp add: int_of_digits_def)

lemma int_of_digits_single [simp]: "int_of_digits [c] = c - 48"
  by (simp add: int_of_digits_def)

lemma str_nat_digits: "list_all digit_char (str_nat n)"
proof (induction n rule: str_nat.induct)
  case (1 n)
  have "digit_char (48 + n mod 10)" "n < 10 \<Longrightarrow> digit_char (48 + n)"
    by (auto simp: digit_char_def)
  with "1.IH" show ?case by (subst str_nat.simps) simp
qed

lemma str_nat_nonempty [simp]: "str_nat n \<noteq> []"
  by (subst str_nat.simps) simp

lemma isdigit_str_nat [simp]: "isdigit (str_nat n)"
  by (simp add: isdigit_def str_nat_digits)

lemma isascii_str_nat [simp]: "isascii (str_nat n)"
  by (rule isascii_digits [OF str_nat_digits])

lemma int_of_str_nat [simp]: "int_of_digits (str_nat n) = n"
proof (induction n rule: str_nat.induct)
  case (1 n)
  then show ?case
    by (subst str_nat.simps) auto
qed

lemma str_nat_inject [simp]: "str_nat m = str_nat n \<longleftrightarrow> m = n"
  by (metis int_of_str_nat)

lemma str_nat_set: "c \<in> set (str_nat n) \<Longrightarrow> digit_char c"
  using str_nat_digits [of n] by (auto simp: list_all_iff)

lemma str_int_set: "c \<in> set (str_int i) \<Longrightarrow> digit_char c \<or> c = 45"
  by (auto simp: str_int_def dest: str_nat_set split: if_splits)

lemma str_int_inject [simp]: "str_int i = str_int j \<longleftrightarrow> i = j"
proof
  assume eq: "str_int i = str_int j"
  have minus: "(\<exists>r. str_int k = 45 # r) \<longleftrightarrow> k < 0" for k
    using str_nat_set [of 45 "nat k"] by (auto simp: str_int_def digit_char_def)
  show "i = j"
    using eq minus [of i] minus [of j] by (auto simp: str_int_def split: if_splits)
qed simp

text \<open>A string of digits is below the power of ten of its length, and a number below
  \<open>10 ^ k\<close> has at most \<open>k\<close> digits (for \<open>k > 0\<close>).\<close>

lemma int_of_digits_bound: "list_all digit_char s \<Longrightarrow> int_of_digits s < 10 ^ length s"
proof (induction s rule: rev_induct)
  case Nil
  then show ?case by (simp add: int_of_digits_def)
next
  case (snoc c s)
  then show ?case by (auto simp: digit_char_def)
qed

lemma length_str_nat: "n < 10 ^ Suc k \<Longrightarrow> length (str_nat n) \<le> Suc k"
proof (induction k arbitrary: n)
  case 0
  then show ?case by (subst str_nat.simps) simp
next
  case (Suc k)
  have "n div 10 < 10 ^ Suc k" using Suc.prems by (simp add: less_mult_imp_div_less mult.commute)
  then have "length (str_nat (n div 10)) \<le> Suc k" by (rule Suc.IH)
  then show ?case by (subst str_nat.simps) simp
qed

section \<open>UTF-8\<close>

text \<open>A code point that \<open>str.encode\<close> accepts: in range and no surrogate.\<close>

definition scalar :: "nat \<Rightarrow> bool" where
  "scalar c \<longleftrightarrow> c < 55296 \<or> (57344 \<le> c \<and> c < 1114112)"

definition utf8_char :: "nat \<Rightarrow> pybytes" where
  "utf8_char c =
     (if c < 128 then [c]
      else if c < 2048 then [192 + c div 64, 128 + c mod 64]
      else if c < 65536 then [224 + c div 4096, 128 + c div 64 mod 64, 128 + c mod 64]
      else [240 + c div 262144, 128 + c div 4096 mod 64, 128 + c div 64 mod 64, 128 + c mod 64])"

definition utf8_encode :: "pystr \<Rightarrow> pybytes option" where
  "utf8_encode s = (if list_all scalar s then Some (concat (map utf8_char s)) else None)"

definition cont_byte :: "nat \<Rightarrow> bool" where
  "cont_byte b \<longleftrightarrow> 128 \<le> b \<and> b < 192"

text \<open>The strict decoder: overlong forms, surrogates, values above U+10FFFF and
  truncated sequences are errors (\<open>None\<close>, Python's \<open>UnicodeDecodeError\<close>).\<close>

fun utf8_decode :: "pybytes \<Rightarrow> pystr option" where
  "utf8_decode [] = Some []"
| "utf8_decode (b # bs) =
     (if b < 128 then map_option (\<lambda>r. b # r) (utf8_decode bs)
      else if 194 \<le> b \<and> b < 224 then
        (case bs of c1 # r1 \<Rightarrow>
           if cont_byte c1
           then map_option (\<lambda>r. ((b - 192) * 64 + (c1 - 128)) # r) (utf8_decode r1) else None
         | _ \<Rightarrow> None)
      else if 224 \<le> b \<and> b < 240 then
        (case bs of c1 # c2 # r2 \<Rightarrow>
           let c = (b - 224) * 4096 + (c1 - 128) * 64 + (c2 - 128) in
           if cont_byte c1 \<and> cont_byte c2 \<and> 2048 \<le> c \<and> scalar c
           then map_option (\<lambda>r. c # r) (utf8_decode r2) else None
         | _ \<Rightarrow> None)
      else if 240 \<le> b \<and> b < 245 then
        (case bs of c1 # c2 # c3 # r3 \<Rightarrow>
           let c = (b - 240) * 262144 + (c1 - 128) * 4096 + (c2 - 128) * 64 + (c3 - 128) in
           if cont_byte c1 \<and> cont_byte c2 \<and> cont_byte c3 \<and> 65536 \<le> c \<and> scalar c
           then map_option (\<lambda>r. c # r) (utf8_decode r3) else None
         | _ \<Rightarrow> None)
      else None)"

lemma base64_digits:
  fixes c :: nat
  shows "c div 4096 * 4096 + c div 64 mod 64 * 64 + c mod 64 = c"
    and "c div 262144 * 262144 + c div 4096 mod 64 * 4096 + c div 64 mod 64 * 64 + c mod 64 = c"
proof -
  have 1: "c div 64 * 64 + c mod 64 = c" by (rule div_mult_mod_eq)
  have 2: "c div 4096 * 64 + c div 64 mod 64 = c div 64"
    using div_mult_mod_eq [of "c div 64" 64] by (simp add: div_mult2_eq [symmetric])
  have 3: "c div 262144 * 64 + c div 4096 mod 64 = c div 4096"
    using div_mult_mod_eq [of "c div 4096" 64] by (simp add: div_mult2_eq [symmetric])
  show "c div 4096 * 4096 + c div 64 mod 64 * 64 + c mod 64 = c" using 1 2 by linarith
  show "c div 262144 * 262144 + c div 4096 mod 64 * 4096 + c div 64 mod 64 * 64 + c mod 64 = c"
    using 1 2 3 by linarith
qed

lemma utf8_decode_char:
  assumes "scalar c"
  shows "utf8_decode (utf8_char c @ bs) = map_option (\<lambda>r. c # r) (utf8_decode bs)"
proof -
  consider (one) "c < 128" | (two) "128 \<le> c" "c < 2048" | (three) "2048 \<le> c" "c < 65536"
    | (four) "65536 \<le> c" "c < 1114112"
    using assms by (fastforce simp: scalar_def)
  then show ?thesis
  proof cases
    case one
    then show ?thesis by (simp add: utf8_char_def)
  next
    case two
    have "2 \<le> c div 64" "c div 64 < 32" using two by auto
    then show ?thesis using two by (simp add: utf8_char_def cont_byte_def)
  next
    case three
    have "c div 4096 < 16" using three by auto
    then show ?thesis using three assms base64_digits(1) [of c]
      by (simp add: utf8_char_def cont_byte_def Let_def)
  next
    case four
    have "c div 262144 < 5" using four by auto
    then show ?thesis using four assms base64_digits(2) [of c]
      by (simp add: utf8_char_def cont_byte_def Let_def)
  qed
qed

lemma utf8_decode_concat: "list_all scalar s \<Longrightarrow> utf8_decode (concat (map utf8_char s)) = Some s"
  by (induction s) (simp_all add: utf8_decode_char)

theorem utf8_roundtrip: "utf8_encode s = Some bs \<Longrightarrow> utf8_decode bs = Some s"
  by (auto simp: utf8_encode_def utf8_decode_concat split: if_splits)

lemma utf8_encode_ascii: "isascii s \<Longrightarrow> utf8_encode s = Some s"
proof (induction s)
  case Nil
  then show ?case by (simp add: utf8_encode_def)
next
  case (Cons c s)
  then show ?case
    by (auto simp: utf8_encode_def isascii_def utf8_char_def scalar_def split: if_splits)
qed

lemma utf8_decode_ascii: "isascii s \<Longrightarrow> utf8_decode s = Some s"
  using utf8_roundtrip utf8_encode_ascii by blast

lemma utf8_char_bytes: "scalar c \<Longrightarrow> b \<in> set (utf8_char c) \<Longrightarrow> b < 256"
  by (auto simp: utf8_char_def scalar_def split: if_splits)

lemma utf8_encode_bytes: "utf8_encode s = Some bs \<Longrightarrow> list_all (\<lambda>b. b < 256) bs"
  by (auto simp: utf8_encode_def list_all_iff split: if_splits) (blast intro: utf8_char_bytes)

lemma map_option_Cons_scalar:
  assumes "map_option (\<lambda>r. c # r) x = Some s" "scalar c" "\<And>r. x = Some r \<Longrightarrow> list_all scalar r"
  shows "list_all scalar s"
  using assms by auto

lemma utf8_decode_scalar: "utf8_decode bs = Some s \<Longrightarrow> list_all scalar s"
proof (induction bs arbitrary: s rule: utf8_decode.induct)
  case (2 b bs)
  consider (one) "b < 128" | (two) "194 \<le> b" "b < 224" | (three) "224 \<le> b" "b < 240"
    | (four) "240 \<le> b" "b < 245" | (bad) "128 \<le> b" "b < 194 \<or> 245 \<le> b"
    by linarith
  then show ?case
  proof cases
    case one
    then show ?thesis using 2 by (auto simp: scalar_def)
  next
    case two
    then obtain c r where bs: "bs = c # r" "cont_byte c" "utf8_decode r \<noteq> None"
      using "2.prems" by (cases bs) (auto split: if_splits)
    have sc: "scalar ((b - 192) * 64 + (c - 128))"
      using two bs(2) by (auto simp: scalar_def cont_byte_def)
    show ?thesis
      by (rule map_option_Cons_scalar [OF _ sc "2.IH"(2)]) (use "2.prems" two bs in auto)
  next
    case three
    then obtain c d r where bs: "bs = c # d # r"
      using "2.prems" by (cases bs; cases "tl bs") auto
    show ?thesis
    proof (rule map_option_Cons_scalar [where x = "utf8_decode r" and
            c = "(b - 224) * 4096 + (c - 128) * 64 + (d - 128)"])
      fix t
      assume "utf8_decode r = Some t"
      then show "list_all scalar t"
        using "2.IH"(3) [of c "d # r" d r, OF _ _ _ bs refl refl] "2.prems" three bs
        by (auto simp: Let_def split: if_splits)
    qed (use "2.prems" three bs in \<open>auto simp: Let_def split: if_splits\<close>)
  next
    case four
    then obtain c d e r where bs: "bs = c # d # e # r"
      using "2.prems" by (cases bs; cases "tl bs"; cases "tl (tl bs)") auto
    show ?thesis
    proof (rule map_option_Cons_scalar [where x = "utf8_decode r" and
            c = "(b - 240) * 262144 + (c - 128) * 4096 + (d - 128) * 64 + (e - 128)"])
      fix t
      assume "utf8_decode r = Some t"
      then show "list_all scalar t"
        using "2.IH"(4) [of c "d # e # r" d "e # r" e r, OF _ _ _ _ bs refl refl refl] "2.prems" four bs
        by (auto simp: Let_def split: if_splits)
    qed (use "2.prems" four bs in \<open>auto simp: Let_def split: if_splits\<close>)
  qed (use "2.prems" in auto)
qed simp

end
