(* ===== verification/Json.thy ===== *)
theory Json
  imports Text "HOL-Library.AList"
begin

text \<open>
  The \<open>json\<close> module of Python's standard library, as the sources use it: values,
  \<open>json.dumps\<close> with the compact separators and ASCII output, and \<open>json.loads\<close>.
  The parser follows the C scanner: one value, with the strict string rules and
  the surrogate-pair rule of \<open>\u\<close> escapes, the number grammar with the
  interpreter's limit on the digits of an \<open>int\<close>, and a bound on the nesting of
  containers in place of the interpreter's recursion limit. \<open>None\<close> stands for
  \<open>ValueError\<close> and \<open>RecursionError\<close>, which every caller treats alike.
  The main result is the round trip \<open>json_loads_dumps\<close>.
\<close>

section \<open>Values\<close>

text \<open>A \<open>float\<close> is kept as its literal; a \<open>dict\<close> is an association list in
  insertion order with distinct keys.\<close>

datatype json =
  JNull
| JBool bool
| JInt int
| JFloat pystr
| JStr pystr
| JArr "json list"
| JObj "(pystr \<times> json) list"

definition join_with :: "nat \<Rightarrow> pystr list \<Rightarrow> pystr" where
  "join_with c ws = (case ws of [] \<Rightarrow> [] | v # vs \<Rightarrow> v @ concat (map (\<lambda>w. c # w) vs))"

lemma join_with_simps [simp]:
  "join_with c [] = []"
  "join_with c [w] = w"
  "join_with c (v # w # ws) = v @ c # join_with c (w # ws)"
  by (simp_all add: join_with_def)

section \<open>json.dumps\<close>

definition hex_char :: "nat \<Rightarrow> nat" where
  "hex_char n = (if n < 10 then 48 + n else 87 + n)"

definition u_escape :: "nat \<Rightarrow> pystr" where
  "u_escape c =
     [92, 117, hex_char (c div 4096), hex_char (c div 256 mod 16), hex_char (c div 16 mod 16),
      hex_char (c mod 16)]"

definition escape_char :: "nat \<Rightarrow> pystr" where
  "escape_char c =
     (if c = 34 \<or> c = 92 then [92, c]
      else if c = 10 then [92, 110] else if c = 13 then [92, 114]
      else if c = 9 then [92, 116] else if c = 12 then [92, 102] else if c = 8 then [92, 98]
      else if 32 \<le> c \<and> c \<le> 126 then [c]
      else if c < 65536 then u_escape c
      else u_escape (55296 + (c - 65536) div 1024) @ u_escape (56320 + (c - 65536) mod 1024))"

definition dumps_str :: "pystr \<Rightarrow> pystr" where
  "dumps_str s = 34 # concat (map escape_char s) @ [34]"

fun json_dumps :: "json \<Rightarrow> pystr" where
  "json_dumps JNull = lit ''null''"
| "json_dumps (JBool b) = (if b then lit ''true'' else lit ''false'')"
| "json_dumps (JInt i) = str_int i"
| "json_dumps (JFloat t) = t"
| "json_dumps (JStr s) = dumps_str s"
| "json_dumps (JArr xs) = 91 # join_with 44 (map json_dumps xs) @ [93]"
| "json_dumps (JObj kvs) =
     123 # join_with 44 (map (\<lambda>kv. dumps_str (fst kv) @ 58 # json_dumps (snd kv)) kvs) @ [125]"

text \<open>\<open>sort_keys=True\<close> orders the members of an object by key.\<close>

definition sort_keys :: "(pystr \<times> json) list \<Rightarrow> (pystr \<times> json) list" where
  "sort_keys kvs = sort_by (\<lambda>a b. fst a \<le> fst b) kvs"

section \<open>json.loads\<close>

definition hex_val :: "nat \<Rightarrow> nat option" where
  "hex_val c =
     (if 48 \<le> c \<and> c \<le> 57 then Some (c - 48)
      else if 97 \<le> c \<and> c \<le> 102 then Some (c - 87)
      else if 65 \<le> c \<and> c \<le> 70 then Some (c - 55) else None)"

definition hex4 :: "nat \<Rightarrow> nat \<Rightarrow> nat \<Rightarrow> nat \<Rightarrow> nat option" where
  "hex4 a b c d =
     (case (hex_val a, hex_val b, hex_val c, hex_val d) of
        (Some w, Some x, Some y, Some z) \<Rightarrow> Some (w * 4096 + x * 256 + y * 16 + z)
      | _ \<Rightarrow> None)"

definition unescape :: "nat \<Rightarrow> nat option" where
  "unescape e =
     (if e = 34 \<or> e = 92 \<or> e = 47 then Some e
      else if e = 98 then Some 8 else if e = 102 then Some 12 else if e = 110 then Some 10
      else if e = 114 then Some 13 else if e = 116 then Some 9 else None)"

definition high_surrogate :: "nat \<Rightarrow> bool" where
  "high_surrogate u \<longleftrightarrow> 55296 \<le> u \<and> u < 56320"

definition low_surrogate :: "nat \<Rightarrow> bool" where
  "low_surrogate u \<longleftrightarrow> 56320 \<le> u \<and> u < 57344"

definition push :: "'a \<Rightarrow> ('a list \<times> 'b) option \<Rightarrow> ('a list \<times> 'b) option" where
  "push a r = map_option (map_prod (\<lambda>xs. a # xs) id) r"

lemma push_simps [simp]: "push a None = None" "push a (Some (xs, r)) = Some (a # xs, r)"
  by (simp_all add: push_def)

text \<open>The text after an opening quote: the characters and what follows the closing
  quote.\<close>

fun str_body :: "pystr \<Rightarrow> (pystr \<times> pystr) option" where
  "str_body [] = None"
| "str_body (c # s) =
     (if c = 34 then Some ([], s)
      else if c = 92 then
        (case s of [] \<Rightarrow> None | e # s1 \<Rightarrow>
           if e = 117 then
             (case s1 of h1 # h2 # h3 # h4 # s2 \<Rightarrow>
                (case hex4 h1 h2 h3 h4 of None \<Rightarrow> None | Some u \<Rightarrow>
                   (case s2 of x # y # k1 # k2 # k3 # k4 # s3 \<Rightarrow>
                      if high_surrogate u \<and> x = 92 \<and> y = 117 then
                        (case hex4 k1 k2 k3 k4 of None \<Rightarrow> None | Some v \<Rightarrow>
                           if low_surrogate v
                           then push (65536 + (u - 55296) * 1024 + (v - 56320)) (str_body s3)
                           else push u (str_body s2))
                      else push u (str_body s2)
                    | _ \<Rightarrow> push u (str_body s2)))
              | _ \<Rightarrow> None)
           else (case unescape e of None \<Rightarrow> None | Some ch \<Rightarrow> push ch (str_body s1)))
      else if c < 32 then None
      else push c (str_body s))"

definition ws_char :: "nat \<Rightarrow> bool" where
  "ws_char c \<longleftrightarrow> c = 32 \<or> c = 9 \<or> c = 10 \<or> c = 13"

definition starts_at :: "nat \<Rightarrow> pystr \<Rightarrow> bool" where
  "starts_at c s = (case s of [] \<Rightarrow> False | d # _ \<Rightarrow> d = c)"

definition skip_ws :: "pystr \<Rightarrow> pystr" where
  "skip_ws s = dropWhile ws_char s"

text \<open>\<open>(-?(?:0|[1-9][0-9]*))(\.[0-9]+)?([eE][-+]?[0-9]+)?\<close>, the parts after the sign.\<close>

definition int_part :: "pystr \<Rightarrow> (pystr \<times> pystr) option" where
  "int_part s =
     (case s of [] \<Rightarrow> None | c # r \<Rightarrow>
        if c = 48 then Some ([48], r)
        else if digit_char c then Some (takeWhile digit_char s, dropWhile digit_char s)
        else None)"

definition frac_part :: "pystr \<Rightarrow> pystr \<times> pystr" where
  "frac_part s =
     (case s of c # d # r \<Rightarrow>
        if c = 46 \<and> digit_char d
        then (c # takeWhile digit_char (d # r), dropWhile digit_char (d # r)) else ([], s)
      | _ \<Rightarrow> ([], s))"

definition exp_part :: "pystr \<Rightarrow> pystr \<times> pystr" where
  "exp_part s =
     (case s of e # r \<Rightarrow>
        (let (sg, t) = (case r of g # t \<Rightarrow> if g = 43 \<or> g = 45 then ([g], t) else ([], r)
                        | [] \<Rightarrow> ([], []))
         in if (e = 101 \<or> e = 69) \<and> t \<noteq> [] \<and> digit_char (hd t)
            then (e # sg @ takeWhile digit_char t, dropWhile digit_char t) else ([], s))
      | [] \<Rightarrow> ([], s))"

definition max_int_digits :: nat where
  "max_int_digits = 4300"

definition parse_unsigned :: "bool \<Rightarrow> pystr \<Rightarrow> (json \<times> pystr) option" where
  "parse_unsigned neg t =
     (case int_part t of None \<Rightarrow> None
      | Some (ds, r1) \<Rightarrow>
          let (f, r2) = frac_part r1; (e, r3) = exp_part r2 in
          if f = [] \<and> e = [] then
            (if length ds \<le> max_int_digits
             then Some (JInt (if neg then - int (int_of_digits ds) else int (int_of_digits ds)), r3)
             else None)
          else Some (JFloat ((if neg then [45] else []) @ ds @ f @ e), r3))"

definition parse_number :: "pystr \<Rightarrow> (json \<times> pystr) option" where
  "parse_number s =
     (if starts_at 45 s then parse_unsigned True (drop 1 s) else parse_unsigned False s)"

definition parse_word :: "pystr \<Rightarrow> json \<Rightarrow> pystr \<Rightarrow> (json \<times> pystr) option" where
  "parse_word w j s = (if startswith s w then Some (j, drop (length w) s) else None)"

primrec arr_elems ::
  "(pystr \<Rightarrow> (json \<times> pystr) option) \<Rightarrow> nat \<Rightarrow> pystr \<Rightarrow> (json list \<times> pystr) option" where
  "arr_elems p 0 s = None"
| "arr_elems p (Suc n) s =
     (case p s of None \<Rightarrow> None
      | Some (v, r) \<Rightarrow>
          (case skip_ws r of [] \<Rightarrow> None
           | c # r' \<Rightarrow>
               if c = 93 then Some ([v], r')
               else if c = 44 then push v (arr_elems p n (skip_ws r')) else None))"

definition parse_key :: "pystr \<Rightarrow> (pystr \<times> pystr) option" where
  "parse_key s =
     (case s of [] \<Rightarrow> None | q # r \<Rightarrow>
        if q = 34 then
          (case str_body r of None \<Rightarrow> None | Some (k, r1) \<Rightarrow>
             (case skip_ws r1 of [] \<Rightarrow> None
              | c # r2 \<Rightarrow> if c = 58 then Some (k, skip_ws r2) else None))
        else None)"

primrec obj_members ::
  "(pystr \<Rightarrow> (json \<times> pystr) option) \<Rightarrow> nat \<Rightarrow> pystr \<Rightarrow> ((pystr \<times> json) list \<times> pystr) option"
where
  "obj_members p 0 s = None"
| "obj_members p (Suc n) s =
     (case parse_key s of None \<Rightarrow> None
      | Some (k, r) \<Rightarrow>
          (case p r of None \<Rightarrow> None
           | Some (v, r1) \<Rightarrow>
               (case skip_ws r1 of [] \<Rightarrow> None
                | c # r' \<Rightarrow>
                    if c = 125 then Some ([(k, v)], r')
                    else if c = 44 then push (k, v) (obj_members p n (skip_ws r')) else None)))"

text \<open>The pairs of an object in the order read make a \<open>dict\<close>: a repeated key keeps
  its first position and its last value.\<close>

definition dict_of_pairs :: "(pystr \<times> json) list \<Rightarrow> (pystr \<times> json) list" where
  "dict_of_pairs kvs = foldl (\<lambda>d kv. AList.update (fst kv) (snd kv) d) [] kvs"

text \<open>One value; \<open>nested\<close> parses the values inside a container, and is \<open>None\<close> when
  the nesting bound is reached. Each element of a container takes at least one
  character, so the length of the rest bounds the number of elements.\<close>

definition scan_once ::
  "(pystr \<Rightarrow> (json \<times> pystr) option) option \<Rightarrow> pystr \<Rightarrow> (json \<times> pystr) option" where
  "scan_once nested s =
     (case s of [] \<Rightarrow> None
      | c # r \<Rightarrow>
          if c = 34 then map_option (map_prod JStr id) (str_body r)
          else if c = 123 then
            (case nested of None \<Rightarrow> None
             | Some p \<Rightarrow>
                 (let t = skip_ws r in
                  if starts_at 125 t then Some (JObj [], drop 1 t)
                  else map_option (map_prod (\<lambda>kvs. JObj (dict_of_pairs kvs)) id)
                         (obj_members p (length t) t)))
          else if c = 91 then
            (case nested of None \<Rightarrow> None
             | Some p \<Rightarrow>
                 (let t = skip_ws r in
                  if starts_at 93 t then Some (JArr [], drop 1 t)
                  else map_option (map_prod JArr id) (arr_elems p (length t) t)))
          else if c = 110 then parse_word (lit ''null'') JNull s
          else if c = 116 then parse_word (lit ''true'') (JBool True) s
          else if c = 102 then parse_word (lit ''false'') (JBool False) s
          else if c = 78 then parse_word (lit ''NaN'') (JFloat (lit ''NaN'')) s
          else if c = 73 then parse_word (lit ''Infinity'') (JFloat (lit ''Infinity'')) s
          else if startswith s (lit ''-Infinity'')
               then parse_word (lit ''-Infinity'') (JFloat (lit ''-Infinity'')) s
          else parse_number s)"

primrec parse_value :: "nat \<Rightarrow> pystr \<Rightarrow> (json \<times> pystr) option" where
  "parse_value 0 s = scan_once None s"
| "parse_value (Suc d) s = scan_once (Some (parse_value d)) s"

definition json_loads :: "nat \<Rightarrow> pystr \<Rightarrow> json option" where
  "json_loads depth s =
     (if starts_at 65279 s then None
      else (case parse_value depth (skip_ws s) of None \<Rightarrow> None
            | Some (j, r) \<Rightarrow> if skip_ws r = [] then Some j else None))"

section \<open>Round trip\<close>

text \<open>What \<open>dumps\<close> can print so that \<open>loads\<close>, with nesting bound \<open>d\<close>, reads it
  back: no lone surrogates, no \<open>float\<close>, integers within the digit limit, distinct
  keys, at most \<open>d\<close> nested containers.\<close>

fun json_fits :: "nat \<Rightarrow> json \<Rightarrow> bool" where
  "json_fits d JNull = True"
| "json_fits d (JBool b) = True"
| "json_fits d (JInt i) = (length (str_nat (nat \<bar>i\<bar>)) \<le> max_int_digits)"
| "json_fits d (JFloat t) = False"
| "json_fits d (JStr s) = list_all scalar s"
| "json_fits 0 (JArr xs) = False"
| "json_fits (Suc d) (JArr xs) = list_all (json_fits d) xs"
| "json_fits 0 (JObj kvs) = False"
| "json_fits (Suc d) (JObj kvs) =
     (distinct (map fst kvs) \<and> list_all (\<lambda>kv. list_all scalar (fst kv) \<and> json_fits d (snd kv)) kvs)"

text \<open>Text that cannot continue a number.\<close>

definition delimited :: "pystr \<Rightarrow> bool" where
  "delimited r = (case r of [] \<Rightarrow> True | c # _ \<Rightarrow> \<not> digit_char c \<and> c \<notin> {46, 69, 101})"

lemma delimited_simps [simp]: "delimited []" "delimited (44 # r)" "delimited (93 # r)" "delimited (125 # r)"
  by (simp_all add: delimited_def digit_char_def)

subsection \<open>Strings\<close>

lemma hex_val_char [simp]: "n < 16 \<Longrightarrow> hex_val (hex_char n) = Some n"
  by (auto simp: hex_val_def hex_char_def)

lemma hex4_char:
  assumes "c < 65536"
  shows "hex4 (hex_char (c div 4096)) (hex_char (c div 256 mod 16))
           (hex_char (c div 16 mod 16)) (hex_char (c mod 16)) = Some c"
proof -
  have 1: "c div 16 * 16 + c mod 16 = c" by (rule div_mult_mod_eq)
  have 2: "c div 256 * 16 + c div 16 mod 16 = c div 16"
    using div_mult_mod_eq [of "c div 16" 16] by (simp add: div_mult2_eq [symmetric])
  have 3: "c div 4096 * 16 + c div 256 mod 16 = c div 256"
    using div_mult_mod_eq [of "c div 256" 16] by (simp add: div_mult2_eq [symmetric])
  have "c div 4096 * 4096 + c div 256 mod 16 * 256 + c div 16 mod 16 * 16 + c mod 16 = c"
    using 1 2 3 by linarith
  moreover have "c div 4096 < 16" using assms by auto
  ultimately show ?thesis by (simp add: hex4_def)
qed

declare str_body.simps [simp del]

lemma str_body_simps [simp]:
  "str_body (34 # s) = Some ([], s)"
  "e \<noteq> 117 \<Longrightarrow> str_body (92 # e # s) =
     (case unescape e of None \<Rightarrow> None | Some ch \<Rightarrow> push ch (str_body s))"
  "c \<noteq> 34 \<Longrightarrow> c \<noteq> 92 \<Longrightarrow> 32 \<le> c \<Longrightarrow> str_body (c # s) = push c (str_body s)"
  by (simp_all add: str_body.simps(2))

lemma str_body_u:
  assumes "c < 65536" "\<not> high_surrogate c"
  shows "str_body (u_escape c @ t) = push c (str_body t)"
  using assms by (simp add: u_escape_def hex4_char str_body.simps(2) [of 92] split: list.split)

lemma str_body_pair:
  assumes "high_surrogate u" "low_surrogate v"
  shows "str_body (u_escape u @ u_escape v @ t) =
           push (65536 + (u - 55296) * 1024 + (v - 56320)) (str_body t)"
  using assms
  by (simp add: u_escape_def hex4_char high_surrogate_def low_surrogate_def str_body.simps(2) [of 92])

lemma str_body_escape:
  assumes "scalar c"
  shows "str_body (escape_char c @ t) = push c (str_body t)"
proof -
  consider (quote) "c = 34 \<or> c = 92" | (ctrl) "c = 10 \<or> c = 13 \<or> c = 9 \<or> c = 12 \<or> c = 8"
    | (plain) "32 \<le> c" "c \<le> 126" "c \<noteq> 34" "c \<noteq> 92"
    | (bmp) "c < 65536" "c < 32 \<or> 126 < c" "c \<notin> {10, 13, 9, 12, 8}"
    | (astral) "65536 \<le> c"
    by fastforce
  then show ?thesis
  proof cases
    case bmp
    then have "escape_char c = u_escape c" by (auto simp: escape_char_def)
    moreover have "\<not> high_surrogate c"
      using assms by (auto simp: scalar_def high_surrogate_def)
    ultimately show ?thesis using bmp str_body_u by simp
  next
    case astral
    let ?u = "55296 + (c - 65536) div 1024" and ?v = "56320 + (c - 65536) mod 1024"
    have "c < 1114112" using assms astral by (simp add: scalar_def)
    then have "(c - 65536) div 1024 < 1024" by auto
    then have "high_surrogate ?u" by (simp add: high_surrogate_def)
    moreover have "low_surrogate ?v" by (simp add: low_surrogate_def)
    moreover have "65536 + (?u - 55296) * 1024 + (?v - 56320) = c"
      using astral div_mult_mod_eq [of "c - 65536" 1024] by simp
    ultimately show ?thesis
      using astral str_body_pair [of ?u ?v t] by (simp add: escape_char_def)
  qed (auto simp: escape_char_def unescape_def)
qed

lemma str_body_dumps:
  "list_all scalar s \<Longrightarrow> str_body (concat (map escape_char s) @ 34 # t) = Some (s, t)"
  by (induction s) (simp_all add: str_body_escape)

subsection \<open>Numbers\<close>

lemma str_nat_hd:
  assumes "n \<noteq> 0"
  shows "hd (str_nat n) \<noteq> 48"
  using assms
proof (induction n rule: str_nat.induct)
  case (1 n)
  then show ?case by (subst str_nat.simps) auto
qed

lemma takeWhile_digits:
  "list_all digit_char ds \<Longrightarrow> delimited r \<Longrightarrow>
   takeWhile digit_char (ds @ r) = ds \<and> dropWhile digit_char (ds @ r) = r"
  by (induction ds) (auto simp: delimited_def split: list.splits)

lemma int_part_str_nat:
  assumes "delimited r"
  shows "int_part (str_nat n @ r) = Some (str_nat n, r)"
proof -
  obtain c ds where s: "str_nat n = c # ds" by (cases "str_nat n") auto
  have c: "digit_char c" using str_nat_digits [of n] s by simp
  have tw: "takeWhile digit_char (str_nat n @ r) = str_nat n"
    "dropWhile digit_char (str_nat n @ r) = r"
    using takeWhile_digits [OF str_nat_digits assms] by simp_all
  show ?thesis
  proof (cases "n = 0")
    case True
    then show ?thesis by (simp add: int_part_def str_nat.simps)
  next
    case False
    then have "c \<noteq> 48" using str_nat_hd [of n] s by simp
    then show ?thesis using tw c s by (simp add: int_part_def)
  qed
qed

lemma frac_exp_delimited:
  "delimited r \<Longrightarrow> frac_part r = ([], r)" "delimited r \<Longrightarrow> exp_part r = ([], r)"
  by (auto simp: frac_part_def exp_part_def delimited_def Let_def split: list.splits)

lemma parse_unsigned_str_nat:
  assumes "delimited r" "length (str_nat n) \<le> max_int_digits"
  shows "parse_unsigned neg (str_nat n @ r) = Some (JInt (if neg then - int n else int n), r)"
  using assms by (simp add: parse_unsigned_def int_part_str_nat frac_exp_delimited)

lemma str_nat_starts: "\<not> starts_at 45 (str_nat n @ r)"
proof -
  obtain c ds where s: "str_nat n = c # ds" by (cases "str_nat n") auto
  then have "digit_char c" using str_nat_digits [of n] by simp
  then show ?thesis using s by (auto simp: digit_char_def starts_at_def)
qed

lemma parse_number_str_int:
  assumes "delimited r" "length (str_nat (nat \<bar>i\<bar>)) \<le> max_int_digits"
  shows "parse_number (str_int i @ r) = Some (JInt i, r)"
proof (cases "i < 0")
  case True
  then show ?thesis using assms parse_unsigned_str_nat [of r "nat (- i)" True]
    by (simp add: parse_number_def str_int_def starts_at_def)
next
  case False
  then show ?thesis using assms parse_unsigned_str_nat [of r "nat i" False] str_nat_starts
    by (simp add: parse_number_def str_int_def)
qed

subsection \<open>Values\<close>

text \<open>The first character of a printed value decides how it is scanned.\<close>

definition value_start :: "nat \<Rightarrow> bool" where
  "value_start c \<longleftrightarrow> digit_char c \<or> c \<in> {34, 45, 91, 102, 110, 116, 123}"

lemma dumps_start:
  assumes "json_fits d j"
  shows "\<exists>c r. json_dumps j = c # r \<and> value_start c"
proof -
  have "\<exists>c r. str_int i = c # r \<and> value_start c" for i
  proof -
    obtain c ds where s: "str_nat (nat i) = c # ds" by (cases "str_nat (nat i)") auto
    then have "digit_char c" using str_nat_digits [of "nat i"] by simp
    then show ?thesis using s by (simp add: str_int_def value_start_def)
  qed
  then show ?thesis using assms
    by (cases j) (auto simp: lit_def value_start_def dumps_str_def)
qed

lemma dumps_head:
  assumes "json_fits d j"
  shows "skip_ws (json_dumps j @ r) = json_dumps j @ r"
    and "\<not> starts_at 93 (json_dumps j @ r)" "\<not> starts_at 65279 (json_dumps j @ r)"
  using dumps_start [OF assms]
  by (auto simp: skip_ws_def ws_char_def value_start_def starts_at_def digit_char_def)

lemma skip_ws_punct [simp]:
  "skip_ws [] = []" "skip_ws (44 # r) = 44 # r" "skip_ws (58 # r) = 58 # r"
  "skip_ws (93 # r) = 93 # r" "skip_ws (125 # r) = 125 # r" "skip_ws (34 # r) = 34 # r"
  by (simp_all add: skip_ws_def ws_char_def)

lemma arr_elems_dumps:
  assumes "\<And>x r. x \<in> set xs \<Longrightarrow> delimited r \<Longrightarrow> p (json_dumps x @ r) = Some (x, r)"
    and "\<And>x r. x \<in> set xs \<Longrightarrow> skip_ws (json_dumps x @ r) = json_dumps x @ r"
    and "xs \<noteq> []" "length xs \<le> n"
  shows "arr_elems p n (join_with 44 (map json_dumps xs) @ 93 # rest) = Some (xs, rest)"
  using assms
proof (induction xs arbitrary: n)
  case Nil
  then show ?case by simp
next
  case (Cons x xs)
  obtain m where n: "n = Suc m" using Cons.prems(4) by (cases n) auto
  show ?case
  proof (cases xs)
    case Nil
    then show ?thesis using Cons.prems n by simp
  next
    case (Cons y ys)
    let ?t = "join_with 44 (map json_dumps xs) @ 93 # rest"
    have "p (json_dumps x @ 44 # ?t) = Some (x, 44 # ?t)"
      using Cons.prems(1) [of x "44 # ?t"] by simp
    moreover have "\<exists>z. ?t = json_dumps y @ z"
      using Cons by (cases ys) auto
    then have "skip_ws ?t = ?t"
      using Cons.prems(2) [of y] Cons by auto
    moreover have "arr_elems p m ?t = Some (xs, rest)"
      using Cons.IH [of m] Cons.prems Cons n by simp
    ultimately show ?thesis using Cons n by simp
  qed
qed

lemma parse_key_dumps:
  assumes "list_all scalar k"
  shows "parse_key (dumps_str k @ 58 # t) = Some (k, skip_ws t)"
  using assms by (simp add: parse_key_def dumps_str_def str_body_dumps)

lemma obj_members_dumps:
  assumes "\<And>kv r. kv \<in> set kvs \<Longrightarrow> delimited r \<Longrightarrow> p (json_dumps (snd kv) @ r) = Some (snd kv, r)"
    and "\<And>kv r. kv \<in> set kvs \<Longrightarrow> skip_ws (json_dumps (snd kv) @ r) = json_dumps (snd kv) @ r"
    and "\<And>kv. kv \<in> set kvs \<Longrightarrow> list_all scalar (fst kv)"
    and "kvs \<noteq> []" "length kvs \<le> n"
  shows "obj_members p n
           (join_with 44 (map (\<lambda>kv. dumps_str (fst kv) @ 58 # json_dumps (snd kv)) kvs) @ 125 # rest)
         = Some (kvs, rest)"
  using assms
proof (induction kvs arbitrary: n)
  case Nil
  then show ?case by simp
next
  case (Cons kv kvs)
  obtain m where n: "n = Suc m" using Cons.prems(5) by (cases n) auto
  have key: "parse_key (dumps_str (fst kv) @ 58 # json_dumps (snd kv) @ t)
               = Some (fst kv, json_dumps (snd kv) @ t)" for t
    using Cons.prems(2) [of kv t] Cons.prems(3) [of kv] by (simp add: parse_key_dumps)
  show ?case
  proof (cases kvs)
    case Nil
    then show ?thesis using Cons.prems(1) [of kv "125 # rest"] n key by simp
  next
    case (Cons kv' kvs')
    let ?m = "\<lambda>kv. dumps_str (fst kv) @ 58 # json_dumps (snd kv)"
    let ?t = "join_with 44 (map ?m kvs) @ 125 # rest"
    have "p (json_dumps (snd kv) @ 44 # ?t) = Some (snd kv, 44 # ?t)"
      using Cons.prems(1) [of kv "44 # ?t"] by simp
    moreover have "\<exists>z. ?t = 34 # z"
      using Cons by (cases kvs') (auto simp: dumps_str_def)
    then have "skip_ws ?t = ?t" by auto
    moreover have "obj_members p m ?t = Some (kvs, rest)"
      using Cons.IH [of m] Cons.prems Cons n by simp
    ultimately show ?thesis using Cons n key [of "44 # ?t"] by simp
  qed
qed

lemma dict_of_pairs_distinct: "distinct (map fst kvs) \<Longrightarrow> dict_of_pairs kvs = kvs"
proof (induction kvs rule: rev_induct)
  case Nil
  then show ?case by (simp add: dict_of_pairs_def)
next
  case (snoc kv kvs)
  have upd: "k \<notin> fst ` set d \<Longrightarrow> AList.update k v d = d @ [(k, v)]" for k :: pystr and v :: json and d
    by (induction d) auto
  from snoc show ?case by (auto simp: dict_of_pairs_def upd)
qed

lemma length_join_with: "length ws \<le> Suc (length (join_with c ws))"
  by (induction ws rule: induct_list012) auto

lemma scan_once_int:
  assumes "delimited r" "length (str_nat (nat \<bar>i\<bar>)) \<le> max_int_digits"
  shows "scan_once nested (str_int i @ r) = Some (JInt i, r)"
proof -
  obtain c ds where s: "str_nat (nat \<bar>i\<bar>) = c # ds" by (cases "str_nat (nat \<bar>i\<bar>)") auto
  then have c: "digit_char c" using str_nat_digits [of "nat \<bar>i\<bar>"] by simp
  have "\<exists>d t. str_int i @ r = d # t \<and> (digit_char d \<or> d = 45 \<and> t = c # ds @ r)"
    using s c by (auto simp: str_int_def)
  then have "scan_once nested (str_int i @ r) = parse_number (str_int i @ r)"
    using c by (auto simp: scan_once_def digit_char_def lit_def)
  then show ?thesis using parse_number_str_int [OF assms] by simp
qed

lemma scan_once_str:
  "list_all scalar s \<Longrightarrow> scan_once nested (dumps_str s @ r) = Some (JStr s, r)"
  by (simp add: scan_once_def dumps_str_def str_body_dumps)

lemma scan_once_word:
  "scan_once nested (lit ''null'' @ r) = Some (JNull, r)"
  "scan_once nested (lit ''true'' @ r) = Some (JBool True, r)"
  "scan_once nested (lit ''false'' @ r) = Some (JBool False, r)"
  by (simp_all add: scan_once_def parse_word_def lit_def)

lemmas scan_leaf = scan_once_int scan_once_str scan_once_word

lemma scan_once_arr:
  assumes IH: "\<And>x r. x \<in> set xs \<Longrightarrow> delimited r \<Longrightarrow> p (json_dumps x @ r) = Some (x, r)"
    and fits: "list_all (json_fits d) xs"
  shows "scan_once (Some p) (json_dumps (JArr xs) @ r) = Some (JArr xs, r)"
proof (cases xs)
  case Nil
  then show ?thesis by (simp add: scan_once_def starts_at_def)
next
  case (Cons y ys)
  let ?t = "join_with 44 (map json_dumps xs) @ 93 # r"
  have y: "\<exists>z. ?t = json_dumps y @ z" using Cons by (cases ys) auto
  have "json_fits d y" using fits Cons by simp
  then have t: "skip_ws ?t = ?t" "\<not> starts_at 93 ?t"
    using y dumps_head by auto
  have "length xs \<le> length ?t"
    using length_join_with [of "map json_dumps xs" 44] by simp
  moreover have "\<And>x r. x \<in> set xs \<Longrightarrow> skip_ws (json_dumps x @ r) = json_dumps x @ r"
    using fits dumps_head(1) by (auto simp: list_all_iff)
  ultimately have "arr_elems p (length ?t) ?t = Some (xs, r)"
    using arr_elems_dumps [of xs p "length ?t" r] IH Cons by simp
  then show ?thesis using t by (simp add: scan_once_def Let_def)
qed

lemma scan_once_obj:
  assumes IH: "\<And>kv r. kv \<in> set kvs \<Longrightarrow> delimited r \<Longrightarrow>
                 p (json_dumps (snd kv) @ r) = Some (snd kv, r)"
    and fits: "list_all (\<lambda>kv. list_all scalar (fst kv) \<and> json_fits d (snd kv)) kvs"
    and keys: "distinct (map fst kvs)"
  shows "scan_once (Some p) (json_dumps (JObj kvs) @ r) = Some (JObj kvs, r)"
proof (cases kvs)
  case Nil
  then show ?thesis by (simp add: scan_once_def starts_at_def)
next
  case (Cons kv kvs')
  let ?m = "\<lambda>kv. dumps_str (fst kv) @ 58 # json_dumps (snd kv)"
  let ?t = "join_with 44 (map ?m kvs) @ 125 # r"
  have "\<exists>z. ?t = 34 # z" using Cons by (cases kvs') (auto simp: dumps_str_def)
  then have t: "skip_ws ?t = ?t" "\<not> starts_at 125 ?t" by (auto simp: starts_at_def)
  have "length kvs \<le> length ?t"
    using length_join_with [of "map ?m kvs" 44] by simp
  moreover have "\<And>kv r. kv \<in> set kvs \<Longrightarrow> skip_ws (json_dumps (snd kv) @ r) = json_dumps (snd kv) @ r"
    using fits dumps_head(1) by (auto simp: list_all_iff)
  moreover have "\<And>kv. kv \<in> set kvs \<Longrightarrow> list_all scalar (fst kv)"
    using fits by (auto simp: list_all_iff)
  ultimately have "obj_members p (length ?t) ?t = Some (kvs, r)"
    using obj_members_dumps [of kvs p "length ?t" r] IH Cons by simp
  then show ?thesis using t keys by (simp add: scan_once_def Let_def dict_of_pairs_distinct)
qed

lemma parse_value_dumps:
  "json_fits d j \<Longrightarrow> delimited r \<Longrightarrow> parse_value d (json_dumps j @ r) = Some (j, r)"
proof (induction d arbitrary: j r)
  case 0
  then show ?case by (cases j) (simp_all add: scan_leaf)
next
  case (Suc d)
  show ?case
  proof (cases j)
    case (JArr xs)
    then have "list_all (json_fits d) xs" using Suc.prems by simp
    then show ?thesis using JArr Suc.IH scan_once_arr [of xs "parse_value d" d r]
      by (simp add: list_all_iff)
  next
    case (JObj kvs)
    then have "list_all (\<lambda>kv. list_all scalar (fst kv) \<and> json_fits d (snd kv)) kvs"
      and "distinct (map fst kvs)" using Suc.prems by simp_all
    then show ?thesis using JObj Suc.IH scan_once_obj [of kvs "parse_value d" d r]
      by (simp add: list_all_iff)
  qed (use Suc.prems in \<open>simp_all add: scan_leaf\<close>)
qed

text \<open>What is parsed within a depth is parsed the same within a greater one.\<close>

lemma arr_elems_mono:
  assumes "\<And>t x. p t = Some x \<Longrightarrow> q t = Some x" "arr_elems p n s = Some y"
  shows "arr_elems q n s = Some y"
  using assms(2)
proof (induction n arbitrary: s y)
  case (Suc n)
  then show ?case by (auto simp: push_def assms(1) split: option.splits list.splits if_splits)
qed simp

lemma obj_members_mono:
  assumes "\<And>t x. p t = Some x \<Longrightarrow> q t = Some x" "obj_members p n s = Some y"
  shows "obj_members q n s = Some y"
  using assms(2)
proof (induction n arbitrary: s y)
  case (Suc n)
  then show ?case by (auto simp: push_def assms(1) split: option.splits list.splits if_splits)
qed simp

lemma scan_once_mono:
  assumes "\<And>p t x. nested = Some p \<Longrightarrow> p t = Some x \<Longrightarrow> q t = Some x" "scan_once nested s = Some y"
  shows "scan_once (Some q) s = Some y"
proof (cases nested)
  case None
  then show ?thesis using assms(2) by (auto simp: scan_once_def split: list.splits if_splits)
next
  case (Some p)
  then have "arr_elems p n t = Some z \<Longrightarrow> arr_elems q n t = Some z"
    "obj_members p n t = Some w \<Longrightarrow> obj_members q n t = Some w" for n t z w
    using assms(1) arr_elems_mono [of p q] obj_members_mono [of p q] by blast+
  then show ?thesis
    using assms(2) Some by (auto simp: scan_once_def Let_def split: list.splits if_splits)
qed

lemma parse_value_mono: "parse_value d s = Some x \<Longrightarrow> parse_value (d + k) s = Some x"
proof (induction d arbitrary: s x)
  case 0
  then show ?case by (cases k) (auto intro: scan_once_mono [of None])
next
  case (Suc d)
  then show ?case by (auto intro: scan_once_mono [of "Some (parse_value d)"])
qed

lemma json_loads_mono:
  assumes "json_loads d s = Some j" "d \<le> d'"
  shows "json_loads d' s = Some j"
proof -
  obtain k where "d' = d + k" using assms(2) le_Suc_ex by blast
  moreover have "parse_value (d + k) t = Some x" if "parse_value d t = Some x" for t x
    by (rule parse_value_mono [OF that])
  ultimately show ?thesis using assms(1) by (auto simp: json_loads_def split: option.splits if_splits)
qed

theorem json_loads_dumps:
  assumes "json_fits d j"
  shows "json_loads d (json_dumps j) = Some j"
  using parse_value_dumps [OF assms, of "[]"] dumps_head [OF assms, of "[]"]
  by (simp add: json_loads_def)

corollary json_dumps_inject:
  "json_fits d i \<Longrightarrow> json_fits d j \<Longrightarrow> json_dumps i = json_dumps j \<Longrightarrow> i = j"
  using json_loads_dumps by (metis option.inject)

subsection \<open>The printed text is ASCII\<close>

lemma isascii_simps [simp]:
  "isascii []" "isascii (c # s) \<longleftrightarrow> c < 128 \<and> isascii s" "isascii (s @ t) \<longleftrightarrow> isascii s \<and> isascii t"
  by (simp_all add: isascii_def)

lemma isascii_concat: "(\<And>w. w \<in> set ws \<Longrightarrow> isascii w) \<Longrightarrow> isascii (concat ws)"
  by (induction ws) auto

lemma isascii_join_with: "c < 128 \<Longrightarrow> (\<And>w. w \<in> set ws \<Longrightarrow> isascii w) \<Longrightarrow> isascii (join_with c ws)"
  by (induction ws rule: induct_list012) auto

lemma hex_char_ascii [simp]: "n < 16 \<Longrightarrow> hex_char n < 128"
  by (simp add: hex_char_def)

lemma escape_char_ascii: "scalar c \<Longrightarrow> isascii (escape_char c)"
proof -
  assume "scalar c"
  then have c: "c < 1114112" by (auto simp: scalar_def)
  have u: "isascii (u_escape d)" if "d < 65536" for d
  proof -
    have "d div 4096 < 16" using that by auto
    then show ?thesis by (simp add: u_escape_def)
  qed
  have "isascii (u_escape (55296 + (c - 65536) div 1024))" using c by (intro u) auto
  moreover have "isascii (u_escape (56320 + (c - 65536) mod 1024))"
    by (intro u) (use mod_less_divisor [of 1024 "c - 65536"] in linarith)
  ultimately show ?thesis by (simp add: escape_char_def u)
qed

lemma dumps_str_ascii: "list_all scalar s \<Longrightarrow> isascii (dumps_str s)"
  by (auto simp: dumps_str_def list_all_iff intro!: isascii_concat escape_char_ascii)

lemma str_int_ascii: "isascii (str_int i)"
  by (simp add: str_int_def)

lemma json_dumps_ascii: "json_fits d j \<Longrightarrow> isascii (json_dumps j)"
proof (induction d j rule: json_fits.induct)
  case (7 d xs)
  then show ?case by (auto simp: list_all_iff intro!: isascii_join_with)
next
  case (9 d kvs)
  then show ?case
    by (auto simp: list_all_iff dumps_str_ascii intro!: isascii_join_with)
qed (auto simp: lit_def dumps_str_ascii str_int_ascii)

lemma isascii_scalar: "isascii s \<Longrightarrow> list_all scalar s"
  by (auto simp: isascii_def list_all_iff scalar_def)

end
