(* ===== verification/Errors.thy ===== *)
theory Errors
  imports Json
begin

text \<open>
  \<open>app/core/exceptions.py\<close>: the exceptions the program raises and catches, the
  application error \<open>AppError\<close>, the error envelope, and the two exception handlers
  that turn an exception into an HTTP response. The subclass relations that the
  \<open>except\<close> clauses rely on are the \<open>is_\<close> predicates.
\<close>

section \<open>Exceptions\<close>

datatype exn =
  OSError
| TimeoutError \<comment> \<open>the built-in one, a subclass of \<open>OSError\<close>\<close>
| RedisConnectionError
| RedisTimeoutError
| ResponseError
| OtherRedisError
| SQLAlchemyError
| InterfaceError
| PostgresError
| UnicodeDecodeError
| UnicodeEncodeError
| ValueError pystr
| AttributeError
| RuntimeError pystr
| HTTPException nat "(pystr \<times> pystr) list option" \<comment> \<open>status and headers\<close>
| AppError nat pystr pystr \<comment> \<open>status, code, message\<close>
| RequestValidationError
| ValidationError "(pystr list \<times> pystr) list" \<comment> \<open>locations and messages\<close>
| ClerkBaseError int
| InvalidApiKeyError
| AuthUnavailableError
| SnapshotLoadError pystr
| ConfigurationError
| CacheInvalidationError
| OtherException pystr \<comment> \<open>any other class, by name\<close>

definition is_OSError :: "exn \<Rightarrow> bool" where
  "is_OSError e \<longleftrightarrow> e \<in> {OSError, TimeoutError}"

definition is_RedisError :: "exn \<Rightarrow> bool" where
  "is_RedisError e \<longleftrightarrow>
     e \<in> {RedisConnectionError, RedisTimeoutError, ResponseError, OtherRedisError}"

definition is_UnicodeError :: "exn \<Rightarrow> bool" where
  "is_UnicodeError e \<longleftrightarrow> e \<in> {UnicodeDecodeError, UnicodeEncodeError}"

fun is_ValueError :: "exn \<Rightarrow> bool" where
  "is_ValueError (ValueError _) = True"
| "is_ValueError UnicodeDecodeError = True"
| "is_ValueError UnicodeEncodeError = True"
| "is_ValueError (ValidationError _) = True"
| "is_ValueError (SnapshotLoadError _) = True"
| "is_ValueError _ = False"

fun is_HTTPException :: "exn \<Rightarrow> bool" where
  "is_HTTPException (HTTPException _ _) = True"
| "is_HTTPException (AppError _ _ _) = True"
| "is_HTTPException _ = False"

text \<open>\<open>type(exception).__name__\<close>, for the log records.\<close>

fun type_name :: "exn \<Rightarrow> pystr" where
  "type_name OSError = lit ''OSError''"
| "type_name TimeoutError = lit ''TimeoutError''"
| "type_name RedisConnectionError = lit ''ConnectionError''"
| "type_name RedisTimeoutError = lit ''TimeoutError''"
| "type_name ResponseError = lit ''ResponseError''"
| "type_name OtherRedisError = lit ''RedisError''"
| "type_name SQLAlchemyError = lit ''SQLAlchemyError''"
| "type_name InterfaceError = lit ''InterfaceError''"
| "type_name PostgresError = lit ''PostgresError''"
| "type_name UnicodeDecodeError = lit ''UnicodeDecodeError''"
| "type_name UnicodeEncodeError = lit ''UnicodeEncodeError''"
| "type_name (ValueError _) = lit ''ValueError''"
| "type_name AttributeError = lit ''AttributeError''"
| "type_name (RuntimeError _) = lit ''RuntimeError''"
| "type_name (HTTPException _ _) = lit ''HTTPException''"
| "type_name (AppError _ _ _) = lit ''AppError''"
| "type_name RequestValidationError = lit ''RequestValidationError''"
| "type_name (ValidationError _) = lit ''ValidationError''"
| "type_name (ClerkBaseError _) = lit ''ClerkBaseError''"
| "type_name InvalidApiKeyError = lit ''InvalidApiKeyError''"
| "type_name AuthUnavailableError = lit ''AuthUnavailableError''"
| "type_name (SnapshotLoadError _) = lit ''SnapshotLoadError''"
| "type_name ConfigurationError = lit ''ConfigurationError''"
| "type_name CacheInvalidationError = lit ''CacheInvalidationError''"
| "type_name (OtherException n) = n"

section \<open>Responses and the error envelope\<close>

record response =
  status_code :: nat
  content :: json
  headers :: "(pystr \<times> pystr) list"

record error_detail =
  ed_code :: pystr
  ed_message :: pystr

definition error_detail_json :: "error_detail \<Rightarrow> json" where
  "error_detail_json d =
     JObj [(lit ''code'', JStr (ed_code d)), (lit ''message'', JStr (ed_message d))]"

definition error_response_json :: "error_detail \<Rightarrow> json" where
  "error_response_json d = JObj [(lit ''error'', error_detail_json d)]"

definition json_response :: "nat \<Rightarrow> json \<Rightarrow> response" where
  "json_response st c = \<lparr>status_code = st, content = c, headers = []\<rparr>"

definition error_response :: "nat \<Rightarrow> pystr \<Rightarrow> pystr \<Rightarrow> response" where
  "error_response st code msg =
     json_response st (error_response_json \<lparr>ed_code = code, ed_message = msg\<rparr>)"

definition SERVICE_UNAVAILABLE :: exn where
  "SERVICE_UNAVAILABLE =
     AppError 503 (lit ''SERVICE_UNAVAILABLE'') (lit ''A required service is unavailable'')"

section \<open>Handlers\<close>

definition http_exception_handler :: "exn \<Rightarrow> exn + response" where
  "http_exception_handler e =
     (case e of
        AppError st code msg \<Rightarrow> Inr (error_response st code msg)
      | HTTPException st hs \<Rightarrow>
          (let (code, msg) =
             (if st = 404 then (lit ''NOT_FOUND'', lit ''Resource not found'')
              else (lit ''HTTP_'' @ str_nat st, lit ''Request failed''))
           in Inr ((error_response st code msg)\<lparr>headers := (case hs of None \<Rightarrow> [] | Some h \<Rightarrow> h)\<rparr>))
      | _ \<Rightarrow> Inl e)"

definition validation_exception_handler :: "exn \<Rightarrow> response" where
  "validation_exception_handler _ =
     error_response 422 (lit ''VALIDATION_ERROR'') (lit ''Request validation failed'')"

text \<open>\<open>register_exception_handlers\<close>: the handlers the application installs, chosen by the
  class of the exception; anything else propagates to the middleware.\<close>

definition handle_exception :: "exn \<Rightarrow> exn + response" where
  "handle_exception e =
     (if is_HTTPException e then http_exception_handler e
      else if e = RequestValidationError then Inr (validation_exception_handler e)
      else Inl e)"

definition error_code_of :: "response \<Rightarrow> pystr option" where
  "error_code_of r =
     (case content r of
        JObj [(_, JObj ((_, JStr code) # _))] \<Rightarrow> Some code
      | _ \<Rightarrow> None)"

lemma error_response_simps [simp]:
  "status_code (error_response st c m) = st"
  "headers (error_response st c m) = []"
  "error_code_of (error_response st c m) = Some c"
  by (simp_all add: error_response_def json_response_def error_response_json_def
      error_detail_json_def error_code_of_def)

lemma handle_AppError [simp]: "handle_exception (AppError st c m) = Inr (error_response st c m)"
  by (simp add: handle_exception_def http_exception_handler_def)

text \<open>Every HTTP exception is answered with its own status and the error envelope.\<close>

lemma handle_exception_status:
  "is_HTTPException e \<Longrightarrow>
   \<exists>r. handle_exception e = Inr r \<and>
       status_code r = (case e of AppError st _ _ \<Rightarrow> st | HTTPException st _ \<Rightarrow> st | _ \<Rightarrow> 0) \<and>
       error_code_of r \<noteq> None"
  by (cases e)
     (auto simp: handle_exception_def http_exception_handler_def error_response_def json_response_def
       error_response_json_def error_detail_json_def error_code_of_def)

end
