(* ===== verification/Catalog.thy ===== *)
theory Catalog
  imports Errors
begin

text \<open>
  The persistent state: the tables \<open>items\<close> (\<open>app/items/models.py\<close>) and
  \<open>dataset_metadata\<close> (\<open>app/meta/models.py\<close>), with the constraints that PostgreSQL
  enforces on them. Timestamps are integers (microseconds, UTC).
\<close>

type_synonym datetime = int

record item_row =
  it_id :: int
  it_game_id :: int
  it_name :: pystr
  it_description :: pystr
  it_quality :: "int option"
  it_item_type :: "pystr option"
  it_recharge_time :: "pystr option"
  it_image_url :: pystr
  it_introduced_in_version :: "pystr option"
  it_created_at :: datetime
  it_updated_at :: datetime

record metadata_row =
  md_id :: int
  md_dataset_version :: pystr
  md_game_version :: "pystr option"
  md_last_sync :: datetime

record database =
  items_table :: "item_row list"
  metadata_table :: "metadata_row list"
  items_id_seq :: int \<comment> \<open>the next value of the sequence behind \<open>items.id\<close>\<close>

section \<open>Column types\<close>

text \<open>What a PostgreSQL column holds and the driver binds: a signed 32-bit \<open>INTEGER\<close>, a
  64-bit \<open>BIGINT\<close> (the parameters of \<open>LIMIT\<close> and \<open>OFFSET\<close>), and \<open>TEXT\<close>, which is UTF-8
  without the character U+0000.\<close>

definition int4 :: "int \<Rightarrow> bool" where
  "int4 i \<longleftrightarrow> -2147483648 \<le> i \<and> i \<le> 2147483647"

definition int8 :: "int \<Rightarrow> bool" where
  "int8 i \<longleftrightarrow> -9223372036854775808 \<le> i \<and> i \<le> 9223372036854775807"

definition pg_text :: "pystr \<Rightarrow> bool" where
  "pg_text s \<longleftrightarrow> list_all scalar s \<and> 0 \<notin> set s"

definition nullable :: "('a \<Rightarrow> bool) \<Rightarrow> 'a option \<Rightarrow> bool" where
  "nullable P x = (case x of None \<Rightarrow> True | Some a \<Rightarrow> P a)"

lemma nullable_simps [simp]: "nullable P None" "nullable P (Some a) = P a"
  by (simp_all add: nullable_def)

lemma nullable_mono: "nullable P x \<Longrightarrow> (\<And>a. P a \<Longrightarrow> Q a) \<Longrightarrow> nullable Q x"
  by (cases x) simp_all

text \<open>\<open>btrim\<close> removes spaces from both ends.\<close>

definition btrim :: "pystr \<Rightarrow> pystr" where
  "btrim s = strip_by (\<lambda>c. c = 32) s"

lemma btrim_eq_Nil_iff: "btrim s = [] \<longleftrightarrow> list_all (\<lambda>c. c = 32) s"
  by (simp only: btrim_def strip_by_eq_Nil_iff)

section \<open>Constraints\<close>

text \<open>\<open>CheckConstraint("quality BETWEEN 0 AND 4")\<close>: a NULL passes.\<close>

definition item_row_ok :: "item_row \<Rightarrow> bool" where
  "item_row_ok r \<longleftrightarrow>
     int4 (it_game_id r) \<and> pg_text (it_name r) \<and> pg_text (it_description r) \<and>
     nullable (\<lambda>q. 0 \<le> q \<and> q \<le> 4) (it_quality r) \<and> nullable pg_text (it_item_type r) \<and>
     nullable pg_text (it_recharge_time r) \<and> pg_text (it_image_url r) \<and>
     nullable pg_text (it_introduced_in_version r)"

definition metadata_row_ok :: "metadata_row \<Rightarrow> bool" where
  "metadata_row_ok m \<longleftrightarrow>
     md_id m = 1 \<and> pg_text (md_dataset_version m) \<and> btrim (md_dataset_version m) \<noteq> [] \<and>
     nullable (\<lambda>v. pg_text v \<and> btrim v \<noteq> []) (md_game_version m)"

text \<open>The integrity of the database: row constraints, the unique \<open>game_id\<close>, the primary
  keys, and a sequence ahead of every identifier it has given out.\<close>

definition db_ok :: "database \<Rightarrow> bool" where
  "db_ok db \<longleftrightarrow>
     list_all item_row_ok (items_table db) \<and> distinct (map it_game_id (items_table db)) \<and>
     distinct (map it_id (items_table db)) \<and>
     list_all (\<lambda>r. it_id r < items_id_seq db) (items_table db) \<and>
     list_all metadata_row_ok (metadata_table db) \<and> distinct (map md_id (metadata_table db))"

definition empty_database :: database where
  "empty_database = \<lparr>items_table = [], metadata_table = [], items_id_seq = 1\<rparr>"

lemma db_ok_empty [simp]: "db_ok empty_database"
  by (simp add: db_ok_def empty_database_def)

text \<open>The primary key and \<open>CHECK (id = 1)\<close> make \<open>dataset_metadata\<close> a singleton.\<close>

lemma metadata_singleton:
  assumes "db_ok db"
  shows "metadata_table db = [] \<or> (\<exists>m. metadata_table db = [m] \<and> md_id m = 1)"
proof (cases "metadata_table db")
  case (Cons m ms)
  then have "ms = []" using assms
    by (cases ms) (auto simp: db_ok_def metadata_row_ok_def)
  then show ?thesis using Cons assms by (simp add: db_ok_def metadata_row_ok_def)
qed simp

end
