(* ===== verification/World.thy ===== *)
theory World
  imports Catalog
begin

text \<open>
  The world a coroutine of the program runs in: the Redis server, the PostgreSQL
  database, the log, and the part of the environment that is not under the
  program's control, given as explicit schedules. Each Redis command and each
  SQL statement consumes one event of its schedule, which says what other
  clients did before it and whether the call fails (and, for Redis, whether the
  server had already executed the command when the reply was lost; a lost \<open>COMMIT\<close>
  has the same two outcomes). When a
  schedule is empty nothing interferes and nothing fails. Every theorem holds
  for every schedule unless it says otherwise.
\<close>

section \<open>Log records\<close>

record log_entry =
  le_logger :: pystr
  le_level :: pystr
  le_event :: pystr
  le_extra :: "(pystr \<times> json) list"

section \<open>The Redis server\<close>

text \<open>A key holds a byte string and, optionally, the seconds to live of its last
  \<open>SET ... EX\<close>.\<close>

type_synonym redis_store = "pystr \<rightharpoonup> pybytes \<times> int option"

definition redis_bytes :: "redis_store \<Rightarrow> pystr \<Rightarrow> pybytes" where
  "redis_bytes st k = (case st k of None \<Rightarrow> [] | Some (b, _) \<Rightarrow> b)"

text \<open>\<open>GETRANGE key start end\<close> for non-negative bounds: both are inclusive, and a missing
  key reads as the empty string.\<close>

definition redis_getrange :: "pystr \<Rightarrow> nat \<Rightarrow> nat \<Rightarrow> redis_store \<Rightarrow> (exn + pybytes) \<times> redis_store" where
  "redis_getrange k st en store = (Inr (drop st (take (Suc en) (redis_bytes store k))), store)"

text \<open>\<open>SET key value [EX seconds] [NX]\<close>; the reply says whether the value was set.\<close>

definition redis_set ::
  "pystr \<Rightarrow> pystr \<Rightarrow> int option \<Rightarrow> bool \<Rightarrow> redis_store \<Rightarrow> (exn + bool) \<times> redis_store" where
  "redis_set k v ex nx store =
     (case utf8_encode v of
        None \<Rightarrow> (Inl UnicodeEncodeError, store)
      | Some b \<Rightarrow>
          if nx \<and> k \<in> dom store then (Inr False, store)
          else (Inr True, store(k \<mapsto> (b, ex))))"

text \<open>\<open>INCR key\<close>: a missing key counts from 0; the value must be a canonical decimal of
  a signed 64-bit integer and the sum must fit one; the expiry is kept.\<close>

definition canonical_int :: "pybytes \<Rightarrow> int option" where
  "canonical_int b =
     (let neg = (case b of c # _ \<Rightarrow> c = 45 | [] \<Rightarrow> False); ds = (if neg then drop 1 b else b);
          n = int (int_of_digits ds); i = (if neg then - n else n)
      in if isdigit ds \<and> (hd ds \<noteq> 48 \<or> ds = [48] \<and> \<not> neg) \<and> length ds \<le> 19 \<and> int8 i
         then Some i else None)"

definition redis_incr :: "pystr \<Rightarrow> redis_store \<Rightarrow> (exn + int) \<times> redis_store" where
  "redis_incr k store =
     (case store k of
        None \<Rightarrow> (Inr 1, store(k \<mapsto> (str_int 1, None)))
      | Some (b, ttl) \<Rightarrow>
          (case canonical_int b of
             None \<Rightarrow> (Inl ResponseError, store)
           | Some i \<Rightarrow>
               if int8 (i + 1) then (Inr (i + 1), store(k \<mapsto> (str_int (i + 1), ttl)))
               else (Inl ResponseError, store)))"

section \<open>Schedules and the world\<close>

record redis_event =
  re_others :: "redis_store \<Rightarrow> redis_store" \<comment> \<open>commands of other clients, expiry, eviction\<close>
  re_fault :: "exn option"
  re_executed :: bool

record db_event =
  de_others :: "database \<Rightarrow> database" \<comment> \<open>transactions of other clients committed meanwhile\<close>
  de_fault :: "exn option"
  de_executed :: bool \<comment> \<open>for a \<open>COMMIT\<close> whose acknowledgement is lost\<close>
  de_choice :: nat \<comment> \<open>what \<open>ORDER BY random()\<close> draws, and in which order a statement meets the rows\<close>

record world =
  redis :: redis_store
  database :: database
  redis_events :: "redis_event list"
  db_events :: "db_event list"
  entropy :: "nat list" \<comment> \<open>the values of \<open>secrets.randbelow\<close> before reduction\<close>
  logs :: "log_entry list"

type_synonym 'a prog = "(world, exn, 'a) io"

definition log_entry_of :: "pystr \<Rightarrow> pystr \<Rightarrow> pystr \<Rightarrow> (pystr \<times> json) list \<Rightarrow> log_entry" where
  "log_entry_of lg lv ev ex = \<lparr>le_logger = lg, le_level = lv, le_event = ev, le_extra = ex\<rparr>"

definition emit :: "log_entry \<Rightarrow> unit prog" where
  "emit l = modifyM (\<lambda>w. w\<lparr>logs := logs w @ [l]\<rparr>)"

section \<open>Calls to the services\<close>

definition redis_call :: "(redis_store \<Rightarrow> (exn + 'a) \<times> redis_store) \<Rightarrow> 'a prog" where
  "redis_call cmd w =
     (case redis_events w of
        [] \<Rightarrow> (case cmd (redis w) of (r, st) \<Rightarrow> (r, w\<lparr>redis := st\<rparr>))
      | e # es \<Rightarrow>
          (let st0 = re_others e (redis w) in
           case cmd st0 of (r, st1) \<Rightarrow>
             (case re_fault e of
                None \<Rightarrow> (r, w\<lparr>redis := st1, redis_events := es\<rparr>)
              | Some x \<Rightarrow>
                  (Inl x, w\<lparr>redis := (if re_executed e then st1 else st0), redis_events := es\<rparr>))))"

definition db_call :: "(nat \<Rightarrow> database \<Rightarrow> (exn + 'a) \<times> database) \<Rightarrow> 'a prog" where
  "db_call stmt w =
     (case db_events w of
        [] \<Rightarrow> (case stmt 0 (database w) of (r, db) \<Rightarrow> (r, w\<lparr>database := db\<rparr>))
      | e # es \<Rightarrow>
          (let db0 = de_others e (database w) in
           case de_fault e of
             Some x \<Rightarrow> (Inl x, w\<lparr>database := db0, db_events := es\<rparr>)
           | None \<Rightarrow>
               (case stmt (de_choice e) db0 of (r, db1) \<Rightarrow>
                  (r, w\<lparr>database := db1, db_events := es\<rparr>))))"

text \<open>Randomness: a computation that consumes the entropy of the process, and
  \<open>secrets.randbelow(n)\<close>.\<close>

definition with_entropy :: "(nat list \<Rightarrow> (exn + 'a) \<times> nat list) \<Rightarrow> 'a prog" where
  "with_entropy f w = (case f (entropy w) of (r, es) \<Rightarrow> (r, w\<lparr>entropy := es\<rparr>))"

definition randbelow :: "nat \<Rightarrow> nat list \<Rightarrow> nat \<times> nat list" where
  "randbelow n es = (case es of [] \<Rightarrow> (0, []) | e # es' \<Rightarrow> (e mod n, es'))"

text \<open>What a call leaves alone.\<close>

lemma frame_redis_call [frame_intros]:
  "frame database (redis_call cmd)" "frame db_events (redis_call cmd)"
  "frame logs (redis_call cmd)" "frame entropy (redis_call cmd)"
  by (auto simp: frame_def redis_call_def Let_def split: list.split prod.split option.split)

lemma frame_db_call [frame_intros]:
  "frame redis (db_call st)" "frame redis_events (db_call st)"
  "frame logs (db_call st)" "frame entropy (db_call st)"
  by (auto simp: frame_def db_call_def Let_def split: list.split prod.split option.split)

lemma frame_emit [frame_intros]:
  "frame redis (emit l)" "frame database (emit l)" "frame redis_events (emit l)"
  "frame db_events (emit l)" "frame entropy (emit l)"
  by (simp_all add: frame_def emit_def)

lemma frame_with_entropy [frame_intros]:
  "frame redis (with_entropy f)" "frame database (with_entropy f)"
  "frame redis_events (with_entropy f)" "frame db_events (with_entropy f)"
  "frame logs (with_entropy f)"
  by (auto simp: frame_def with_entropy_def split: prod.split)

lemma randbelow_less: "0 < n \<Longrightarrow> fst (randbelow n es) < n"
  by (simp add: randbelow_def split: list.split)

text \<open>A world without interference or faults ahead.\<close>

definition calm :: "world \<Rightarrow> bool" where
  "calm w \<longleftrightarrow> redis_events w = [] \<and> db_events w = []"

lemma redis_call_calm [io_simps]:
  "redis_events w = [] \<Longrightarrow>
   redis_call cmd w = (case cmd (redis w) of (r, st) \<Rightarrow> (r, w\<lparr>redis := st\<rparr>))"
  by (simp add: redis_call_def)

lemma db_call_calm [io_simps]:
  "db_events w = [] \<Longrightarrow>
   db_call stmt w = (case stmt 0 (database w) of (r, db) \<Rightarrow> (r, w\<lparr>database := db\<rparr>))"
  by (simp add: db_call_def)

text \<open>A read-only statement changes the database only by what other clients commit
  before it, so a predicate that those transactions respect is kept.\<close>

definition reads_only :: "(nat \<Rightarrow> database \<Rightarrow> (exn + 'a) \<times> database) \<Rightarrow> bool" where
  "reads_only stmt \<longleftrightarrow> (\<forall>n db. snd (stmt n db) = db)"

definition db_rely :: "(database \<Rightarrow> bool) \<Rightarrow> world \<Rightarrow> bool" where
  "db_rely P w \<longleftrightarrow>
     P (database w) \<and> list_all (\<lambda>e. \<forall>db. P db \<longrightarrow> P (de_others e db)) (db_events w)"

lemma db_call_rely:
  assumes "reads_only stmt"
  shows "keeps (db_rely P) (db_call stmt)"
  unfolding keeps_def
proof (intro allI impI)
  fix w
  assume rely: "db_rely P w"
  have same: "d = db" if "stmt n db = (r, d)" for n db r d
    using assms that unfolding reads_only_def by (metis snd_conv)
  show "db_rely P (final (db_call stmt) w)"
    using rely
    by (cases "db_events w")
       (auto simp: db_rely_def db_call_def Let_def split: option.split prod.split dest!: same)
qed

text \<open>The same for Redis: a command that respects a predicate on the store keeps it when
  the other clients respect it too.\<close>

definition redis_rely :: "(redis_store \<Rightarrow> bool) \<Rightarrow> world \<Rightarrow> bool" where
  "redis_rely P w \<longleftrightarrow>
     P (redis w) \<and> list_all (\<lambda>e. \<forall>st. P st \<longrightarrow> P (re_others e st)) (redis_events w)"

lemma redis_rely_redis: "redis_rely P w \<Longrightarrow> P (redis w)"
  by (simp add: redis_rely_def)

lemma redis_call_rely [keeps_intros]:
  assumes "\<And>st. P st \<Longrightarrow> P (snd (cmd st))"
  shows "keeps (redis_rely P) (redis_call cmd)"
  unfolding keeps_def
proof (intro allI impI)
  fix w
  assume rely: "redis_rely P w"
  have step: "P st'" if "cmd st = (r, st')" "P st" for st r st'
    using assms [of st] that by simp
  show "redis_rely P (final (redis_call cmd) w)"
    using rely
    by (cases "redis_events w")
       (auto simp: redis_rely_def redis_call_def Let_def split: option.split prod.split dest: step)
qed

lemma redis_rely_frame [keeps_intros]:
  "keeps (redis_rely P) (emit l)" "keeps (redis_rely P) (db_call st)"
  "keeps (redis_rely P) (with_entropy f)"
  by (auto simp: keeps_def redis_rely_def emit_def db_call_def with_entropy_def Let_def
      split: list.split option.split prod.split)

text \<open>A coroutine whose outcome depends on the database and its schedule only.\<close>

definition db_only :: "'a prog \<Rightarrow> bool" where
  "db_only m \<longleftrightarrow>
     (\<forall>w w'. database w = database w' \<longrightarrow> db_events w = db_events w' \<longrightarrow>
        result m w = result m w' \<and> database (final m w) = database (final m w') \<and>
        db_events (final m w) = db_events (final m w'))"

named_theorems db_only_intros \<open>introduction rules for the judgement db_only\<close>

lemma db_only_run [db_only_intros]:
  "db_only (ret a)" "db_only (raise e)" "db_only (liftM r)"
  by (simp_all add: db_only_def)

lemma db_only_outcome:
  fixes w w' :: world
  assumes "db_only m" "database w = database w'" "db_events w = db_events w'"
  shows "result m w = result m w' \<and> database (final m w) = database (final m w') \<and>
    db_events (final m w) = db_events (final m w')"
  using assms unfolding db_only_def by blast

lemma db_only_db_call [db_only_intros]: "db_only (db_call stmt)"
  unfolding db_only_def
proof (intro allI impI)
  fix w w' :: world
  assume "database w = database w'" "db_events w = db_events w'"
  then have "database w' = database w" "db_events w' = db_events w" by simp_all
  then show "result (db_call stmt) w = result (db_call stmt) w' \<and>
      database (final (db_call stmt) w) = database (final (db_call stmt) w') \<and>
      db_events (final (db_call stmt) w) = db_events (final (db_call stmt) w')"
    by (cases "db_events w") (simp_all add: db_call_def Let_def split: option.split prod.split)
qed

lemma db_only_step:
  fixes w w' :: world
  assumes "db_only m" "database w = database w'" "db_events w = db_events w'" "m w = (r, v)"
  obtains v' where "m w' = (r, v')" "database v = database v'" "db_events v = db_events v'"
proof -
  obtain r' v' where run: "m w' = (r', v')" by fastforce
  have "result m w = result m w' \<and> database (final m w) = database (final m w') \<and>
      db_events (final m w) = db_events (final m w')"
    by (rule db_only_outcome [OF assms(1-3)])
  then show thesis using that [of v'] run assms(4) by simp
qed

lemma db_only_bindM [db_only_intros]:
  assumes m: "db_only m" and f: "\<And>a. db_only (f a)"
  shows "db_only (bindM m f)"
  unfolding db_only_def
proof (intro allI impI)
  fix w w' :: world
  assume same: "database w = database w'" "db_events w = db_events w'"
  obtain r v where run: "m w = (r, v)" by fastforce
  obtain v' where run': "m w' = (r, v')" "database v = database v'" "db_events v = db_events v'"
    by (rule db_only_step [OF m same run])
  have f_same: "result (f a) v = result (f a) v' \<and> database (final (f a) v) = database (final (f a) v') \<and>
      db_events (final (f a) v) = db_events (final (f a) v')" for a
    by (rule db_only_outcome [OF f run'(2,3)])
  show "result (bindM m f) w = result (bindM m f) w' \<and>
      database (final (bindM m f) w) = database (final (bindM m f) w') \<and>
      db_events (final (bindM m f) w) = db_events (final (bindM m f) w')"
    using run run' f_same by (cases r) (simp_all add: bindM_def)
qed

lemma db_only_catchM [db_only_intros]:
  assumes m: "db_only m" and h: "\<And>e k. h e = Some k \<Longrightarrow> db_only k"
  shows "db_only (catchM m h)"
  unfolding db_only_def
proof (intro allI impI)
  fix w w' :: world
  assume same: "database w = database w'" "db_events w = db_events w'"
  obtain r v where run: "m w = (r, v)" by fastforce
  obtain v' where run': "m w' = (r, v')" "database v = database v'" "db_events v = db_events v'"
    by (rule db_only_step [OF m same run])
  have h_same: "result k v = result k v' \<and> database (final k v) = database (final k v') \<and>
      db_events (final k v) = db_events (final k v')" if "h e = Some k" for e k
    by (rule db_only_outcome [OF h [OF that] run'(2,3)])
  show "result (catchM m h) w = result (catchM m h) w' \<and>
      database (final (catchM m h) w) = database (final (catchM m h) w') \<and>
      db_events (final (catchM m h) w) = db_events (final (catchM m h) w')"
    using run run' h_same by (cases r) (auto simp: catchM_def split: option.split)
qed

text \<open>Which exceptions the schedules can inject.\<close>

definition redis_faults :: "(exn \<Rightarrow> bool) \<Rightarrow> world \<Rightarrow> bool" where
  "redis_faults P w \<longleftrightarrow> list_all (\<lambda>e. nullable P (re_fault e)) (redis_events w)"

definition db_faults :: "(exn \<Rightarrow> bool) \<Rightarrow> world \<Rightarrow> bool" where
  "db_faults P w \<longleftrightarrow> list_all (\<lambda>e. nullable P (de_fault e)) (db_events w)"

lemma redis_call_safe:
  assumes "\<And>st e. fst (cmd st) = Inl e \<Longrightarrow> P e"
  shows "safe (redis_faults P) P (redis_call cmd)"
  unfolding safe_def
proof (intro allI impI)
  fix w
  assume "redis_faults P w"
  moreover have "P e" if "cmd st = (Inl e, st')" for st e st'
    using assms [of st e] that by simp
  ultimately show "redis_faults P (final (redis_call cmd) w) \<and>
      (\<forall>e. result (redis_call cmd) w = Inl e \<longrightarrow> P e)"
    by (cases "redis_events w")
       (auto simp: redis_faults_def redis_call_def Let_def split: option.splits prod.splits)
qed

lemma db_call_safe:
  assumes "\<And>n db e. fst (stmt n db) = Inl e \<Longrightarrow> P e"
  shows "safe (db_faults P) P (db_call stmt)"
  unfolding safe_def
proof (intro allI impI)
  fix w
  assume "db_faults P w"
  moreover have "P e" if "stmt n db = (Inl e, db')" for n db e db'
    using assms [of n db e] that by simp
  ultimately show "db_faults P (final (db_call stmt) w) \<and>
      (\<forall>e. result (db_call stmt) w = Inl e \<longrightarrow> P e)"
    by (cases "db_events w")
       (auto simp: db_faults_def db_call_def Let_def split: option.splits prod.splits)
qed

lemma faults_frame [safe_intros]:
  "safe (redis_faults P) Q (emit l)" "safe (db_faults P) Q (emit l)"
  "(\<And>es e. fst (f es) = Inl e \<Longrightarrow> Q e) \<Longrightarrow> safe (redis_faults P) Q (with_entropy f)"
  by (auto simp: safe_def redis_faults_def db_faults_def emit_def with_entropy_def split: prod.splits)
     (metis fst_conv)

end
