(* ===== verification/ItemsSchemas.thy ===== *)
theory ItemsSchemas
  imports Catalog
begin

text \<open>
  \<open>app/items/schemas.py\<close>: the public schemas of the items API, with their camelCase
  aliases and constraints, and what Pydantic's \<open>model_dump\<close> and \<open>model_validate\<close>
  make of them. The schema part (fields, aliases, which are required, which are
  nullable) is translated here. Pydantic itself is a parameter, the record
  \<open>pydantic\<close>: its JSON printer and parser, its coercion of JSON values to \<open>int\<close>, and
  its ISO form of a \<open>datetime\<close>; \<open>pydantic_ok\<close> states the documented behaviour the
  cache relies on, on values of bounded depth.
\<close>

section \<open>Pydantic\<close>

record pydantic =
  pd_to_json :: "json \<Rightarrow> pystr"
  pd_from_json :: "pystr \<Rightarrow> json option"
  pd_lax_int :: "json \<Rightarrow> int option"
  pd_dump_datetime :: "datetime \<Rightarrow> pystr"
  pd_lax_datetime :: "json \<Rightarrow> datetime option"

text \<open>The deepest payload is a list envelope: envelope, response, \<open>items\<close>, item.\<close>

definition payload_depth :: nat where
  "payload_depth = 4"

definition pydantic_ok :: "pydantic \<Rightarrow> bool" where
  "pydantic_ok pd \<longleftrightarrow>
     (\<forall>j. json_fits payload_depth j \<longrightarrow> pd_from_json pd (pd_to_json pd j) = Some j) \<and>
     (\<forall>j. json_fits payload_depth j \<longrightarrow> json_loads payload_depth (pd_to_json pd j) = Some j) \<and>
     (\<forall>j. json_fits payload_depth j \<longrightarrow> list_all scalar (pd_to_json pd j)) \<and>
     pd_from_json pd [] = None \<and>
     (\<forall>i. pd_lax_int pd (JInt i) = Some i) \<and>
     (\<forall>t. list_all scalar (pd_dump_datetime pd t)) \<and>
     (\<forall>t. pd_lax_datetime pd (JStr (pd_dump_datetime pd t)) = Some t)"

text \<open>A field is looked up by its alias and, with \<open>populate_by_name\<close>, by its name.\<close>

definition field_value :: "(pystr \<times> json) list \<Rightarrow> string \<Rightarrow> string \<Rightarrow> json option" where
  "field_value kvs alias name =
     (case map_of kvs (lit alias) of Some v \<Rightarrow> Some v | None \<Rightarrow> map_of kvs (lit name))"

definition as_str :: "json \<Rightarrow> pystr option" where
  "as_str j = (case j of JStr s \<Rightarrow> Some s | _ \<Rightarrow> None)"

definition as_optional :: "(json \<Rightarrow> 'a option) \<Rightarrow> json \<Rightarrow> 'a option option" where
  "as_optional f j = (if j = JNull then Some None else map_option Some (f j))"

definition required :: "json option \<Rightarrow> (json \<Rightarrow> 'a option) \<Rightarrow> 'a option" where
  "required v f = (case v of None \<Rightarrow> None | Some j \<Rightarrow> f j)"

definition json_opt :: "('a \<Rightarrow> json) \<Rightarrow> 'a option \<Rightarrow> json" where
  "json_opt f x = (case x of None \<Rightarrow> JNull | Some a \<Rightarrow> f a)"

lemma as_optional_json_opt:
  "(\<And>a. f (g a) = Some a) \<Longrightarrow> (\<And>a. g a \<noteq> JNull) \<Longrightarrow> as_optional f (json_opt g x) = Some x"
  by (cases x) (simp_all add: as_optional_def json_opt_def)

lemma as_str_JStr [simp]: "as_str (JStr s) = Some s"
  by (simp add: as_str_def)

lemma required_Some [simp]: "required (Some j) f = f j" "required None f = None"
  by (simp_all add: required_def)

section \<open>ItemResponse\<close>

record item_response =
  ir_game_id :: int
  ir_name :: pystr
  ir_description :: pystr
  ir_quality :: "int option"
  ir_type :: "pystr option"
  ir_recharge_time :: "pystr option"
  ir_image_url :: pystr
  ir_introduced_in_version :: "pystr option"

definition item_to_json :: "item_response \<Rightarrow> json" where
  "item_to_json r =
     JObj [(lit ''gameId'', JInt (ir_game_id r)),
           (lit ''name'', JStr (ir_name r)),
           (lit ''description'', JStr (ir_description r)),
           (lit ''quality'', json_opt JInt (ir_quality r)),
           (lit ''type'', json_opt JStr (ir_type r)),
           (lit ''rechargeTime'', json_opt JStr (ir_recharge_time r)),
           (lit ''imageUrl'', JStr (ir_image_url r)),
           (lit ''introducedInVersion'', json_opt JStr (ir_introduced_in_version r))]"

definition item_of_json :: "pydantic \<Rightarrow> json \<Rightarrow> item_response option" where
  "item_of_json pd j =
     (case j of
        JObj kvs \<Rightarrow>
          (case (required (field_value kvs ''gameId'' ''game_id'') (pd_lax_int pd),
                 required (field_value kvs ''name'' ''name'') as_str,
                 required (field_value kvs ''description'' ''description'') as_str,
                 required (field_value kvs ''quality'' ''quality'') (as_optional (pd_lax_int pd)),
                 required (field_value kvs ''type'' ''type'') (as_optional as_str),
                 required (field_value kvs ''rechargeTime'' ''recharge_time'') (as_optional as_str),
                 required (field_value kvs ''imageUrl'' ''image_url'') as_str,
                 required (field_value kvs ''introducedInVersion'' ''introduced_in_version'')
                   (as_optional as_str)) of
             (Some g, Some n, Some d, Some q, Some t, Some rt, Some u, Some v) \<Rightarrow>
               Some \<lparr>ir_game_id = g, ir_name = n, ir_description = d, ir_quality = q, ir_type = t,
                     ir_recharge_time = rt, ir_image_url = u, ir_introduced_in_version = v\<rparr>
           | _ \<Rightarrow> None)
      | _ \<Rightarrow> None)"

section \<open>Query parameters\<close>

text \<open>The two \<open>Literal\<close> types of the listing are enumerations.\<close>

datatype sort_field = SortName | SortQuality | SortGameId
datatype sort_order = Asc | Desc

fun sort_name :: "sort_field \<Rightarrow> pystr" where
  "sort_name SortName = lit ''name''"
| "sort_name SortQuality = lit ''quality''"
| "sort_name SortGameId = lit ''game_id''"

fun order_name :: "sort_order \<Rightarrow> pystr" where
  "order_name Asc = lit ''asc''"
| "order_name Desc = lit ''desc''"

record item_filter_params =
  p_search :: "pystr option"
  p_quality :: "int option"
  p_type :: "pystr option"
  p_version :: "pystr option"

record item_list_params = item_filter_params +
  p_sort :: sort_field
  p_order :: sort_order
  p_limit :: int
  p_offset :: int

definition filter_params_ok :: "'a item_filter_params_scheme \<Rightarrow> bool" where
  "filter_params_ok p \<longleftrightarrow> nullable (\<lambda>q. 0 \<le> q \<and> q \<le> 4) (p_quality p)"

definition list_params_ok :: "item_list_params \<Rightarrow> bool" where
  "list_params_ok p \<longleftrightarrow>
     filter_params_ok p \<and> 1 \<le> p_limit p \<and> p_limit p \<le> 100 \<and> 0 \<le> p_offset p"

text \<open>\<open>params.model_dump(mode="json")\<close>: field names, in declaration order.\<close>

definition list_params_dump :: "item_list_params \<Rightarrow> (pystr \<times> json) list" where
  "list_params_dump p =
     [(lit ''search'', json_opt JStr (p_search p)),
      (lit ''quality'', json_opt JInt (p_quality p)),
      (lit ''type'', json_opt JStr (p_type p)),
      (lit ''version'', json_opt JStr (p_version p)),
      (lit ''sort'', JStr (sort_name (p_sort p))),
      (lit ''order'', JStr (order_name (p_order p))),
      (lit ''limit'', JInt (p_limit p)),
      (lit ''offset'', JInt (p_offset p))]"

section \<open>ItemListResponse and MetaResponse\<close>

record item_list_response =
  lr_items :: "item_response list"
  lr_total :: int
  lr_limit :: int
  lr_offset :: int

definition list_response_dump :: "item_list_response \<Rightarrow> (pystr \<times> json) list" where
  "list_response_dump r =
     [(lit ''items'', JArr (map item_to_json (lr_items r))),
      (lit ''total'', JInt (lr_total r)),
      (lit ''limit'', JInt (lr_limit r)),
      (lit ''offset'', JInt (lr_offset r))]"

definition list_to_json :: "item_list_response \<Rightarrow> json" where
  "list_to_json r = JObj (list_response_dump r)"

primrec all_some :: "'a option list \<Rightarrow> 'a list option" where
  "all_some [] = Some []"
| "all_some (x # xs) =
     (case x of None \<Rightarrow> None | Some a \<Rightarrow> map_option (\<lambda>as. a # as) (all_some xs))"

definition items_of_json :: "pydantic \<Rightarrow> json \<Rightarrow> item_response list option" where
  "items_of_json pd j =
     (case j of JArr js \<Rightarrow> all_some (map (item_of_json pd) js) | _ \<Rightarrow> None)"

definition list_of_json :: "pydantic \<Rightarrow> json \<Rightarrow> item_list_response option" where
  "list_of_json pd j =
     (case j of
        JObj kvs \<Rightarrow>
          (case (required (map_of kvs (lit ''items'')) (items_of_json pd),
                 required (map_of kvs (lit ''total'')) (pd_lax_int pd),
                 required (map_of kvs (lit ''limit'')) (pd_lax_int pd),
                 required (map_of kvs (lit ''offset'')) (pd_lax_int pd)) of
             (Some is, Some t, Some l, Some off) \<Rightarrow>
               Some \<lparr>lr_items = is, lr_total = t, lr_limit = l, lr_offset = off\<rparr>
           | _ \<Rightarrow> None)
      | _ \<Rightarrow> None)"

record meta_response =
  mr_api_version :: pystr
  mr_dataset_version :: "pystr option"
  mr_game_version :: "pystr option"
  mr_last_sync :: "datetime option"
  mr_items :: int

definition meta_to_json :: "pydantic \<Rightarrow> meta_response \<Rightarrow> json" where
  "meta_to_json pd r =
     JObj [(lit ''apiVersion'', JStr (mr_api_version r)),
           (lit ''datasetVersion'', json_opt JStr (mr_dataset_version r)),
           (lit ''gameVersion'', json_opt JStr (mr_game_version r)),
           (lit ''lastSync'', json_opt (\<lambda>t. JStr (pd_dump_datetime pd t)) (mr_last_sync r)),
           (lit ''items'', JInt (mr_items r))]"

definition meta_of_json :: "pydantic \<Rightarrow> json \<Rightarrow> meta_response option" where
  "meta_of_json pd j =
     (case j of
        JObj kvs \<Rightarrow>
          (case (required (field_value kvs ''apiVersion'' ''api_version'') as_str,
                 required (field_value kvs ''datasetVersion'' ''dataset_version'') (as_optional as_str),
                 required (field_value kvs ''gameVersion'' ''game_version'') (as_optional as_str),
                 required (field_value kvs ''lastSync'' ''last_sync'')
                   (as_optional (pd_lax_datetime pd)),
                 required (field_value kvs ''items'' ''items'') (pd_lax_int pd)) of
             (Some a, Some d, Some g, Some l, Some i) \<Rightarrow>
               Some \<lparr>mr_api_version = a, mr_dataset_version = d, mr_game_version = g,
                     mr_last_sync = l, mr_items = i\<rparr>
           | _ \<Rightarrow> None)
      | _ \<Rightarrow> None)"

section \<open>Dumping and validating again\<close>

text \<open>A value whose strings are valid Unicode and whose integers are within the
  interpreter's limits: what PostgreSQL can have returned.\<close>

definition int_ok :: "int \<Rightarrow> bool" where
  "int_ok i \<longleftrightarrow> length (str_nat (nat \<bar>i\<bar>)) \<le> max_int_digits"

definition item_response_ok :: "item_response \<Rightarrow> bool" where
  "item_response_ok r \<longleftrightarrow>
     int_ok (ir_game_id r) \<and> list_all scalar (ir_name r) \<and> list_all scalar (ir_description r) \<and>
     nullable int_ok (ir_quality r) \<and> nullable (list_all scalar) (ir_type r) \<and>
     nullable (list_all scalar) (ir_recharge_time r) \<and> list_all scalar (ir_image_url r) \<and>
     nullable (list_all scalar) (ir_introduced_in_version r)"

definition list_response_ok :: "item_list_response \<Rightarrow> bool" where
  "list_response_ok r \<longleftrightarrow>
     list_all item_response_ok (lr_items r) \<and> int_ok (lr_total r) \<and> int_ok (lr_limit r) \<and>
     int_ok (lr_offset r)"

definition meta_response_ok :: "meta_response \<Rightarrow> bool" where
  "meta_response_ok r \<longleftrightarrow>
     list_all scalar (mr_api_version r) \<and> nullable (list_all scalar) (mr_dataset_version r) \<and>
     nullable (list_all scalar) (mr_game_version r) \<and> int_ok (mr_items r)"

lemma int_ok_int8: "int8 i \<Longrightarrow> int_ok i"
proof -
  assume "int8 i"
  then have "nat \<bar>i\<bar> < 10 ^ Suc 18" by (auto simp: int8_def)
  then have "length (str_nat (nat \<bar>i\<bar>)) \<le> Suc 18" by (rule length_str_nat)
  then show ?thesis by (simp add: int_ok_def max_int_digits_def)
qed

lemma json_fits_opt [simp]:
  "json_fits d (json_opt JInt x) = nullable int_ok x"
  "json_fits d (json_opt JStr y) = nullable (list_all scalar) y"
  by (cases x, simp_all add: json_opt_def int_ok_def) (cases y, simp_all)

lemma json_fits_opt_any: "json_fits d (json_opt f x) = nullable (\<lambda>a. json_fits d (f a)) x"
  by (cases x) (simp_all add: json_opt_def)

lemma nullable_True [simp]: "nullable (\<lambda>_. True) x"
  by (cases x) simp_all

lemma scalar_lit [simp]: "list_all scalar (lit s)"
proof -
  have "of_char c < (256::nat)" for c :: char
    using of_char_mod_256 [of c, where ?'a = nat] by (metis mod_less_divisor zero_less_numeral)
  then have "scalar (of_char c)" for c
    unfolding scalar_def by (meson less_trans numeral_less_iff semiring_norm(76,78,80,81))
  then show ?thesis
    by (auto simp: lit_def list_all_iff)
qed

lemma pydantic_laws:
  assumes "pydantic_ok pd"
  shows "json_fits payload_depth j \<Longrightarrow> pd_from_json pd (pd_to_json pd j) = Some j"
    and "json_fits payload_depth j \<Longrightarrow> json_loads payload_depth (pd_to_json pd j) = Some j"
    and "json_fits payload_depth j \<Longrightarrow> list_all scalar (pd_to_json pd j)"
    and "pd_lax_int pd (JInt i) = Some i"
    and "list_all scalar (pd_dump_datetime pd t)"
    and "pd_lax_datetime pd (JStr (pd_dump_datetime pd t)) = Some t"
    and "pd_from_json pd [] = None"
  using assms by (simp_all add: pydantic_ok_def)

lemma json_opt_not_null [simp]:
  "json_opt f x = JNull \<longleftrightarrow> x = None \<or> (\<exists>a. x = Some a \<and> f a = JNull)"
  by (cases x) (simp_all add: json_opt_def)

lemma as_optional_simps [simp]:
  "as_optional as_str (json_opt JStr y) = Some y"
  by (simp add: as_optional_json_opt)

lemma item_json_roundtrip:
  assumes "pydantic_ok pd"
  shows "item_of_json pd (item_to_json r) = Some r"
proof -
  have "as_optional (pd_lax_int pd) (json_opt JInt q) = Some q" for q
    by (rule as_optional_json_opt) (simp_all add: pydantic_laws [OF assms])
  then show ?thesis
    by (cases r) (simp add: item_of_json_def item_to_json_def field_value_def pydantic_laws [OF assms])
qed

lemma all_some_map:
  "(\<And>x. x \<in> set xs \<Longrightarrow> f (g x) = Some x) \<Longrightarrow> all_some (map f (map g xs)) = Some xs"
  by (induction xs) simp_all

lemma all_some_length: "all_some xs = Some ys \<Longrightarrow> length ys = length xs"
  by (induction xs arbitrary: ys) (auto split: option.splits)

lemma list_json_roundtrip:
  assumes "pydantic_ok pd"
  shows "list_of_json pd (list_to_json r) = Some r"
proof -
  have "items_of_json pd (JArr (map item_to_json is)) = Some is" for "is"
    using all_some_map [of "is" "item_of_json pd" item_to_json] item_json_roundtrip [OF assms]
    by (simp add: items_of_json_def)
  then show ?thesis
    by (cases r) (simp add: list_of_json_def list_to_json_def list_response_dump_def pydantic_laws [OF assms])
qed

lemma meta_json_roundtrip:
  assumes "pydantic_ok pd"
  shows "meta_of_json pd (meta_to_json pd r) = Some r"
proof -
  have "as_optional (pd_lax_datetime pd) (json_opt (\<lambda>t. JStr (pd_dump_datetime pd t)) l) = Some l" for l
    by (rule as_optional_json_opt) (simp_all add: pydantic_laws [OF assms])
  then show ?thesis
    by (cases r) (simp add: meta_of_json_def meta_to_json_def field_value_def pydantic_laws [OF assms])
qed

text \<open>The dumped values are within what the JSON round trip covers.\<close>

lemma item_json_fits: "item_response_ok r \<Longrightarrow> json_fits (Suc d) (item_to_json r)"
  by (simp add: item_to_json_def item_response_ok_def int_ok_def [symmetric])

lemma list_json_fits: "list_response_ok r \<Longrightarrow> json_fits (Suc (Suc (Suc d))) (list_to_json r)"
  by (simp add: list_to_json_def list_response_dump_def list_response_ok_def int_ok_def [symmetric] list.pred_map comp_def)
     (auto elim!: list.pred_mono_strong intro: item_json_fits)

lemma meta_json_fits:
  "pydantic_ok pd \<Longrightarrow> meta_response_ok r \<Longrightarrow> json_fits (Suc d) (meta_to_json pd r)"
  by (simp add: meta_to_json_def meta_response_ok_def json_fits_opt_any pydantic_laws
      int_ok_def [symmetric] nullable_True)

text \<open>\<open>json.dumps(params.model_dump(mode="json"), sort_keys=True, separators=(",", ":"))\<close>, the
  text whose digest names a cached list.\<close>

definition list_params_text :: "item_list_params \<Rightarrow> pystr" where
  "list_params_text p = json_dumps (JObj (sort_keys (list_params_dump p)))"

text \<open>Two listings have the same text only if they are the same listing.\<close>

definition params_text_ok :: "item_list_params \<Rightarrow> bool" where
  "params_text_ok p \<longleftrightarrow>
     nullable (list_all scalar) (p_search p) \<and> nullable int_ok (p_quality p) \<and>
     nullable (list_all scalar) (p_type p) \<and> nullable (list_all scalar) (p_version p) \<and>
     int_ok (p_limit p) \<and> int_ok (p_offset p)"

lemma json_opt_inject [simp]:
  "json_opt JStr x = json_opt JStr y \<longleftrightarrow> x = y" "json_opt JInt a = json_opt JInt b \<longleftrightarrow> a = b"
  by (cases x; cases y; simp add: json_opt_def) (cases a; cases b; simp add: json_opt_def)

lemma sort_name_inject [simp]: "sort_name a = sort_name b \<longleftrightarrow> a = b"
  by (cases a; cases b) simp_all

lemma order_name_inject [simp]: "order_name a = order_name b \<longleftrightarrow> a = b"
  by (cases a; cases b) simp_all

lemma sort_name_scalar [simp]: "list_all scalar (sort_name a)" "list_all scalar (order_name b)"
  by (cases a, simp_all) (cases b, simp_all)

lemma sort_keys_params:
  "sort_keys (list_params_dump p) =
     [(lit ''limit'', JInt (p_limit p)),
      (lit ''offset'', JInt (p_offset p)),
      (lit ''order'', JStr (order_name (p_order p))),
      (lit ''quality'', json_opt JInt (p_quality p)),
      (lit ''search'', json_opt JStr (p_search p)),
      (lit ''sort'', JStr (sort_name (p_sort p))),
      (lit ''type'', json_opt JStr (p_type p)),
      (lit ''version'', json_opt JStr (p_version p))]"
  by (simp add: sort_keys_def list_params_dump_def lit_def)

theorem list_params_text_inject:
  assumes "params_text_ok p" "params_text_ok q" "list_params_text p = list_params_text q"
  shows "p = q"
proof -
  have fits: "json_fits 1 (JObj (sort_keys (list_params_dump r)))" if "params_text_ok r" for r
    using that by (simp add: sort_keys_params params_text_ok_def int_ok_def [symmetric])
  have "sort_keys (list_params_dump p) = sort_keys (list_params_dump q)"
    using json_dumps_inject [OF fits [OF assms(1)] fits [OF assms(2)]] assms(3)
    by (simp add: list_params_text_def)
  then show ?thesis
    by (cases p; cases q) (simp add: sort_keys_params)
qed

text \<open>The assumptions on Pydantic can be met: the standard library's \<open>json\<close> as printer
  and parser, and no coercions at all.\<close>

definition strict_int :: "json \<Rightarrow> int option" where
  "strict_int j = (case j of JInt i \<Rightarrow> Some i | _ \<Rightarrow> None)"

definition plain_datetime :: "json \<Rightarrow> datetime option" where
  "plain_datetime j =
     (case j of
        JStr s \<Rightarrow> Some (if starts_at 45 s then - int (int_of_digits (drop 1 s)) else int (int_of_digits s))
      | _ \<Rightarrow> None)"

definition plain_pydantic :: pydantic where
  "plain_pydantic =
     \<lparr>pd_to_json = json_dumps, pd_from_json = json_loads payload_depth, pd_lax_int = strict_int,
      pd_dump_datetime = str_int, pd_lax_datetime = plain_datetime\<rparr>"

lemma plain_pydantic_ok: "pydantic_ok plain_pydantic"
proof -
  have "plain_datetime (JStr (str_int t)) = Some t" for t
    using str_nat_starts [of "nat t" "[]"]
    by (auto simp: plain_datetime_def str_int_def starts_at_def)
  moreover have "list_all scalar (str_int t)" for t
    by (rule isascii_scalar [OF str_int_ascii])
  moreover have "json_loads payload_depth [] = None" by code_simp
  ultimately show ?thesis
    by (auto simp: pydantic_ok_def plain_pydantic_def strict_int_def json_loads_dumps
        intro: isascii_scalar json_dumps_ascii)
qed

end
