(* ===== verification/Cache.thy ===== *)
theory Cache
  imports World ItemsSchemas
begin

text \<open>
  \<open>app/items/cache.py\<close>: the generational Redis cache of the items API. A value is
  stored under \<open>cache:v1:{generation}:{suffix}\<close>; the generation is a counter in
  Redis itself, created at random, observed before and after every read and
  incremented to make all entries unreachable. Every payload read back is
  validated again. The theory translates \<open>RedisItemCache\<close> method by method over
  the Redis commands of \<open>World\<close> and proves what its clients rely on.
\<close>

section \<open>Constants and the client\<close>

definition CACHE_GENERATION_KEY :: pystr where
  "CACHE_GENERATION_KEY = lit ''cache:items:generation''"

definition CACHE_KEY_VERSION :: pystr where
  "CACHE_KEY_VERSION = lit ''v1''"

definition ITEM_TTL_SECONDS :: int where "ITEM_TTL_SECONDS = 86400"
definition LIST_TTL_SECONDS :: int where "LIST_TTL_SECONDS = 900"
definition META_TTL_SECONDS :: int where "META_TTL_SECONDS = 86400"
definition MAX_CACHE_TTL_SECONDS :: int where "MAX_CACHE_TTL_SECONDS = 604800"
definition MAX_GENERATION :: nat where "MAX_GENERATION = 9223372036854775807"
definition MAX_GENERATION_DIGITS :: nat where "MAX_GENERATION_DIGITS = 19"
definition MAX_CACHE_PAYLOAD_BYTES :: nat where "MAX_CACHE_PAYLOAD_BYTES = 2 * 1024 * 1024"
definition MAX_CACHED_LIST_ITEMS :: nat where "MAX_CACHED_LIST_ITEMS = 100"

text \<open>What \<open>getrange\<close> returns: \<open>str\<close> from a client with \<open>decode_responses=True\<close>, else
  \<open>bytes\<close>.\<close>

datatype reply = RStr pystr | RBytes pybytes

fun reply_empty :: "reply \<Rightarrow> bool" where
  "reply_empty (RStr s) = (s = [])"
| "reply_empty (RBytes b) = (b = [])"

text \<open>\<open>RedisItemCache\<close>, with the libraries it calls: Pydantic, the hexadecimal SHA-256
  digest of a text, the nesting bound of \<open>json.loads\<close>, and the client's decoding.\<close>

record redis_item_cache =
  rc_pydantic :: pydantic
  rc_sha256 :: "pystr \<Rightarrow> pystr"
  rc_recursion :: nat
  rc_decode :: bool
  rc_generation_factory :: "nat list \<Rightarrow> (exn + int) \<times> nat list"
  rc_item_ttl :: int
  rc_list_ttl :: int
  rc_meta_ttl :: int

record 'a cache_lookup =
  lk_value :: "'a option"
  lk_generation :: "pystr option"

definition client_getrange :: "redis_item_cache \<Rightarrow> pystr \<Rightarrow> nat \<Rightarrow> nat \<Rightarrow> reply prog" where
  "client_getrange rc name st en =
     bindM (redis_call (redis_getrange name st en)) (\<lambda>b.
       if rc_decode rc
       then (case utf8_decode b of None \<Rightarrow> raise UnicodeDecodeError | Some s \<Rightarrow> ret (RStr s))
       else ret (RBytes b))"

definition client_set :: "pystr \<Rightarrow> pystr \<Rightarrow> int option \<Rightarrow> bool \<Rightarrow> bool prog" where
  "client_set name v ex nx = redis_call (redis_set name v ex nx)"

definition client_incr :: "pystr \<Rightarrow> int prog" where
  "client_incr name = redis_call (redis_incr name)"

section \<open>Module functions\<close>

text \<open>\<open>randbelow(MAX_GENERATION - 1) + 1\<close>\<close>

definition new_generation :: "nat list \<Rightarrow> (exn + int) \<times> nat list" where
  "new_generation es = (case randbelow (MAX_GENERATION - 1) es of (n, es') \<Rightarrow> (Inr (int n + 1), es'))"

definition ttl_message :: "pystr \<Rightarrow> pystr" where
  "ttl_message name =
     name @ lit '' cache TTL must be between 1 and '' @ str_int MAX_CACHE_TTL_SECONDS"

definition validate_ttl :: "pystr \<Rightarrow> pyobj \<Rightarrow> exn + int" where
  "validate_ttl name value =
     (case value of
        PyInt n \<Rightarrow>
          if 0 < n \<and> n \<le> MAX_CACHE_TTL_SECONDS then Inr n else Inl (ValueError (ttl_message name))
      | _ \<Rightarrow> Inl (ValueError (ttl_message name)))"

definition make_redis_item_cache ::
  "pydantic \<Rightarrow> (pystr \<Rightarrow> pystr) \<Rightarrow> nat \<Rightarrow> bool \<Rightarrow>
   (nat list \<Rightarrow> (exn + int) \<times> nat list) option \<Rightarrow> pyobj \<Rightarrow> pyobj \<Rightarrow> pyobj \<Rightarrow>
   exn + redis_item_cache" where
  "make_redis_item_cache pd sha depth decode factory item_ttl list_ttl meta_ttl =
     (case validate_ttl (lit ''item'') item_ttl of Inl e \<Rightarrow> Inl e | Inr t_item \<Rightarrow>
      (case validate_ttl (lit ''list'') list_ttl of Inl e \<Rightarrow> Inl e | Inr t_list \<Rightarrow>
      (case validate_ttl (lit ''meta'') meta_ttl of Inl e \<Rightarrow> Inl e | Inr t_meta \<Rightarrow>
         Inr \<lparr>rc_pydantic = pd, rc_sha256 = sha, rc_recursion = depth, rc_decode = decode,
              rc_generation_factory = (case factory of None \<Rightarrow> new_generation | Some f \<Rightarrow> f),
              rc_item_ttl = t_item, rc_list_ttl = t_list, rc_meta_ttl = t_meta\<rparr>)))"

section \<open>Static methods\<close>

definition log_invalid_payload :: "unit prog" where
  "log_invalid_payload =
     emit (log_entry_of (lit ''app.cache'') (lit ''WARNING'') (lit ''cache_payload_invalid'') [])"

definition cache_key :: "pystr \<Rightarrow> pystr \<Rightarrow> pystr" where
  "cache_key generation suffix =
     lit ''cache:'' @ CACHE_KEY_VERSION @ lit '':'' @ generation @ lit '':'' @ suffix"

definition list_suffix :: "redis_item_cache \<Rightarrow> item_list_params \<Rightarrow> pystr" where
  "list_suffix rc params = lit ''list:'' @ rc_sha256 rc (list_params_text params)"

definition item_suffix :: "int \<Rightarrow> pystr" where
  "item_suffix game_id = lit ''item:'' @ str_int game_id"

definition meta_suffix :: "pystr \<Rightarrow> pystr" where
  "meta_suffix api_version = lit ''meta:'' @ api_version"

definition parse_generation_text :: "pystr \<Rightarrow> pystr option" where
  "parse_generation_text v =
     (if \<not> isascii v \<or> \<not> isdigit v \<or> MAX_GENERATION_DIGITS < length v then None
      else if int_of_digits v \<le> MAX_GENERATION then Some (str_nat (int_of_digits v)) else None)"

fun parse_generation :: "reply \<Rightarrow> pystr option" where
  "parse_generation (RBytes b) = (if list_all (\<lambda>c. c < 128) b then parse_generation_text b else None)"
| "parse_generation (RStr s) = parse_generation_text s"

definition payload_text :: "reply option \<Rightarrow> exn + pystr option" where
  "payload_text payload =
     (case payload of
        None \<Rightarrow> Inr None
      | Some (RBytes b) \<Rightarrow>
          if MAX_CACHE_PAYLOAD_BYTES < length b then Inr None else Inr (utf8_decode b)
      | Some (RStr s) \<Rightarrow>
          (case utf8_encode s of
             None \<Rightarrow> Inl UnicodeEncodeError
           | Some b \<Rightarrow> if MAX_CACHE_PAYLOAD_BYTES < length b then Inr None else Inr (Some s)))"

definition has_valid_list_size :: "nat \<Rightarrow> pystr \<Rightarrow> bool" where
  "has_valid_list_size depth payload =
     (case json_loads depth payload of
        Some (JObj raw) \<Rightarrow>
          (case map_of raw (lit ''payload'') of
             Some (JObj envelope_payload) \<Rightarrow>
               (case map_of envelope_payload (lit ''items'') of
                  Some (JArr items) \<Rightarrow> length items \<le> MAX_CACHED_LIST_ITEMS
                | _ \<Rightarrow> False)
           | _ \<Rightarrow> False)
      | _ \<Rightarrow> False)"

section \<open>ListCacheEnvelope\<close>

record list_cache_envelope =
  env_cache_key :: pystr
  env_payload :: "(pystr \<times> json) list"

definition envelope_to_json :: "list_cache_envelope \<Rightarrow> json" where
  "envelope_to_json e =
     JObj [(lit ''cacheKey'', JStr (env_cache_key e)), (lit ''payload'', JObj (env_payload e))]"

text \<open>\<open>extra="forbid", populate_by_name=True\<close>: besides \<open>payload\<close> only the spelling of
  \<open>cache_key\<close> that was used may be present.\<close>

definition envelope_of_json :: "json \<Rightarrow> list_cache_envelope option" where
  "envelope_of_json j =
     (case j of
        JObj kvs \<Rightarrow>
          (let used = (if map_of kvs (lit ''cacheKey'') \<noteq> None then lit ''cacheKey''
                       else lit ''cache_key'')
           in case (required (map_of kvs used) as_str, map_of kvs (lit ''payload'')) of
                (Some k, Some (JObj p)) \<Rightarrow>
                  if list_all (\<lambda>kv. fst kv \<in> {used, lit ''payload''}) kvs
                  then Some \<lparr>env_cache_key = k, env_payload = p\<rparr> else None
              | _ \<Rightarrow> None)
      | _ \<Rightarrow> None)"

section \<open>The generation\<close>

text \<open>One bounded read of the generation; \<open>None\<close> when the client cannot decode it.\<close>

definition read_generation :: "redis_item_cache \<Rightarrow> reply option prog" where
  "read_generation rc =
     catchM
       (bindM (client_getrange rc CACHE_GENERATION_KEY 0 MAX_GENERATION_DIGITS) (\<lambda>v. ret (Some v)))
       (\<lambda>e. if e = UnicodeDecodeError
             then Some (bindM log_invalid_payload (\<lambda>_. ret None)) else None)"

definition checked_generation :: "reply \<Rightarrow> pystr option prog" where
  "checked_generation value =
     (case parse_generation value of
        Some g \<Rightarrow> ret (Some g)
      | None \<Rightarrow>
          bindM (emit (log_entry_of (lit ''app.cache'') (lit ''WARNING'')
                   (lit ''cache_generation_invalid'') [])) (\<lambda>_. ret None))"

text \<open>The branch for a missing generation: offer a candidate with \<open>SET ... NX\<close>, and take the
  winner's when another process was first.\<close>

definition offer_generation :: "redis_item_cache \<Rightarrow> pystr \<Rightarrow> pystr option prog" where
  "offer_generation rc candidate =
     bindM (client_set CACHE_GENERATION_KEY candidate None True) (\<lambda>was_set.
       if was_set then ret (Some candidate)
       else bindM (read_generation rc) (\<lambda>v.
         case v of None \<Rightarrow> ret None
         | Some value \<Rightarrow> if reply_empty value then ret None else checked_generation value))"

definition cache_generation :: "redis_item_cache \<Rightarrow> pystr option prog" where
  "cache_generation rc =
     bindM (read_generation rc) (\<lambda>v.
       case v of None \<Rightarrow> ret None
       | Some value \<Rightarrow>
           if reply_empty value then
             bindM (with_entropy (rc_generation_factory rc)) (\<lambda>n.
               let candidate = str_int n in
               if parse_generation (RStr candidate) = None
               then raise (ValueError (lit ''cache generation factory returned an invalid value''))
               else offer_generation rc candidate)
           else checked_generation value)"

section \<open>Reading and writing an entry\<close>

text \<open>The response model of a read: whether it is \<open>ItemListResponse\<close>, and its validation.\<close>

record 'a cache_model =
  cm_is_list :: bool
  cm_validate :: "pydantic \<Rightarrow> json \<Rightarrow> 'a option"

definition item_model :: "item_response cache_model" where
  "item_model = \<lparr>cm_is_list = False, cm_validate = item_of_json\<rparr>"

definition list_model :: "item_list_response cache_model" where
  "list_model = \<lparr>cm_is_list = True, cm_validate = list_of_json\<rparr>"

definition meta_model :: "meta_response cache_model" where
  "meta_model = \<lparr>cm_is_list = False, cm_validate = meta_of_json\<rparr>"

definition miss :: "pystr option \<Rightarrow> 'a cache_lookup prog" where
  "miss generation = ret \<lparr>lk_value = None, lk_generation = generation\<rparr>"

definition invalid_miss :: "pystr option \<Rightarrow> 'a cache_lookup prog" where
  "invalid_miss generation = bindM log_invalid_payload (\<lambda>_. miss generation)"

text \<open>The validation of a payload text: the envelope of a list must carry the key it was
  read under.\<close>

definition decode_payload :: "redis_item_cache \<Rightarrow> pystr \<Rightarrow> 'a cache_model \<Rightarrow> pystr \<Rightarrow> 'a option" where
  "decode_payload rc suffix model text =
     (case pd_from_json (rc_pydantic rc) text of
        None \<Rightarrow> None
      | Some j \<Rightarrow>
          if cm_is_list model then
            (case envelope_of_json j of
               None \<Rightarrow> None
             | Some e \<Rightarrow>
                 if env_cache_key e \<noteq> suffix then None
                 else cm_validate model (rc_pydantic rc) (JObj (env_payload e)))
          else cm_validate model (rc_pydantic rc) j)"

text \<open>One bounded read of the payload; \<open>None\<close> when the client cannot decode it.\<close>

definition read_payload :: "redis_item_cache \<Rightarrow> pystr \<Rightarrow> reply option prog" where
  "read_payload rc key =
     catchM (bindM (client_getrange rc key 0 MAX_CACHE_PAYLOAD_BYTES) (\<lambda>p. ret (Some p)))
       (\<lambda>e. if e = UnicodeDecodeError then Some (ret None) else None)"

text \<open>What \<open>_get\<close> makes of a payload once the generation was confirmed.\<close>

definition validated_lookup ::
  "redis_item_cache \<Rightarrow> pystr \<Rightarrow> 'a cache_model \<Rightarrow> pystr \<Rightarrow> reply \<Rightarrow> 'a cache_lookup prog" where
  "validated_lookup rc suffix model g p =
     bindM (liftM (payload_text (Some p))) (\<lambda>txt.
       case txt of None \<Rightarrow> miss (Some g)
       | Some t \<Rightarrow>
           if cm_is_list model \<and> \<not> has_valid_list_size (rc_recursion rc) t
           then invalid_miss (Some g)
           else (case decode_payload rc suffix model t of
                   None \<Rightarrow> invalid_miss (Some g)
                 | Some v \<Rightarrow> ret \<lparr>lk_value = Some v, lk_generation = Some g\<rparr>))"

definition cache_get :: "redis_item_cache \<Rightarrow> pystr \<Rightarrow> 'a cache_model \<Rightarrow> 'a cache_lookup prog" where
  "cache_get rc suffix model =
     bindM (cache_generation rc) (\<lambda>generation.
       case generation of None \<Rightarrow> miss None
       | Some g \<Rightarrow>
           bindM (read_payload rc (cache_key g suffix)) (\<lambda>payload.
             case payload of None \<Rightarrow> invalid_miss (Some g)
             | Some p \<Rightarrow>
                 bindM (cache_generation rc) (\<lambda>current.
                   if current \<noteq> Some g then miss current
                   else validated_lookup rc suffix model g p)))"

datatype cached_value =
  CItem item_response | CList item_list_response | CMeta meta_response

definition encode_payload :: "redis_item_cache \<Rightarrow> pystr \<Rightarrow> cached_value \<Rightarrow> pystr" where
  "encode_payload rc suffix value =
     (let pd = rc_pydantic rc in
      case value of
        CItem r \<Rightarrow> pd_to_json pd (item_to_json r)
      | CList r \<Rightarrow>
          pd_to_json pd (envelope_to_json
            \<lparr>env_cache_key = suffix, env_payload = list_response_dump r\<rparr>)
      | CMeta r \<Rightarrow> pd_to_json pd (meta_to_json pd r))"

definition oversized_list :: "cached_value \<Rightarrow> bool" where
  "oversized_list value =
     (case value of CList r \<Rightarrow> MAX_CACHED_LIST_ITEMS < length (lr_items r) | _ \<Rightarrow> False)"

definition cache_set ::
  "redis_item_cache \<Rightarrow> pystr \<Rightarrow> cached_value \<Rightarrow> int \<Rightarrow> pystr option \<Rightarrow> unit prog" where
  "cache_set rc suffix value ttl generation =
     (case generation of None \<Rightarrow> ret ()
      | Some g \<Rightarrow>
          if oversized_list value then log_invalid_payload
          else (let payload = encode_payload rc suffix value in
            case utf8_encode payload of
              None \<Rightarrow> raise UnicodeEncodeError
            | Some b \<Rightarrow>
                if MAX_CACHE_PAYLOAD_BYTES < length b then log_invalid_payload
                else bindM (client_set (cache_key g suffix) payload (Some ttl) False)
                       (\<lambda>_. ret ())))"

section \<open>The public methods\<close>

text \<open>A hit is dropped when the value does not belong to what was asked for.\<close>

definition keep_if :: "('a \<Rightarrow> bool) \<Rightarrow> 'a cache_lookup \<Rightarrow> 'a cache_lookup prog" where
  "keep_if ok lookup =
     (case lk_value lookup of
        Some v \<Rightarrow> if ok v then ret lookup else invalid_miss (lk_generation lookup)
      | None \<Rightarrow> ret lookup)"

definition get_item :: "redis_item_cache \<Rightarrow> int \<Rightarrow> item_response cache_lookup prog" where
  "get_item rc game_id =
     bindM (cache_get rc (item_suffix game_id) item_model)
       (keep_if (\<lambda>v. ir_game_id v = game_id))"

definition set_item :: "redis_item_cache \<Rightarrow> item_response \<Rightarrow> pystr option \<Rightarrow> unit prog" where
  "set_item rc item generation =
     cache_set rc (item_suffix (ir_game_id item)) (CItem item) (rc_item_ttl rc) generation"

definition get_list :: "redis_item_cache \<Rightarrow> item_list_params \<Rightarrow> item_list_response cache_lookup prog" where
  "get_list rc params =
     bindM (cache_get rc (list_suffix rc params) list_model)
       (keep_if (\<lambda>v. lr_limit v = p_limit params \<and> lr_offset v = p_offset params))"

definition set_list ::
  "redis_item_cache \<Rightarrow> item_list_params \<Rightarrow> item_list_response \<Rightarrow> pystr option \<Rightarrow> unit prog" where
  "set_list rc params response generation =
     (if lr_limit response \<noteq> p_limit params \<or> lr_offset response \<noteq> p_offset params
      then log_invalid_payload
      else cache_set rc (list_suffix rc params) (CList response) (rc_list_ttl rc) generation)"

definition get_meta :: "redis_item_cache \<Rightarrow> pystr \<Rightarrow> meta_response cache_lookup prog" where
  "get_meta rc api_version =
     bindM (cache_get rc (meta_suffix api_version) meta_model)
       (keep_if (\<lambda>v. mr_api_version v = api_version))"

definition set_meta :: "redis_item_cache \<Rightarrow> meta_response \<Rightarrow> pystr option \<Rightarrow> unit prog" where
  "set_meta rc response generation =
     cache_set rc (meta_suffix (mr_api_version response)) (CMeta response) (rc_meta_ttl rc) generation"

definition invalidate :: "redis_item_cache \<Rightarrow> int prog" where
  "invalidate rc =
     bindM (cache_generation rc) (\<lambda>g.
       if g = None then raise (ValueError (lit ''cache generation is invalid''))
       else client_incr CACHE_GENERATION_KEY)"

section \<open>Keys and generations\<close>

lemma cache_constants [simp]:
  "MAX_GENERATION_DIGITS = 19" "MAX_GENERATION = 9223372036854775807"
  by (simp_all add: MAX_GENERATION_DIGITS_def MAX_GENERATION_def)

text \<open>A generation is the decimal form of a number up to \<open>MAX_GENERATION\<close>.\<close>

definition generation_text :: "pystr \<Rightarrow> bool" where
  "generation_text g \<longleftrightarrow> (\<exists>n \<le> MAX_GENERATION. g = str_nat n)"

lemma generation_length: "n \<le> MAX_GENERATION \<Longrightarrow> length (str_nat n) \<le> 19"
  using length_str_nat [of n 18] by simp

lemma parse_generation_sound: "parse_generation v = Some g \<Longrightarrow> generation_text g"
  by (cases v) (auto simp: generation_text_def parse_generation_text_def split: if_splits)

lemma parse_generation_text_str_nat [simp]:
  "n \<le> MAX_GENERATION \<Longrightarrow> parse_generation_text (str_nat n) = Some (str_nat n)"
  using generation_length [of n] by (simp add: parse_generation_text_def)

lemmas parse_generation_text_numeral [simp] = parse_generation_text_str_nat [simplified]

lemma str_nat_bytes [simp]: "list_all (\<lambda>c. c < 128) (str_nat n)"
  using isascii_str_nat [of n] by (simp add: isascii_def)

lemma generation_text_colon: "generation_text g \<Longrightarrow> 58 \<notin> set g"
  by (auto simp: generation_text_def digit_char_def dest: str_nat_set)

lemma generation_text_ascii: "generation_text g \<Longrightarrow> isascii g"
  by (auto simp: generation_text_def)

text \<open>Different generations or suffixes give different keys, and no entry's key is the
  generation's own key.\<close>

lemma cache_key_inject:
  assumes "generation_text g" "generation_text h"
  shows "cache_key g s = cache_key h t \<longleftrightarrow> g = h \<and> s = t"
  using split_at_separator [of 58 g h s t] assms
  by (auto simp: cache_key_def lit_def generation_text_colon)

lemma cache_key_generation_key [simp]:
  "cache_key g s \<noteq> CACHE_GENERATION_KEY" "CACHE_GENERATION_KEY \<noteq> cache_key g s"
  by (simp_all add: cache_key_def CACHE_GENERATION_KEY_def CACHE_KEY_VERSION_def lit_def)

lemma suffix_inject [simp]:
  "item_suffix i = item_suffix j \<longleftrightarrow> i = j" "meta_suffix a = meta_suffix b \<longleftrightarrow> a = b"
  "item_suffix i \<noteq> meta_suffix a" "meta_suffix a \<noteq> item_suffix i"
  "item_suffix i \<noteq> list_suffix rc p" "list_suffix rc p \<noteq> item_suffix i"
  "meta_suffix a \<noteq> list_suffix rc p" "list_suffix rc p \<noteq> meta_suffix a"
  by (simp_all add: item_suffix_def meta_suffix_def list_suffix_def lit_def)

section \<open>What the cache leaves alone\<close>

lemma frame_liftM_sum [frame_intros]:
  "frame sel (case x of Inl e \<Rightarrow> raise e | Inr a \<Rightarrow> ret a)"
  by (cases x) (auto intro: frame_intros)

lemma frame_client [frame_intros]:
  "frame database (client_getrange rc n a b)" "frame db_events (client_getrange rc n a b)"
  "frame database (client_set n v ex nx)" "frame db_events (client_set n v ex nx)"
  "frame database (client_incr n)" "frame db_events (client_incr n)"
  "frame database log_invalid_payload" "frame db_events log_invalid_payload"
  by (auto simp: client_getrange_def client_set_def client_incr_def log_invalid_payload_def
      intro!: frame_intros)

lemma frame_read_generation [frame_intros]:
  "frame database (read_generation rc)" "frame db_events (read_generation rc)"
  by (auto simp: read_generation_def intro!: frame_intros split: if_splits)

lemma frame_checked_generation [frame_intros]:
  "frame database (checked_generation v)" "frame db_events (checked_generation v)"
  by (auto simp: checked_generation_def intro!: frame_intros)

lemma frame_offer_generation [frame_intros]:
  "frame database (offer_generation rc c)" "frame db_events (offer_generation rc c)"
  by (auto simp: offer_generation_def intro!: frame_intros)

lemma frame_cache_generation [frame_intros]:
  "frame database (cache_generation rc)" "frame db_events (cache_generation rc)"
  by (auto simp: cache_generation_def Let_def intro!: frame_intros)

lemma frame_miss [frame_intros]: "frame sel (miss g)"
  by (auto simp: miss_def intro: frame_intros)

lemma frame_invalid_miss [frame_intros]:
  "frame database (invalid_miss g)" "frame db_events (invalid_miss g)"
  by (auto simp: invalid_miss_def intro!: frame_intros)

lemma frame_read_payload [frame_intros]:
  "frame database (read_payload rc k)" "frame db_events (read_payload rc k)"
  by (auto simp: read_payload_def intro!: frame_intros split: if_splits)

lemma frame_validated_lookup [frame_intros]:
  "frame database (validated_lookup rc s m g p)" "frame db_events (validated_lookup rc s m g p)"
  by (auto simp: validated_lookup_def intro!: frame_intros split: if_splits)

lemma frame_cache_get [frame_intros]:
  "frame database (cache_get rc s m)" "frame db_events (cache_get rc s m)"
  by (auto simp: cache_get_def intro!: frame_intros split: if_splits)

lemma frame_cache_set [frame_intros]:
  "frame database (cache_set rc s v ttl g)" "frame db_events (cache_set rc s v ttl g)"
  by (auto simp: cache_set_def Let_def intro!: frame_intros)

lemma frame_keep_if [frame_intros]:
  "frame database (keep_if ok l)" "frame db_events (keep_if ok l)"
  by (auto simp: keep_if_def intro!: frame_intros)

lemma frame_cache_methods [frame_intros]:
  "frame database (get_item rc i)" "frame db_events (get_item rc i)"
  "frame database (get_list rc p)" "frame db_events (get_list rc p)"
  "frame database (get_meta rc v)" "frame db_events (get_meta rc v)"
  "frame database (invalidate rc)" "frame db_events (invalidate rc)"
  by (auto simp: get_item_def get_list_def get_meta_def invalidate_def intro!: frame_intros)

lemma frame_cache_writes [frame_intros]:
  "frame database (set_item rc r g)" "frame db_events (set_item rc r g)"
  "frame database (set_list rc p l g)" "frame db_events (set_list rc p l g)"
  "frame database (set_meta rc m g)" "frame db_events (set_meta rc m g)"
  by (auto simp: set_item_def set_list_def set_meta_def intro!: frame_intros)

section \<open>Reading the generation\<close>

lemma client_getrange_calm:
  assumes "redis_events w = []" "redis_bytes (redis w) name = b" "length b \<le> Suc en"
  shows "client_getrange rc name 0 en w =
     (if rc_decode rc
      then (case utf8_decode b of None \<Rightarrow> (Inl UnicodeDecodeError, w) | Some s \<Rightarrow> (Inr (RStr s), w))
      else (Inr (RBytes b), w))"
  using assms
  by (simp add: client_getrange_def bindM_def redis_call_def redis_getrange_def split: option.split)

text \<open>The generation currently in Redis.\<close>

definition stored_generation :: "world \<Rightarrow> nat option" where
  "stored_generation w =
     (case redis w CACHE_GENERATION_KEY of
        None \<Rightarrow> None
      | Some (b, _) \<Rightarrow>
          if list_all digit_char b \<and> b = str_nat (int_of_digits b) \<and> int_of_digits b \<le> MAX_GENERATION
          then Some (int_of_digits b) else None)"

lemma stored_generationD:
  "stored_generation w = Some n \<Longrightarrow>
   n \<le> MAX_GENERATION \<and> (\<exists>ttl. redis w CACHE_GENERATION_KEY = Some (str_nat n, ttl))"
  by (auto simp: stored_generation_def split: option.splits prod.splits if_splits)

lemma stored_generation_str_nat:
  "n \<le> MAX_GENERATION \<Longrightarrow> redis w CACHE_GENERATION_KEY = Some (str_nat n, ttl) \<Longrightarrow>
   stored_generation w = Some n"
  by (simp add: stored_generation_def str_nat_digits)

lemma read_generation_calm:
  assumes "redis_events w = []" "stored_generation w = Some n"
  shows "read_generation rc w =
     (Inr (Some (if rc_decode rc then RStr (str_nat n) else RBytes (str_nat n))), w)"
proof -
  obtain ttl where n: "n \<le> MAX_GENERATION" "redis w CACHE_GENERATION_KEY = Some (str_nat n, ttl)"
    using stored_generationD [OF assms(2)] by blast
  then have "length (str_nat n) \<le> Suc 19" using generation_length by fastforce
  then show ?thesis
    using assms(1) n client_getrange_calm [of w CACHE_GENERATION_KEY "str_nat n" 19 rc]
    by (simp add: read_generation_def catchM_def bindM_def redis_bytes_def utf8_decode_ascii)
qed

lemma cache_generation_calm:
  assumes "redis_events w = []" "stored_generation w = Some n"
  shows "cache_generation rc w = (Inr (Some (str_nat n)), w)"
  using stored_generationD [OF assms(2)]
  by (simp add: cache_generation_def bindM_def read_generation_calm [OF assms] checked_generation_def)

text \<open>A missing generation is created with the factory's value, by a \<open>SET ... NX\<close>.\<close>

lemma cache_generation_create:
  assumes calm: "redis_events w = []" and missing: "redis w CACHE_GENERATION_KEY = None"
    and factory: "rc_generation_factory rc (entropy w) = (Inr (int n), es)" "n \<le> MAX_GENERATION"
  shows "cache_generation rc w =
     (Inr (Some (str_nat n)),
      w\<lparr>entropy := es, redis := (redis w)(CACHE_GENERATION_KEY \<mapsto> (str_nat n, None))\<rparr>)"
proof -
  have "read_generation rc w = (Inr (Some (if rc_decode rc then RStr [] else RBytes [])), w)"
    using client_getrange_calm [OF calm, of CACHE_GENERATION_KEY "[]" 19 rc] missing
    by (simp add: read_generation_def catchM_def bindM_def redis_bytes_def)
  moreover have "str_int (int n) = str_nat n" by (simp add: str_int_def)
  moreover have "client_set CACHE_GENERATION_KEY (str_nat n) None True (w\<lparr>entropy := es\<rparr>) =
      (Inr True, w\<lparr>entropy := es, redis := (redis w)(CACHE_GENERATION_KEY \<mapsto> (str_nat n, None))\<rparr>)"
    using calm missing
    by (auto simp: client_set_def redis_call_def redis_set_def utf8_encode_ascii)
  ultimately show ?thesis
    using factory by (simp add: cache_generation_def offer_generation_def bindM_def Let_def with_entropy_def)
qed

lemma new_generation_range:
  "\<exists>n. fst (new_generation es) = Inr (int n) \<and> 0 < n \<and> n < MAX_GENERATION"
  using randbelow_less [of "MAX_GENERATION - 1" es]
  by (auto simp: new_generation_def split: prod.split intro!: exI [of _ "Suc (fst (randbelow 9223372036854775806 es))"])

section \<open>A hit after a write\<close>

text \<open>The values of a cached value's own model, what may be stored, and how they are
  stored.\<close>

lemma list_envelope_roundtrip [simp]: "envelope_of_json (envelope_to_json e) = Some e"
  by (cases e) (simp add: envelope_of_json_def envelope_to_json_def)

lemma envelope_json_fits:
  assumes "list_response_ok r" "list_all scalar s"
  shows "json_fits payload_depth
     (envelope_to_json \<lparr>env_cache_key = s, env_payload = list_response_dump r\<rparr>)"
proof -
  have "json_fits (Suc (Suc (Suc 0))) (list_to_json r)" using assms(1) by (rule list_json_fits)
  then show ?thesis using assms(2)
    by (simp add: envelope_to_json_def payload_depth_def numeral_eq_Suc list_to_json_def)
qed

lemma decode_encode_item:
  assumes "pydantic_ok (rc_pydantic rc)" "item_response_ok r"
  shows "decode_payload rc s item_model (encode_payload rc s (CItem r)) = Some r"
  using pydantic_laws(1) [OF assms(1)] item_json_fits [OF assms(2), of 3]
  by (simp add: decode_payload_def encode_payload_def item_model_def item_json_roundtrip [OF assms(1)]
      payload_depth_def)

lemma decode_encode_meta:
  assumes "pydantic_ok (rc_pydantic rc)" "meta_response_ok r"
  shows "decode_payload rc s meta_model (encode_payload rc s (CMeta r)) = Some r"
  using pydantic_laws(1) [OF assms(1)] meta_json_fits [OF assms, of 3]
  by (simp add: decode_payload_def encode_payload_def meta_model_def Let_def
      meta_json_roundtrip [OF assms(1)] payload_depth_def)

lemma decode_encode_list:
  assumes "pydantic_ok (rc_pydantic rc)" "list_response_ok r" "list_all scalar s"
  shows "decode_payload rc s list_model (encode_payload rc s (CList r)) = Some r"
  using pydantic_laws(1) [OF assms(1) envelope_json_fits [OF assms(2,3)]]
  by (simp add: decode_payload_def encode_payload_def list_model_def Let_def
      list_to_json_def [symmetric] list_json_roundtrip [OF assms(1)])

lemma has_valid_list_size_encode:
  assumes "pydantic_ok (rc_pydantic rc)" "list_response_ok r" "list_all scalar s"
    "length (lr_items r) \<le> MAX_CACHED_LIST_ITEMS" "payload_depth \<le> rc_recursion rc"
  shows "has_valid_list_size (rc_recursion rc) (encode_payload rc s (CList r))"
  using json_loads_mono [OF pydantic_laws(2) [OF assms(1) envelope_json_fits [OF assms(2,3)]] assms(5)] assms(4)
  by (simp add: has_valid_list_size_def encode_payload_def Let_def envelope_to_json_def
      list_response_dump_def)

text \<open>Writing under the current generation and reading back.\<close>

lemma cache_set_calm:
  assumes "redis_events w = []" "\<not> oversized_list v"
    "utf8_encode (encode_payload rc s v) = Some b" "length b \<le> MAX_CACHE_PAYLOAD_BYTES"
  shows "cache_set rc s v ttl (Some g) w =
     (Inr (), w\<lparr>redis := (redis w)(cache_key g s \<mapsto> (b, Some ttl))\<rparr>)"
  using assms
  by (simp add: cache_set_def Let_def bindM_def client_set_def redis_call_def redis_set_def)

lemma cache_get_calm_hit:
  assumes calm: "redis_events w = []" and gen: "stored_generation w = Some n"
    and entry: "redis w (cache_key (str_nat n) s) = Some (b, ttl)"
    and enc: "utf8_encode t = Some b" "length b \<le> MAX_CACHE_PAYLOAD_BYTES"
    and size: "cm_is_list m \<Longrightarrow> has_valid_list_size (rc_recursion rc) t"
    and ok: "decode_payload rc s m t = Some v"
  shows "cache_get rc s m w = (Inr \<lparr>lk_value = Some v, lk_generation = Some (str_nat n)\<rparr>, w)"
proof -
  note g = cache_generation_calm [OF calm gen, of rc]
  have t: "utf8_decode b = Some t" by (rule utf8_roundtrip [OF enc(1)])
  have p: "client_getrange rc (cache_key (str_nat n) s) 0 MAX_CACHE_PAYLOAD_BYTES w =
      (Inr (if rc_decode rc then RStr t else RBytes b), w)"
    using client_getrange_calm [OF calm, of "cache_key (str_nat n) s" b MAX_CACHE_PAYLOAD_BYTES rc]
      entry enc t by (simp add: redis_bytes_def)
  have "payload_text (Some (if rc_decode rc then RStr t else RBytes b)) = Inr (Some t)"
    using enc t by (simp add: payload_text_def)
  then show ?thesis
    using size ok
    by (auto simp: cache_get_def read_payload_def validated_lookup_def bindM_def catchM_def g p)
qed

end
