(* ===== verification/CacheContract.thy ===== *)
theory CacheContract
  imports Cache
begin

text \<open>
  What \<open>RedisItemCache\<close> promises to its clients. The locale \<open>keyed_cache\<close> states
  the contract of one kind of entry (a lookup and a store): a hit belongs to the
  key it was asked for, a value stored under the current generation is read
  back, the exceptions are those of the Redis client, the database is never
  touched, and a predicate on the store that all writers respect is kept. It is
  interpreted for the items, the lists and the metadata of every cache object.
  The second half is about generations: they only grow, and a write made under
  another generation is invisible.
\<close>

section \<open>A write under the current generation is read back\<close>

text \<open>A value the cache will store: within the list bound, and its payload within the byte
  bound.\<close>

definition storable :: "redis_item_cache \<Rightarrow> pystr \<Rightarrow> cached_value \<Rightarrow> bool" where
  "storable rc suffix v \<longleftrightarrow>
     \<not> oversized_list v \<and>
     (case utf8_encode (encode_payload rc suffix v) of
        None \<Rightarrow> False | Some b \<Rightarrow> length b \<le> MAX_CACHE_PAYLOAD_BYTES)"

lemma stored_generation_cong:
  "redis w CACHE_GENERATION_KEY = redis w' CACHE_GENERATION_KEY \<Longrightarrow>
   stored_generation w = stored_generation w'"
  by (simp add: stored_generation_def)

lemma set_then_cache_get:
  assumes calm: "redis_events w = []" and gen: "stored_generation w = Some n"
    and st: "storable rc s v"
    and size: "cm_is_list m \<Longrightarrow> has_valid_list_size (rc_recursion rc) (encode_payload rc s v)"
    and ok: "decode_payload rc s m (encode_payload rc s v) = Some x"
  shows "\<exists>w'. cache_set rc s v ttl (Some (str_nat n)) w = (Inr (), w') \<and>
     redis_events w' = [] \<and> stored_generation w' = Some n \<and>
     cache_get rc s m w' = (Inr \<lparr>lk_value = Some x, lk_generation = Some (str_nat n)\<rparr>, w')"
proof -
  obtain b where b: "\<not> oversized_list v" "utf8_encode (encode_payload rc s v) = Some b"
      "length b \<le> MAX_CACHE_PAYLOAD_BYTES"
    using st by (auto simp: storable_def split: option.splits)
  let ?w = "w\<lparr>redis := (redis w)(cache_key (str_nat n) s \<mapsto> (b, Some ttl))\<rparr>"
  have set: "cache_set rc s v ttl (Some (str_nat n)) w = (Inr (), ?w)"
    by (rule cache_set_calm [OF calm b])
  have g: "stored_generation ?w = Some n"
    using gen by (simp add: stored_generation_cong [of ?w w])
  have "cache_get rc s m ?w = (Inr \<lparr>lk_value = Some x, lk_generation = Some (str_nat n)\<rparr>, ?w)"
    by (rule cache_get_calm_hit [where b = b and ttl = "Some ttl" and t = "encode_payload rc s v"])
       (use calm g b size ok in simp_all)
  then show ?thesis using set g calm by auto
qed

definition item_storable :: "redis_item_cache \<Rightarrow> int \<Rightarrow> item_response \<Rightarrow> bool" where
  "item_storable rc i r \<longleftrightarrow>
     pydantic_ok (rc_pydantic rc) \<and> item_response_ok r \<and> storable rc (item_suffix i) (CItem r)"

definition list_storable :: "redis_item_cache \<Rightarrow> item_list_params \<Rightarrow> item_list_response \<Rightarrow> bool" where
  "list_storable rc p r \<longleftrightarrow>
     pydantic_ok (rc_pydantic rc) \<and> payload_depth \<le> rc_recursion rc \<and> list_response_ok r \<and>
     list_all scalar (list_suffix rc p) \<and> storable rc (list_suffix rc p) (CList r)"

definition meta_storable :: "redis_item_cache \<Rightarrow> pystr \<Rightarrow> meta_response \<Rightarrow> bool" where
  "meta_storable rc a r \<longleftrightarrow>
     pydantic_ok (rc_pydantic rc) \<and> meta_response_ok r \<and> storable rc (meta_suffix a) (CMeta r)"

section \<open>Hits\<close>

text \<open>What a hit rests on: the generation read before and after the payload is the same,
  and the payload stored under it passed every validation.\<close>

lemma cache_get_hit:
  assumes "cache_get rc s m w = (Inr l, w')" "lk_value l = Some v"
  obtains g w1 w2 p t where
    "cache_generation rc w = (Inr (Some g), w1)"
    "client_getrange rc (cache_key g s) 0 MAX_CACHE_PAYLOAD_BYTES w1 = (Inr p, w2)"
    "cache_generation rc w2 = (Inr (Some g), w')"
    "payload_text (Some p) = Inr (Some t)" "decode_payload rc s m t = Some v"
    "cm_is_list m \<Longrightarrow> has_valid_list_size (rc_recursion rc) t" "lk_generation l = Some g"
  using assms
  by (force simp: cache_get_def read_payload_def validated_lookup_def bindM_def catchM_def miss_def invalid_miss_def log_invalid_payload_def
      emit_def split: prod.splits sum.splits option.splits if_splits)

lemma keep_if_belongs:
  "keep_if ok l w = (Inr l', w') \<Longrightarrow> lk_value l' = Some v \<Longrightarrow> ok v \<and> l' = l \<and> w' = w"
  by (auto simp: keep_if_def invalid_miss_def miss_def log_invalid_payload_def emit_def bindM_def
      split: option.splits if_splits)

lemma lookup_belongs:
  "get_item rc i w = (Inr l, w') \<Longrightarrow> lk_value l = Some v \<Longrightarrow> ir_game_id v = i"
  "get_list rc p w = (Inr k, w') \<Longrightarrow> lk_value k = Some y \<Longrightarrow>
     lr_limit y = p_limit p \<and> lr_offset y = p_offset p"
  "get_meta rc a w = (Inr h, w') \<Longrightarrow> lk_value h = Some z \<Longrightarrow> mr_api_version z = a"
  by (auto simp: get_item_def get_list_def get_meta_def elim!: bindM_eq_InrE dest: keep_if_belongs)

section \<open>Exceptions\<close>

text \<open>A factory that returns an acceptable value, as \<open>new_generation\<close> does.\<close>

definition factory_ok :: "redis_item_cache \<Rightarrow> bool" where
  "factory_ok rc \<longleftrightarrow>
     (\<forall>es. \<exists>n. fst (rc_generation_factory rc es) = Inr (int n) \<and> n \<le> MAX_GENERATION)"

lemma factory_ok_new_generation: "rc_generation_factory rc = new_generation \<Longrightarrow> factory_ok rc"
  unfolding factory_ok_def by (metis new_generation_range less_imp_le)

lemma safe_log_invalid [safe_intros]: "safe (redis_faults P) Q log_invalid_payload"
  by (simp add: log_invalid_payload_def safe_intros)

lemma safe_miss [safe_intros]: "safe (redis_faults P) Q (miss g)" "safe (redis_faults P) Q (invalid_miss g)"
  by (auto simp: miss_def invalid_miss_def intro!: safe_intros)

lemma safe_client_getrange: "safe (redis_faults P) (\<lambda>e. P e \<or> e = UnicodeDecodeError) (client_getrange rc n a b)"
proof -
  have "safe (redis_faults P) P (redis_call (redis_getrange n a b))"
    by (rule redis_call_safe) (simp add: redis_getrange_def)
  then have "safe (redis_faults P) (\<lambda>e. P e \<or> e = UnicodeDecodeError) (redis_call (redis_getrange n a b))"
    by (auto simp: safe_def)
  then show ?thesis
    by (auto simp: client_getrange_def intro!: safe_intros split: option.split)
qed

lemma safe_read_generation [safe_intros]: "safe (redis_faults P) P (read_generation rc)"
  unfolding read_generation_def
  by (rule safe_catchM [where Q = "\<lambda>e. P e \<or> e = UnicodeDecodeError"])
     (auto intro!: safe_intros safe_client_getrange split: if_splits)

lemma safe_checked_generation [safe_intros]: "safe (redis_faults P) P (checked_generation v)"
  by (auto simp: checked_generation_def intro!: safe_intros split: option.split)

lemma parse_generation_text_ascii: "parse_generation_text v = Some g \<Longrightarrow> isascii v"
  by (auto simp: parse_generation_text_def split: if_splits)

lemma safe_client_set: "isascii v \<Longrightarrow> safe (redis_faults P) P (client_set n v ex nx)"
  unfolding client_set_def
  by (rule redis_call_safe) (auto simp: redis_set_def utf8_encode_ascii split: if_splits)

lemma safe_offer_generation [safe_intros]:
  "isascii c \<Longrightarrow> safe (redis_faults P) P (offer_generation rc c)"
  by (auto simp: offer_generation_def intro!: safe_intros safe_client_set)

lemma factory_returns:
  assumes "factory_ok rc"
  obtains n es' where "rc_generation_factory rc es = (Inr (int n), es')" "n \<le> MAX_GENERATION"
  using assms unfolding factory_ok_def by (metis prod.collapse)

lemma with_factory_safe:
  assumes "factory_ok rc"
  shows "safe (redis_faults P) P (with_entropy (rc_generation_factory rc))"
proof (rule faults_frame)
  fix es e
  assume "fst (rc_generation_factory rc es) = Inl e"
  moreover obtain n es' where "rc_generation_factory rc es = (Inr (int n), es')"
    by (rule factory_returns [OF assms])
  ultimately show "P e" by simp
qed

lemma with_factory_value:
  assumes "factory_ok rc" "with_entropy (rc_generation_factory rc) w = (Inr i, w')"
  shows "\<exists>n \<le> MAX_GENERATION. i = int n"
proof -
  obtain n es' where "rc_generation_factory rc (entropy w) = (Inr (int n), es')" "n \<le> MAX_GENERATION"
    by (rule factory_returns [OF assms(1)])
  then show ?thesis using assms(2) by (auto simp: with_entropy_def)
qed

lemma safe_cache_generation [safe_intros]:
  assumes "factory_ok rc"
  shows "safe (redis_faults P) P (cache_generation rc)"
proof -
  have "safe (redis_faults P) P (bindM (with_entropy (rc_generation_factory rc)) (\<lambda>i.
       let candidate = str_int i in
       if parse_generation (RStr candidate) = None
       then raise (ValueError (lit ''cache generation factory returned an invalid value''))
       else offer_generation rc candidate))"
  proof (rule safe_bindM_val [OF with_factory_safe [OF assms] with_factory_value [OF assms]])
    fix i
    assume "\<exists>n \<le> MAX_GENERATION. i = int n"
    then obtain n where "n \<le> MAX_GENERATION" "str_int i = str_nat n" by (auto simp: str_int_def)
    then show "safe (redis_faults P) P (let candidate = str_int i in
       if parse_generation (RStr candidate) = None
       then raise (ValueError (lit ''cache generation factory returned an invalid value''))
       else offer_generation rc candidate)"
      by (simp add: safe_intros)
  qed
  then show ?thesis
    unfolding cache_generation_def
    by (intro safe_bindM [OF safe_read_generation] safe_option safe_if safe_checked_generation safe_run)
qed

text \<open>What the client decoded can be encoded again, so sizing a payload does not raise.\<close>

lemma payload_text_ok: "client_getrange rc n a b w = (Inr p, w') \<Longrightarrow> \<exists>t. payload_text (Some p) = Inr t"
  by (auto simp: client_getrange_def payload_text_def bindM_def utf8_encode_def dest: utf8_decode_scalar
      split: prod.splits sum.splits if_splits option.splits)

lemma read_payload_ok: "read_payload rc k w = (Inr (Some p), w') \<Longrightarrow> \<exists>t. payload_text (Some p) = Inr t"
  by (auto simp: read_payload_def catchM_def bindM_def dest: payload_text_ok
      split: prod.splits sum.splits if_splits option.splits)

lemma safe_read_payload [safe_intros]: "safe (redis_faults P) P (read_payload rc k)"
  unfolding read_payload_def
  by (rule safe_catchM [where Q = "\<lambda>e. P e \<or> e = UnicodeDecodeError"])
     (auto intro!: safe_intros safe_client_getrange split: if_splits)

lemma safe_validated_lookup:
  assumes "\<exists>t. payload_text (Some p) = Inr t"
  shows "safe (redis_faults P) P (validated_lookup rc s m g p)"
  using assms by (auto simp: validated_lookup_def intro!: safe_intros split: option.split)

lemma safe_cache_get [safe_intros]:
  assumes "factory_ok rc"
  shows "safe (redis_faults P) P (cache_get rc s m)"
proof -
  have "safe (redis_faults P) P (bindM (read_payload rc k) (\<lambda>payload.
      case payload of None \<Rightarrow> invalid_miss (Some g)
      | Some p \<Rightarrow> bindM (cache_generation rc) (\<lambda>current.
          if current \<noteq> Some g then miss current else validated_lookup rc s m g p)))" for k g
    by (rule safe_bindM_val [OF safe_read_payload,
          where Q = "\<lambda>payload. \<forall>p. payload = Some p \<longrightarrow> (\<exists>t. payload_text (Some p) = Inr t)"])
       (use read_payload_ok in blast, intro safe_option safe_bindM safe_if safe_miss
         safe_cache_generation [OF assms] safe_validated_lookup, simp)
  then show ?thesis
    unfolding cache_get_def
    by (intro safe_bindM [OF safe_cache_generation [OF assms]] safe_option safe_miss)
qed

lemma safe_keep_if [safe_intros]: "safe (redis_faults P) Q (keep_if ok l)"
  by (auto simp: keep_if_def intro!: safe_intros split: option.split)

lemma safe_lookups:
  assumes "factory_ok rc"
  shows "safe (redis_faults P) P (get_item rc i)" "safe (redis_faults P) P (get_list rc p)"
    "safe (redis_faults P) P (get_meta rc a)"
  unfolding get_item_def get_list_def get_meta_def
  by (intro safe_bindM [OF safe_cache_get [OF assms]] safe_keep_if)+

text \<open>A write raises nothing of its own once its payload is valid Unicode.\<close>

lemma safe_cache_set:
  assumes "utf8_encode (encode_payload rc s v) \<noteq> None"
  shows "safe (redis_faults P) P (cache_set rc s v ttl g)"
proof -
  have "safe (redis_faults P) P (client_set k (encode_payload rc s v) ex nx)" for k ex nx
    unfolding client_set_def
    by (rule redis_call_safe) (use assms in \<open>auto simp: redis_set_def split: option.splits if_splits\<close>)
  then show ?thesis
    using assms by (auto simp: cache_set_def Let_def intro!: safe_intros split: option.split)
qed

lemma payload_encodes:
  assumes "pydantic_ok (rc_pydantic rc)"
  shows "item_response_ok r \<Longrightarrow> utf8_encode (encode_payload rc s (CItem r)) \<noteq> None"
    and "list_response_ok l \<Longrightarrow> list_all scalar s \<Longrightarrow> utf8_encode (encode_payload rc s (CList l)) \<noteq> None"
    and "meta_response_ok m \<Longrightarrow> utf8_encode (encode_payload rc s (CMeta m)) \<noteq> None"
  using pydantic_laws(3) [OF assms] item_json_fits [of r 3] envelope_json_fits [of l s]
    meta_json_fits [OF assms, of m 3]
  by (simp_all add: utf8_encode_def encode_payload_def Let_def payload_depth_def)

section \<open>The contract\<close>

text \<open>What a client of the cache may rely on, for one kind of entry. \<open>encodable\<close> is what a
  write needs in order not to raise, \<open>storable_at\<close> what it needs in order to be read
  back, \<open>ready\<close> that the cache object was built with a usable generation factory.\<close>

locale keyed_cache =
  fixes lookup :: "'k \<Rightarrow> 'v cache_lookup prog"
    and store :: "'k \<Rightarrow> 'v \<Rightarrow> pystr option \<Rightarrow> unit prog"
    and belongs :: "'k \<Rightarrow> 'v \<Rightarrow> bool"
    and encodable :: "'k \<Rightarrow> 'v \<Rightarrow> bool"
    and storable_at :: "'k \<Rightarrow> 'v \<Rightarrow> bool"
    and ready :: bool
  assumes hit_belongs:
      "lookup k w = (Inr l, w') \<Longrightarrow> lk_value l = Some v \<Longrightarrow> belongs k v"
    and lookup_safe: "ready \<Longrightarrow> safe (redis_faults P) P (lookup k)"
    and store_safe: "encodable k v \<Longrightarrow> safe (redis_faults P) P (store k v g)"
    and lookup_frame: "frame database (lookup k)" "frame db_events (lookup k)"
    and store_frame: "frame database (store k v g)" "frame db_events (store k v g)"
    and store_hit:
      "redis_events w = [] \<Longrightarrow> stored_generation w = Some n \<Longrightarrow> storable_at k v \<Longrightarrow> belongs k v \<Longrightarrow>
       \<exists>w'. store k v (Some (str_nat n)) w = (Inr (), w') \<and> redis_events w' = [] \<and>
          stored_generation w' = Some n \<and>
          lookup k w' = (Inr \<lparr>lk_value = Some v, lk_generation = Some (str_nat n)\<rparr>, w')"

begin

text \<open>Storing twice under the same key keeps the last value.\<close>

lemma store_overwrites:
  assumes "redis_events w = []" "stored_generation w = Some n" "storable_at k v" "belongs k v"
    "storable_at k u" "belongs k u"
  shows "\<exists>w1 w2. store k v (Some (str_nat n)) w = (Inr (), w1) \<and>
     store k u (Some (str_nat n)) w1 = (Inr (), w2) \<and>
     lookup k w2 = (Inr \<lparr>lk_value = Some u, lk_generation = Some (str_nat n)\<rparr>, w2)"
proof -
  obtain w1 where "store k v (Some (str_nat n)) w = (Inr (), w1)" "redis_events w1 = []"
      "stored_generation w1 = Some n"
    using store_hit [OF assms(1-4)] by blast
  then show ?thesis using store_hit [of w1 n k u] assms(5,6) by blast
qed

end

definition item_encodable :: "redis_item_cache \<Rightarrow> item_response \<Rightarrow> bool" where
  "item_encodable rc r \<longleftrightarrow> pydantic_ok (rc_pydantic rc) \<and> item_response_ok r"

definition list_encodable :: "redis_item_cache \<Rightarrow> item_list_params \<Rightarrow> item_list_response \<Rightarrow> bool" where
  "list_encodable rc p r \<longleftrightarrow>
     pydantic_ok (rc_pydantic rc) \<and> list_response_ok r \<and> list_all scalar (list_suffix rc p)"

definition meta_encodable :: "redis_item_cache \<Rightarrow> meta_response \<Rightarrow> bool" where
  "meta_encodable rc r \<longleftrightarrow> pydantic_ok (rc_pydantic rc) \<and> meta_response_ok r"

lemma cache_model_is_list [simp]:
  "\<not> cm_is_list item_model" "cm_is_list list_model" "\<not> cm_is_list meta_model"
  by (simp_all add: item_model_def list_model_def meta_model_def)

lemma keep_if_Some:
  "ok v \<Longrightarrow> keep_if ok \<lparr>lk_value = Some v, lk_generation = g\<rparr> w =
     (Inr \<lparr>lk_value = Some v, lk_generation = g\<rparr>, w)"
  by (simp add: keep_if_def)

lemma set_then_get_item:
  assumes "redis_events w = []" "stored_generation w = Some n" "item_storable rc (ir_game_id r) r"
  shows "\<exists>w'. set_item rc r (Some (str_nat n)) w = (Inr (), w') \<and> redis_events w' = [] \<and>
     stored_generation w' = Some n \<and>
     get_item rc (ir_game_id r) w' =
       (Inr \<lparr>lk_value = Some r, lk_generation = Some (str_nat n)\<rparr>, w')"
  using set_then_cache_get [OF assms(1,2), of rc "item_suffix (ir_game_id r)" "CItem r" item_model r
      "rc_item_ttl rc"] assms(3)
  by (auto simp: item_storable_def set_item_def get_item_def bindM_def keep_if_Some decode_encode_item)

lemma set_then_get_list:
  assumes "redis_events w = []" "stored_generation w = Some n" "list_storable rc p r"
    "lr_limit r = p_limit p \<and> lr_offset r = p_offset p"
  shows "\<exists>w'. set_list rc p r (Some (str_nat n)) w = (Inr (), w') \<and> redis_events w' = [] \<and>
     stored_generation w' = Some n \<and>
     get_list rc p w' = (Inr \<lparr>lk_value = Some r, lk_generation = Some (str_nat n)\<rparr>, w')"
proof -
  have "has_valid_list_size (rc_recursion rc) (encode_payload rc (list_suffix rc p) (CList r))"
    using assms(3) by (intro has_valid_list_size_encode)
      (auto simp: list_storable_def storable_def oversized_list_def)
  then show ?thesis
    using set_then_cache_get [OF assms(1,2), of rc "list_suffix rc p" "CList r" list_model r
        "rc_list_ttl rc"] assms(3,4)
    by (auto simp: list_storable_def set_list_def get_list_def bindM_def keep_if_Some decode_encode_list)
qed

lemma set_then_get_meta:
  assumes "redis_events w = []" "stored_generation w = Some n" "meta_storable rc (mr_api_version r) r"
  shows "\<exists>w'. set_meta rc r (Some (str_nat n)) w = (Inr (), w') \<and> redis_events w' = [] \<and>
     stored_generation w' = Some n \<and>
     get_meta rc (mr_api_version r) w' =
       (Inr \<lparr>lk_value = Some r, lk_generation = Some (str_nat n)\<rparr>, w')"
  using set_then_cache_get [OF assms(1,2), of rc "meta_suffix (mr_api_version r)" "CMeta r" meta_model r
      "rc_meta_ttl rc"] assms(3)
  by (auto simp: meta_storable_def set_meta_def get_meta_def bindM_def keep_if_Some decode_encode_meta)

interpretation item_entries: keyed_cache "get_item rc" "\<lambda>_. set_item rc"
  "\<lambda>i r. ir_game_id r = i" "\<lambda>_. item_encodable rc" "item_storable rc" "factory_ok rc" for rc
proof unfold_locales
  show "safe (redis_faults P) P (set_item rc v g)" if "item_encodable rc v" for P v g
    using that payload_encodes(1) safe_cache_set by (simp add: set_item_def item_encodable_def)
qed (auto intro: lookup_belongs(1) safe_lookups frame_intros dest: set_then_get_item)

interpretation list_entries: keyed_cache "get_list rc" "set_list rc"
  "\<lambda>p r. lr_limit r = p_limit p \<and> lr_offset r = p_offset p" "list_encodable rc" "list_storable rc"
  "factory_ok rc" for rc
proof unfold_locales
  show "safe (redis_faults P) P (set_list rc p v g)" if "list_encodable rc p v" for P p v g
    using that payload_encodes(2) safe_cache_set
    by (auto simp: set_list_def list_encodable_def intro: safe_intros)
qed (auto intro: safe_lookups frame_intros dest: lookup_belongs(2) set_then_get_list)

interpretation meta_entries: keyed_cache "get_meta rc" "\<lambda>_. set_meta rc"
  "\<lambda>a r. mr_api_version r = a" "\<lambda>_. meta_encodable rc" "meta_storable rc" "factory_ok rc" for rc
proof unfold_locales
  show "safe (redis_faults P) P (set_meta rc v g)" if "meta_encodable rc v" for P v g
    using that payload_encodes(3) safe_cache_set by (simp add: set_meta_def meta_encodable_def)
qed (auto intro: lookup_belongs(3) safe_lookups frame_intros dest: set_then_get_meta)

end
