(* ===== verification/ItemsRepository.thy ===== *)
theory ItemsRepository
  imports World ItemsSchemas "HOL-Library.Sublist"
begin

text \<open>
  \<open>app/items/repository.py\<close>: the records it returns, the \<open>ItemRepository\<close> protocol as
  a record of coroutines, and \<open>SqlAlchemyItemRepository\<close>, each method as the meaning
  of the statement it builds on the tables. PostgreSQL's \<open>ILIKE\<close>, \<open>ORDER BY\<close> with its
  placement of NULLs, \<open>OFFSET\<close>/\<open>LIMIT\<close> and scalar subqueries are written out; the
  case folding and the collation of the database locale are parameters.
\<close>

record item_record =
  rec_game_id :: int
  rec_name :: pystr
  rec_description :: pystr
  rec_quality :: "int option"
  rec_item_type :: "pystr option"
  rec_recharge_time :: "pystr option"
  rec_image_url :: pystr
  rec_introduced_in_version :: "pystr option"

record dataset_metadata_record =
  dm_dataset_version :: pystr
  dm_game_version :: "pystr option"
  dm_last_sync :: datetime

record catalog_meta_record =
  cm_items :: int
  cm_metadata :: "dataset_metadata_record option"

text \<open>The protocol \<open>ItemRepository\<close>.\<close>

record item_repository =
  repo_get_catalog_meta :: "catalog_meta_record prog"
  repo_get_by_game_id :: "int \<Rightarrow> item_record option prog"
  repo_list_items ::
    "pystr option \<Rightarrow> int option \<Rightarrow> pystr option \<Rightarrow> pystr option \<Rightarrow> sort_field \<Rightarrow> sort_order \<Rightarrow>
     int \<Rightarrow> int \<Rightarrow> item_record list prog"
  repo_count_items ::
    "pystr option \<Rightarrow> int option \<Rightarrow> pystr option \<Rightarrow> pystr option \<Rightarrow> int prog"
  repo_get_random ::
    "pystr option \<Rightarrow> int option \<Rightarrow> pystr option \<Rightarrow> pystr option \<Rightarrow> item_record option prog"

section \<open>The database locale, ILIKE\<close>

text \<open>\<open>lower\<close> of one character, and the sort key of a text under the collation.\<close>

record pg_locale =
  pg_lower :: "nat \<Rightarrow> nat"
  pg_collate :: "pystr \<Rightarrow> pystr"

text \<open>\<open>text LIKE pattern ESCAPE '\\'\<close>: \<open>%\<close> (37) matches any run, \<open>_\<close> (95) any one
  character, and the escape (92) makes the next character literal. (A pattern
  that ends in the escape is an SQL error; \<open>escape_like\<close> never builds one.)\<close>

fun like_match :: "pystr \<Rightarrow> pystr \<Rightarrow> bool" where
  "like_match [] t = (t = [])"
| "like_match (p # ps) t =
     (if p = 92 then
        (case (ps, t) of (q # qs, c # cs) \<Rightarrow> c = q \<and> like_match qs cs | _ \<Rightarrow> False)
      else if p = 37 then
        like_match ps t \<or> (case t of [] \<Rightarrow> False | _ # cs \<Rightarrow> like_match (p # ps) cs)
      else (case t of [] \<Rightarrow> False | c # cs \<Rightarrow> (p = 95 \<or> c = p) \<and> like_match ps cs))"

text \<open>\<open>ILIKE\<close> lowers both sides.\<close>

definition ilike_match :: "pg_locale \<Rightarrow> pystr \<Rightarrow> pystr \<Rightarrow> bool" where
  "ilike_match loc pat t = like_match (map (pg_lower loc) pat) (map (pg_lower loc) t)"

text \<open>\<open>search.replace("\\", "\\\\").replace("%", "\\%").replace("_", "\\_")\<close>\<close>

definition escape_like :: "pystr \<Rightarrow> pystr" where
  "escape_like s =
     replace_char 95 [92, 95] (replace_char 37 [92, 37] (replace_char 92 [92, 92] s))"

definition search_pattern :: "pystr \<Rightarrow> pystr" where
  "search_pattern s = 37 # escape_like s @ [37]"

section \<open>apply_filters\<close>

definition row_matches ::
  "pg_locale \<Rightarrow> pystr option \<Rightarrow> int option \<Rightarrow> pystr option \<Rightarrow> pystr option \<Rightarrow> item_row \<Rightarrow> bool" where
  "row_matches loc search quality item_type version r \<longleftrightarrow>
     (case search of None \<Rightarrow> True | Some s \<Rightarrow> ilike_match loc (search_pattern s) (it_name r)) \<and>
     (case quality of None \<Rightarrow> True | Some q \<Rightarrow> it_quality r = Some q) \<and>
     (case item_type of None \<Rightarrow> True | Some t \<Rightarrow> it_item_type r = Some t) \<and>
     (case version of None \<Rightarrow> True | Some v \<Rightarrow> it_introduced_in_version r = Some v)"

definition apply_filters ::
  "pg_locale \<Rightarrow> pystr option \<Rightarrow> int option \<Rightarrow> pystr option \<Rightarrow> pystr option \<Rightarrow>
   item_row list \<Rightarrow> item_row list" where
  "apply_filters loc search quality item_type version rows =
     filter (row_matches loc search quality item_type version) rows"

text \<open>The driver refuses to bind a parameter that its SQL type cannot hold.\<close>

definition filter_binds ::
  "pystr option \<Rightarrow> int option \<Rightarrow> pystr option \<Rightarrow> pystr option \<Rightarrow> bool" where
  "filter_binds search quality item_type version \<longleftrightarrow>
     nullable pg_text search \<and> nullable int4 quality \<and> nullable pg_text item_type \<and>
     nullable pg_text version"

section \<open>ORDER BY\<close>

text \<open>\<open>SORT_COLUMNS\<close>: the sort key of a row, \<open>None\<close> for NULL.\<close>

definition sort_column :: "pg_locale \<Rightarrow> sort_field \<Rightarrow> item_row \<Rightarrow> int list option" where
  "sort_column loc f r =
     (case f of
        SortName \<Rightarrow> Some (map int (pg_collate loc (it_name r)))
      | SortQuality \<Rightarrow> map_option (\<lambda>q. [q]) (it_quality r)
      | SortGameId \<Rightarrow> Some [it_game_id r])"

text \<open>\<open>ASC\<close> puts NULLs last, \<open>DESC\<close> first.\<close>

fun nulls_last_le :: "int list option \<Rightarrow> int list option \<Rightarrow> bool" where
  "nulls_last_le _ None = True"
| "nulls_last_le None (Some _) = False"
| "nulls_last_le (Some a) (Some b) = (a \<le> b)"

definition key_le :: "sort_order \<Rightarrow> int list option \<Rightarrow> int list option \<Rightarrow> bool" where
  "key_le ord a b = (case ord of Asc \<Rightarrow> nulls_last_le a b | Desc \<Rightarrow> nulls_last_le b a)"

text \<open>\<open>order_by(ordered, Item.game_id.asc())\<close>\<close>

definition row_le :: "pg_locale \<Rightarrow> sort_field \<Rightarrow> sort_order \<Rightarrow> item_row \<Rightarrow> item_row \<Rightarrow> bool" where
  "row_le loc f ord a b =
     (if sort_column loc f a = sort_column loc f b then it_game_id a \<le> it_game_id b
      else key_le ord (sort_column loc f a) (sort_column loc f b))"

section \<open>SqlAlchemyItemRepository\<close>

definition to_record :: "item_row \<Rightarrow> item_record" where
  "to_record r =
     \<lparr>rec_game_id = it_game_id r, rec_name = it_name r, rec_description = it_description r,
      rec_quality = it_quality r, rec_item_type = it_item_type r,
      rec_recharge_time = it_recharge_time r, rec_image_url = it_image_url r,
      rec_introduced_in_version = it_introduced_in_version r\<rparr>"

definition select_stmt :: "bool \<Rightarrow> (nat \<Rightarrow> database \<Rightarrow> 'a) \<Rightarrow> nat \<Rightarrow> database \<Rightarrow> (exn + 'a) \<times> database" where
  "select_stmt binds q n db = (if binds then Inr (q n db) else Inl SQLAlchemyError, db)"

definition execute :: "'a prog \<Rightarrow> 'a prog" where
  "execute stmt =
     catchM stmt (\<lambda>e. if is_OSError e \<or> e = SQLAlchemyError
                       then Some (raise SERVICE_UNAVAILABLE) else None)"

text \<open>\<open>result.scalar_one_or_none()\<close> raises when the statement returned several rows.\<close>

definition scalar_one_or_none :: "'a list \<Rightarrow> exn + 'a option" where
  "scalar_one_or_none rows =
     (case rows of [] \<Rightarrow> Inr None | [r] \<Rightarrow> Inr (Some r) | _ \<Rightarrow> Inl SQLAlchemyError)"

definition sql_scalar :: "bool \<Rightarrow> (nat \<Rightarrow> database \<Rightarrow> item_row list) \<Rightarrow> item_row option prog" where
  "sql_scalar binds q =
     bindM (execute (db_call (select_stmt binds q))) (\<lambda>rows. liftM (scalar_one_or_none rows))"

definition sql_scalars :: "bool \<Rightarrow> (nat \<Rightarrow> database \<Rightarrow> item_row list) \<Rightarrow> item_row list prog" where
  "sql_scalars binds q = execute (db_call (select_stmt binds q))"

definition sql_get_by_game_id :: "int \<Rightarrow> item_record option prog" where
  "sql_get_by_game_id game_id =
     bindM (sql_scalar (int4 game_id) (\<lambda>_ db. filter (\<lambda>r. it_game_id r = game_id) (items_table db)))
       (\<lambda>item. ret (map_option to_record item))"

text \<open>Rows have no order of their own: a statement meets them in any order, which the event of the
  statement draws, and a sort leaves rows that compare equal in the order in which it met them.\<close>

definition select_page ::
  "nat \<Rightarrow> pg_locale \<Rightarrow> pystr option \<Rightarrow> int option \<Rightarrow> pystr option \<Rightarrow> pystr option \<Rightarrow> sort_field \<Rightarrow>
   sort_order \<Rightarrow> int \<Rightarrow> int \<Rightarrow> database \<Rightarrow> item_row list" where
  "select_page n loc search quality item_type version srt ord limit offset db =
     take (nat limit) (drop (nat offset)
       (sort_by (row_le loc srt ord)
          (apply_filters loc search quality item_type version (permuted n (items_table db)))))"

definition sql_list_items ::
  "pg_locale \<Rightarrow> pystr option \<Rightarrow> int option \<Rightarrow> pystr option \<Rightarrow> pystr option \<Rightarrow> sort_field \<Rightarrow>
   sort_order \<Rightarrow> int \<Rightarrow> int \<Rightarrow> item_record list prog" where
  "sql_list_items loc search quality item_type version srt ord limit offset =
     bindM (sql_scalars (filter_binds search quality item_type version \<and> int8 limit \<and> int8 offset)
              (\<lambda>n. select_page n loc search quality item_type version srt ord limit offset))
       (\<lambda>rows. ret (map to_record rows))"

definition sql_count_items ::
  "pg_locale \<Rightarrow> pystr option \<Rightarrow> int option \<Rightarrow> pystr option \<Rightarrow> pystr option \<Rightarrow> int prog" where
  "sql_count_items loc search quality item_type version =
     execute (db_call (select_stmt (filter_binds search quality item_type version)
       (\<lambda>_ db. int (length (apply_filters loc search quality item_type version (items_table db))))))"

text \<open>\<open>ORDER BY random() LIMIT 1\<close>: some row of the selection, if there is one.\<close>

definition pick :: "nat \<Rightarrow> 'a list \<Rightarrow> 'a list" where
  "pick n rows = (if rows = [] then [] else [rows ! (n mod length rows)])"

definition sql_get_random ::
  "pg_locale \<Rightarrow> pystr option \<Rightarrow> int option \<Rightarrow> pystr option \<Rightarrow> pystr option \<Rightarrow>
   item_record option prog" where
  "sql_get_random loc search quality item_type version =
     bindM (sql_scalar (filter_binds search quality item_type version)
              (\<lambda>n db. pick n (apply_filters loc search quality item_type version (items_table db))))
       (\<lambda>item. ret (map_option to_record item))"

text \<open>A scalar subquery \<open>SELECT column FROM dataset_metadata WHERE id = 1\<close>: NULL without a
  row. The primary key excludes a second one.\<close>

definition metadata_subquery :: "(metadata_row \<Rightarrow> 'a option) \<Rightarrow> database \<Rightarrow> 'a option" where
  "metadata_subquery col db =
     (case filter (\<lambda>m. md_id m = 1) (metadata_table db) of [] \<Rightarrow> None | m # _ \<Rightarrow> col m)"

definition sql_get_catalog_meta :: "catalog_meta_record prog" where
  "sql_get_catalog_meta =
     bindM (execute (db_call (select_stmt True
        (\<lambda>_ db. (int (length (items_table db)),
                 metadata_subquery (\<lambda>m. Some (md_dataset_version m)) db,
                 metadata_subquery md_game_version db,
                 metadata_subquery (\<lambda>m. Some (md_last_sync m)) db)))))
       (\<lambda>(total, dataset_version, game_version, last_sync).
          ret \<lparr>cm_items = total,
               cm_metadata =
                 (case dataset_version of None \<Rightarrow> None
                  | Some dv \<Rightarrow>
                      Some \<lparr>dm_dataset_version = dv, dm_game_version = game_version,
                            dm_last_sync = (case last_sync of None \<Rightarrow> 0 | Some t \<Rightarrow> t)\<rparr>)\<rparr>)"

definition sqlalchemy_item_repository :: "pg_locale \<Rightarrow> item_repository" where
  "sqlalchemy_item_repository loc =
     \<lparr>repo_get_catalog_meta = sql_get_catalog_meta,
      repo_get_by_game_id = sql_get_by_game_id,
      repo_list_items = sql_list_items loc,
      repo_count_items = sql_count_items loc,
      repo_get_random = sql_get_random loc\<rparr>"

section \<open>The search filter is a case-insensitive substring test\<close>

text \<open>A case folding that neither creates nor removes the three special characters.\<close>

definition lower_ok :: "pg_locale \<Rightarrow> bool" where
  "lower_ok loc \<longleftrightarrow>
     (\<forall>c. (pg_lower loc c = 37 \<longleftrightarrow> c = 37) \<and> (pg_lower loc c = 92 \<longleftrightarrow> c = 92) \<and>
          (pg_lower loc c = 95 \<longleftrightarrow> c = 95))"

definition ascii_locale :: pg_locale where
  "ascii_locale = \<lparr>pg_lower = (\<lambda>c. if 65 \<le> c \<and> c \<le> 90 then c + 32 else c), pg_collate = id\<rparr>"

lemma lower_ok_ascii: "lower_ok ascii_locale"
  by (auto simp: lower_ok_def ascii_locale_def)

lemma replace_char_append [simp]: "replace_char c t (xs @ ys) = replace_char c t xs @ replace_char c t ys"
  by (simp add: replace_char_def)

lemma escape_like_simps [simp]:
  "escape_like [] = []"
  "escape_like (c # s) = (if c \<in> {37, 92, 95} then [92, c] else [c]) @ escape_like s"
  by (simp_all add: escape_like_def)

lemma like_percent: "like_match (37 # ps) t \<longleftrightarrow> (\<exists>u v. t = u @ v \<and> like_match ps v)"
proof (induction t)
  case Nil
  then show ?case by simp
next
  case (Cons c t)
  then show ?case by (auto simp: Cons_eq_append_conv)
qed

lemma like_escaped: "like_match (escape_like s @ ps) t \<longleftrightarrow> (\<exists>v. t = s @ v \<and> like_match ps v)"
proof (induction s arbitrary: t)
  case Nil
  then show ?case by simp
next
  case (Cons c s)
  then show ?case by (cases t) auto
qed

lemma like_search_pattern: "like_match (search_pattern s) t \<longleftrightarrow> sublist s t"
  by (auto simp: search_pattern_def like_percent like_escaped sublist_def simp del: like_match.simps(2))

lemma lower_ok_char:
  assumes "lower_ok loc"
  shows "pg_lower loc c = 37 \<longleftrightarrow> c = 37" "pg_lower loc c = 92 \<longleftrightarrow> c = 92"
    "pg_lower loc c = 95 \<longleftrightarrow> c = 95"
  using assms unfolding lower_ok_def by blast+

lemma lower_ok_special:
  assumes "lower_ok loc"
  shows "pg_lower loc 37 = 37" "pg_lower loc 92 = 92" "pg_lower loc 95 = 95"
  using lower_ok_char [OF assms] by simp_all

lemma map_lower_escape_like:
  assumes "lower_ok loc"
  shows "map (pg_lower loc) (escape_like s) = escape_like (map (pg_lower loc) s)"
proof (induction s)
  case (Cons c s)
  then show ?case
    by (auto simp: lower_ok_char [OF assms] lower_ok_special [OF assms])
qed simp

lemma ilike_search_pattern:
  assumes "lower_ok loc"
  shows "ilike_match loc (search_pattern s) t
           \<longleftrightarrow> sublist (map (pg_lower loc) s) (map (pg_lower loc) t)"
proof -
  have "pg_lower loc 37 = 37" using assms by (simp add: lower_ok_def)
  then have "map (pg_lower loc) (search_pattern s) = search_pattern (map (pg_lower loc) s)"
    using map_lower_escape_like [OF assms] by (simp add: search_pattern_def)
  then show ?thesis by (simp add: ilike_match_def like_search_pattern)
qed

section \<open>The order of a listing\<close>

lemma nulls_last_le_total: "nulls_last_le a b \<or> nulls_last_le b a"
  by (cases a; cases b) auto

lemma nulls_last_le_trans: "nulls_last_le a b \<Longrightarrow> nulls_last_le b c \<Longrightarrow> nulls_last_le a c"
  by (cases a; cases b; cases c) auto

lemma nulls_last_le_antisym: "nulls_last_le a b \<Longrightarrow> nulls_last_le b a \<Longrightarrow> a = b"
  by (cases a; cases b) auto

lemma key_le_laws:
  "key_le ord a b \<or> key_le ord b a"
  "key_le ord a b \<Longrightarrow> key_le ord b c \<Longrightarrow> key_le ord a c"
  "key_le ord a b \<Longrightarrow> key_le ord b a \<Longrightarrow> a = b"
  by (cases ord; use nulls_last_le_total nulls_last_le_trans nulls_last_le_antisym in
      \<open>force simp: key_le_def\<close>)+

lemma row_le_total: "row_le loc f ord a b \<or> row_le loc f ord b a"
  using key_le_laws(1) [of ord "sort_column loc f a" "sort_column loc f b"]
  by (auto simp: row_le_def)

lemma row_le_trans:
  "row_le loc f ord a b \<Longrightarrow> row_le loc f ord b c \<Longrightarrow> row_le loc f ord a c"
  using key_le_laws(2) [of ord "sort_column loc f a" "sort_column loc f b" "sort_column loc f c"]
    key_le_laws(3) [of ord "sort_column loc f a" "sort_column loc f b"]
  by (auto simp: row_le_def split: if_splits)

lemma row_le_antisym:
  "row_le loc f ord a b \<Longrightarrow> row_le loc f ord b a \<Longrightarrow> it_game_id a = it_game_id b"
  using key_le_laws(3) [of ord "sort_column loc f a" "sort_column loc f b"]
  by (auto simp: row_le_def split: if_splits)

definition ordered_rows ::
  "pg_locale \<Rightarrow> pystr option \<Rightarrow> int option \<Rightarrow> pystr option \<Rightarrow> pystr option \<Rightarrow> sort_field \<Rightarrow>
   sort_order \<Rightarrow> database \<Rightarrow> item_row list" where
  "ordered_rows loc search quality item_type version srt ord db =
     sort_by (row_le loc srt ord)
       (apply_filters loc search quality item_type version (items_table db))"

text \<open>The page of a listing, whatever the order in which the statement meets the rows.\<close>

definition page_rows ::
  "pg_locale \<Rightarrow> pystr option \<Rightarrow> int option \<Rightarrow> pystr option \<Rightarrow> pystr option \<Rightarrow> sort_field \<Rightarrow>
   sort_order \<Rightarrow> int \<Rightarrow> int \<Rightarrow> database \<Rightarrow> item_row list" where
  "page_rows loc search quality item_type version srt ord limit offset db =
     take (nat limit) (drop (nat offset) (ordered_rows loc search quality item_type version srt ord db))"

lemma ordered_rows_sorted: "sorted_wrt (row_le loc srt ord) (ordered_rows loc s q t v srt ord db)"
  unfolding ordered_rows_def by (rule sorted_sort_by [OF row_le_total row_le_trans])

lemma set_ordered_rows:
  "set (ordered_rows loc s q t v srt ord db) = {r \<in> set (items_table db). row_matches loc s q t v r}"
  by (auto simp: ordered_rows_def apply_filters_def)

lemma length_ordered_rows:
  "length (ordered_rows loc s q t v srt ord db) = length (apply_filters loc s q t v (items_table db))"
  by (simp add: ordered_rows_def)

lemma distinct_ordered_rows: "distinct (items_table db) \<Longrightarrow> distinct (ordered_rows loc s q t v srt ord db)"
  by (simp add: ordered_rows_def apply_filters_def)

lemma db_ok_distinct: "db_ok db \<Longrightarrow> distinct (items_table db)"
  by (auto simp: db_ok_def distinct_map)

text \<open>The order in which the statement meets the rows does not show: with a unique \<open>game_id\<close> the
  tie-break determines the listing.\<close>

lemma sort_by_unique:
  assumes "distinct (map it_game_id rows)" "distinct rows'" "set rows' = set rows"
  shows "sort_by (row_le loc srt ord) rows' = sort_by (row_le loc srt ord) rows"
proof (rule sorted_wrt_unique [OF sorted_sort_by sorted_sort_by])
  show "distinct (sort_by (row_le loc srt ord) rows)" using assms(1) by (simp add: distinct_map)
next
  fix a b
  assume ab: "a \<in> set (sort_by (row_le loc srt ord) rows')" "b \<in> set (sort_by (row_le loc srt ord) rows')"
    and le: "row_le loc srt ord a b" "row_le loc srt ord b a"
  have "it_game_id a = it_game_id b" using le by (rule row_le_antisym)
  then show "a = b" using ab assms(1,3) by (auto simp: distinct_map dest: inj_onD)
qed (simp_all add: row_le_total assms, (rule row_le_trans; assumption)+)

lemma select_page_rows:
  assumes "db_ok db"
  shows "select_page n loc s q t v srt ord limit offset db = page_rows loc s q t v srt ord limit offset db"
proof -
  have "distinct (map it_game_id (apply_filters loc s q t v (items_table db)))"
    using assms by (simp add: db_ok_def apply_filters_def distinct_map_filter)
  then have "sort_by (row_le loc srt ord) (apply_filters loc s q t v (permuted n (items_table db))) =
      ordered_rows loc s q t v srt ord db"
    unfolding ordered_rows_def
    by (rule sort_by_unique) (simp_all add: apply_filters_def db_ok_distinct [OF assms])
  then show ?thesis by (simp add: select_page_def page_rows_def)
qed

text \<open>One row strictly before another: by the sort key, and by \<open>game_id\<close> where the keys are equal.\<close>

definition listed_before :: "pg_locale \<Rightarrow> sort_field \<Rightarrow> sort_order \<Rightarrow> item_row \<Rightarrow> item_row \<Rightarrow> bool" where
  "listed_before loc srt ord a b \<longleftrightarrow>
     (let k = sort_column loc srt a; l = sort_column loc srt b in
      if k = l then it_game_id a < it_game_id b
      else (case ord of Asc \<Rightarrow> nulls_last_le k l | Desc \<Rightarrow> nulls_last_le l k))"

lemma sorted_wrt_strict:
  assumes "sorted_wrt le xs" "distinct xs" "\<And>a b. a \<in> set xs \<Longrightarrow> b \<in> set xs \<Longrightarrow> a \<noteq> b \<Longrightarrow> le a b \<Longrightarrow> lt a b"
  shows "sorted_wrt lt xs"
  using assms by (induction xs) auto

lemma ordered_rows_before:
  assumes "db_ok db"
  shows "sorted_wrt (listed_before loc srt ord) (ordered_rows loc s q t v srt ord db)"
proof (rule sorted_wrt_strict [OF ordered_rows_sorted distinct_ordered_rows [OF db_ok_distinct [OF assms]]])
  fix a b
  assume "a \<in> set (ordered_rows loc s q t v srt ord db)" "b \<in> set (ordered_rows loc s q t v srt ord db)" "a \<noteq> b"
  then have "it_game_id a \<noteq> it_game_id b"
    using assms by (auto simp: set_ordered_rows db_ok_def distinct_map dest: inj_onD)
  moreover assume "row_le loc srt ord a b"
  ultimately show "listed_before loc srt ord a b"
    by (auto simp: row_le_def listed_before_def key_le_def Let_def split: if_splits sort_order.splits)
qed

section \<open>Pagination\<close>

lemma concat_pages:
  "concat (map (\<lambda>k. take n (drop (k * n) xs)) [0..<m]) = take (m * n) xs"
proof (induction m)
  case (Suc m)
  then show ?case by (simp add: take_add [symmetric] add.commute)
qed simp

section \<open>What a method returns\<close>

text \<open>The value of a query is its meaning on a database that the other clients' transactions
  allow, and the error of a failed or refused statement is the service-unavailable error.\<close>

lemma reads_only_select [simp]: "reads_only (select_stmt binds q)"
  by (simp add: reads_only_def select_stmt_def)

lemma db_call_value:
  assumes "db_rely P w" "db_call stmt w = (r, w')" "reads_only stmt"
  shows "db_rely P w' \<and> ((\<exists>n db. P db \<and> r = fst (stmt n db)) \<or> (\<exists>x. r = Inl x \<and> \<not> db_faults (\<lambda>e. e \<noteq> x) w))"
proof -
  have "db_rely P w'" using db_call_rely [OF assms(3)] assms(1,2) by (metis keeps_eq)
  moreover have "(\<exists>n db. P db \<and> r = fst (stmt n db)) \<or> (\<exists>x. r = Inl x \<and> \<not> db_faults (\<lambda>e. e \<noteq> x) w)"
    using assms(1,2)
    by (cases "db_events w")
       (auto simp: db_call_def db_rely_def db_faults_def Let_def split: option.splits prod.splits; metis fst_conv)+
  ultimately show ?thesis by blast
qed

lemma execute_value:
  assumes "db_rely P w" "execute (db_call (select_stmt binds q)) w = (Inr a, w')"
  shows "\<exists>n db. P db \<and> a = q n db \<and> binds \<and> db_rely P w'"
proof -
  have "db_call (select_stmt binds q) w = (Inr a, w')"
    using assms(2) by (auto simp: execute_def catchM_def split: prod.splits sum.splits option.splits if_splits)
  then show ?thesis
    using db_call_value [OF assms(1)] by (fastforce simp: select_stmt_def split: if_splits)
qed

text \<open>The faults a database connection can have: those the repository translates.\<close>

definition database_failure :: "exn \<Rightarrow> bool" where
  "database_failure e \<longleftrightarrow> is_OSError e \<or> e = SQLAlchemyError"

definition db_trusted :: "(database \<Rightarrow> bool) \<Rightarrow> world \<Rightarrow> bool" where
  "db_trusted P w \<longleftrightarrow> db_rely P w \<and> db_faults database_failure w"

lemma safe_execute:
  "safe (db_trusted P) (\<lambda>e. e = SERVICE_UNAVAILABLE) (execute (db_call (select_stmt binds q)))"
proof -
  have "safe (db_faults database_failure) database_failure (db_call (select_stmt binds q))"
    by (rule db_call_safe) (auto simp: select_stmt_def database_failure_def split: if_splits)
  moreover have "keeps (db_rely P) (db_call (select_stmt binds q))"
    by (rule db_call_rely) simp
  ultimately have "safe (db_trusted P) database_failure (db_call (select_stmt binds q))"
    by (auto simp: safe_def keeps_def db_trusted_def)
  then show ?thesis
    unfolding execute_def
    by (rule safe_catchM) (auto simp: database_failure_def intro: safe_intros split: if_splits)
qed

lemma db_only_execute [db_only_intros]: "db_only m \<Longrightarrow> db_only (execute m)"
  by (auto simp: execute_def intro!: db_only_intros split: if_splits)

lemma frame_execute [frame_intros]: "frame sel m \<Longrightarrow> frame sel (execute m)"
  by (auto simp: execute_def intro!: frame_intros split: if_splits)

lemma db_only_option [db_only_intros]:
  "db_only m \<Longrightarrow> (\<And>a. x = Some a \<Longrightarrow> db_only (f a)) \<Longrightarrow>
   db_only (case x of None \<Rightarrow> m | Some a \<Rightarrow> f a)"
  by (cases x) auto

lemma sql_methods_db_only [db_only_intros]:
  "db_only (sql_get_by_game_id i)" "db_only (sql_list_items loc s q t v srt ord l off)"
  "db_only (sql_count_items loc s q t v)" "db_only (sql_get_random loc s q t v)"
  "db_only sql_get_catalog_meta"
  by (auto simp: sql_get_by_game_id_def sql_list_items_def sql_count_items_def sql_get_random_def
      sql_get_catalog_meta_def sql_scalar_def sql_scalars_def intro!: db_only_intros)

lemma sql_methods_frame [frame_intros]:
  "frame redis (sql_get_by_game_id i)" "frame redis_events (sql_get_by_game_id i)"
  "frame redis (sql_list_items loc s q t v srt ord l off)"
  "frame redis_events (sql_list_items loc s q t v srt ord l off)"
  "frame redis (sql_count_items loc s q t v)" "frame redis_events (sql_count_items loc s q t v)"
  "frame redis sql_get_catalog_meta" "frame redis_events sql_get_catalog_meta"
  by (auto simp: sql_get_by_game_id_def sql_list_items_def sql_count_items_def
      sql_get_catalog_meta_def sql_scalar_def sql_scalars_def intro!: frame_intros)

text \<open>At most one row has a given \<open>game_id\<close>.\<close>

definition find_item :: "int \<Rightarrow> database \<Rightarrow> item_row option" where
  "find_item i db = find (\<lambda>r. it_game_id r = i) (items_table db)"

lemma filter_distinct_key:
  "distinct (map f xs) \<Longrightarrow>
   filter (\<lambda>r. f r = k) xs = (case find (\<lambda>r. f r = k) xs of None \<Rightarrow> [] | Some r \<Rightarrow> [r])"
proof (induction xs)
  case (Cons x xs)
  have "filter (\<lambda>r. f r = k) xs = []" if "f x = k"
    using that Cons.prems by (auto simp: filter_empty_conv image_iff)
  then show ?case using Cons by (cases "f x = k") simp_all
qed simp

lemma scalar_by_game_id:
  "db_ok db \<Longrightarrow>
   scalar_one_or_none (filter (\<lambda>r. it_game_id r = i) (items_table db)) = Inr (find_item i db)"
  by (simp add: db_ok_def filter_distinct_key find_item_def scalar_one_or_none_def split: option.split)

lemma get_by_game_id_value:
  assumes "db_rely P w" "\<And>db. P db \<Longrightarrow> db_ok db" "sql_get_by_game_id i w = (Inr x, w')"
  shows "\<exists>db. P db \<and> x = map_option to_record (find_item i db) \<and> db_rely P w'"
  using assms(3) unfolding sql_get_by_game_id_def sql_scalar_def
  by (fastforce elim!: bindM_eq_InrE dest!: execute_value [OF assms(1)]
      simp: scalar_by_game_id [OF assms(2)])

lemma list_items_value:
  assumes "db_rely P w" "\<And>db. P db \<Longrightarrow> db_ok db" "sql_list_items loc s q t v srt ord limit offset w = (Inr xs, w')"
  shows "\<exists>db. P db \<and> db_rely P w' \<and>
     xs = map to_record (page_rows loc s q t v srt ord limit offset db)"
  using assms(3) unfolding sql_list_items_def sql_scalars_def
  by (auto elim!: bindM_eq_InrE dest!: execute_value [OF assms(1)] simp: select_page_rows [OF assms(2)])

lemma count_items_value:
  assumes "db_rely P w" "sql_count_items loc s q t v w = (Inr n, w')"
  shows "\<exists>db. P db \<and> db_rely P w' \<and> n = int (length (apply_filters loc s q t v (items_table db)))"
  using execute_value [OF assms(1) assms(2) [unfolded sql_count_items_def]] by blast

text \<open>The catalogue's metadata: one statement, so the count and the metadata row belong to
  one state of the database.\<close>

definition catalog_meta_of :: "database \<Rightarrow> catalog_meta_record" where
  "catalog_meta_of db =
     \<lparr>cm_items = int (length (items_table db)),
      cm_metadata = (case metadata_table db of [] \<Rightarrow> None
         | m # _ \<Rightarrow> Some \<lparr>dm_dataset_version = md_dataset_version m,
                          dm_game_version = md_game_version m, dm_last_sync = md_last_sync m\<rparr>)\<rparr>"

lemma catalog_meta_value:
  assumes "db_rely P w" "\<And>db. P db \<Longrightarrow> db_ok db" "sql_get_catalog_meta w = (Inr x, w')"
  shows "\<exists>db. P db \<and> db_rely P w' \<and> x = catalog_meta_of db"
proof -
  have meaning: "\<lparr>cm_items = int (length (items_table db)),
      cm_metadata = (case metadata_subquery (\<lambda>m. Some (md_dataset_version m)) db of None \<Rightarrow> None
        | Some dv \<Rightarrow> Some \<lparr>dm_dataset_version = dv,
            dm_game_version = metadata_subquery md_game_version db,
            dm_last_sync = (case metadata_subquery (\<lambda>m. Some (md_last_sync m)) db of
                None \<Rightarrow> 0 | Some t \<Rightarrow> t)\<rparr>)\<rparr> = catalog_meta_of db" if "P db" for db
    using metadata_singleton [OF assms(2) [OF that]]
    by (auto simp: catalog_meta_of_def metadata_subquery_def)
  from assms(3) show ?thesis
    unfolding sql_get_catalog_meta_def
    by (auto elim!: bindM_eq_InrE dest!: execute_value [OF assms(1)] simp: meaning)
qed

end
