(* ===== verification/ItemsService.thy ===== *)
theory ItemsService
  imports CacheContract ItemsRepository
begin

text \<open>
  \<open>app/items/service.py\<close>: \<open>ItemService\<close> over the protocols \<open>ItemRepository\<close> and
  \<open>ItemCache\<close>. Its three cached operations follow one pattern, cache-aside with a
  fail-open cache, which is stated as \<open>cache_aside\<close> and proved once for every cache
  that meets the contract \<open>keyed_cache\<close>.
\<close>

section \<open>The protocol ItemCache\<close>

record item_cache =
  ic_get_item :: "int \<Rightarrow> item_response cache_lookup prog"
  ic_set_item :: "item_response \<Rightarrow> pystr option \<Rightarrow> unit prog"
  ic_get_list :: "item_list_params \<Rightarrow> item_list_response cache_lookup prog"
  ic_set_list :: "item_list_params \<Rightarrow> item_list_response \<Rightarrow> pystr option \<Rightarrow> unit prog"
  ic_get_meta :: "pystr \<Rightarrow> meta_response cache_lookup prog"
  ic_set_meta :: "meta_response \<Rightarrow> pystr option \<Rightarrow> unit prog"

definition redis_cache :: "redis_item_cache \<Rightarrow> item_cache" where
  "redis_cache rc =
     \<lparr>ic_get_item = get_item rc, ic_set_item = set_item rc,
      ic_get_list = get_list rc, ic_set_list = set_list rc,
      ic_get_meta = get_meta rc, ic_set_meta = set_meta rc\<rparr>"

record item_service =
  svc_repository :: item_repository
  svc_cache :: item_cache

section \<open>The service\<close>

definition CACHE_FAILURES :: "exn \<Rightarrow> bool" where
  "CACHE_FAILURES e \<longleftrightarrow>
     is_OSError e \<or> e = TimeoutError \<or> e = RedisConnectionError \<or> e = RedisTimeoutError \<or>
     e = ResponseError"

definition cache_failure_entry :: "pystr \<Rightarrow> pystr \<Rightarrow> exn \<Rightarrow> log_entry" where
  "cache_failure_entry operation resource e =
     log_entry_of (lit ''app.cache'') (lit ''WARNING'') (lit ''cache_operation_failed'')
       [(lit ''dependency'', JStr (lit ''redis'')),
        (lit ''cache_operation'', JStr operation),
        (lit ''cache_resource'', JStr resource),
        (lit ''exception_type'', JStr (type_name e))]"

definition log_cache_failure :: "pystr \<Rightarrow> pystr \<Rightarrow> exn \<Rightarrow> unit prog" where
  "log_cache_failure operation resource e = emit (cache_failure_entry operation resource e)"

definition cache_read :: "'a cache_lookup prog \<Rightarrow> pystr \<Rightarrow> 'a cache_lookup option prog" where
  "cache_read operation resource =
     catchM (bindM operation (\<lambda>l. ret (Some l)))
       (\<lambda>e. if CACHE_FAILURES e
             then Some (bindM (log_cache_failure (lit ''read'') resource e) (\<lambda>_. ret None)) else None)"

definition cache_write :: "unit prog \<Rightarrow> pystr \<Rightarrow> unit prog" where
  "cache_write operation resource =
     catchM operation
       (\<lambda>e. if CACHE_FAILURES e then Some (log_cache_failure (lit ''write'') resource e) else None)"

definition to_item_response :: "item_record \<Rightarrow> item_response" where
  "to_item_response item =
     \<lparr>ir_game_id = rec_game_id item, ir_name = rec_name item, ir_description = rec_description item,
      ir_quality = rec_quality item, ir_type = rec_item_type item,
      ir_recharge_time = rec_recharge_time item, ir_image_url = rec_image_url item,
      ir_introduced_in_version = rec_introduced_in_version item\<rparr>"

definition item_not_found :: "pystr \<Rightarrow> exn" where
  "item_not_found msg = AppError 404 (lit ''ITEM_NOT_FOUND'') msg"

definition cached :: "'a cache_lookup option \<Rightarrow> 'a option" where
  "cached l = (case l of None \<Rightarrow> None | Some k \<Rightarrow> lk_value k)"

definition svc_get_by_game_id :: "item_service \<Rightarrow> int \<Rightarrow> item_response prog" where
  "svc_get_by_game_id svc game_id =
     bindM (cache_read (ic_get_item (svc_cache svc) game_id) (lit ''item'')) (\<lambda>lookup.
       case cached lookup of Some v \<Rightarrow> ret v
       | None \<Rightarrow>
           bindM (repo_get_by_game_id (svc_repository svc) game_id) (\<lambda>found.
             case found of
               None \<Rightarrow> raise (item_not_found (lit ''Item '' @ str_int game_id @ lit '' does not exist''))
             | Some item \<Rightarrow>
                 let response = to_item_response item in
                 bindM (case lookup of None \<Rightarrow> ret ()
                        | Some k \<Rightarrow> cache_write
                            (ic_set_item (svc_cache svc) response (lk_generation k)) (lit ''item''))
                   (\<lambda>_. ret response)))"

definition load_list :: "item_repository \<Rightarrow> item_list_params \<Rightarrow> item_list_response prog" where
  "load_list repo params =
     bindM (repo_list_items repo (p_search params) (p_quality params) (p_type params)
              (p_version params) (p_sort params) (p_order params) (p_limit params) (p_offset params))
       (\<lambda>items.
          bindM (repo_count_items repo (p_search params) (p_quality params) (p_type params)
                   (p_version params))
            (\<lambda>total. ret \<lparr>lr_items = map to_item_response items, lr_total = total,
                           lr_limit = p_limit params, lr_offset = p_offset params\<rparr>))"

definition svc_list_items :: "item_service \<Rightarrow> item_list_params \<Rightarrow> item_list_response prog" where
  "svc_list_items svc params =
     bindM (cache_read (ic_get_list (svc_cache svc) params) (lit ''list'')) (\<lambda>lookup.
       case cached lookup of Some v \<Rightarrow> ret v
       | None \<Rightarrow>
           bindM (load_list (svc_repository svc) params) (\<lambda>response.
             bindM (case lookup of None \<Rightarrow> ret ()
                    | Some k \<Rightarrow> cache_write
                        (ic_set_list (svc_cache svc) params response (lk_generation k)) (lit ''list''))
               (\<lambda>_. ret response)))"

definition svc_get_random :: "item_service \<Rightarrow> 'a item_filter_params_scheme \<Rightarrow> item_response prog" where
  "svc_get_random svc params =
     bindM (repo_get_random (svc_repository svc) (p_search params) (p_quality params) (p_type params)
              (p_version params))
       (\<lambda>found. case found of
            None \<Rightarrow> raise (item_not_found (lit ''No item matches the given filters''))
          | Some item \<Rightarrow> ret (to_item_response item))"

definition meta_response_of :: "pystr \<Rightarrow> catalog_meta_record \<Rightarrow> meta_response" where
  "meta_response_of api_version catalog_meta =
     \<lparr>mr_api_version = api_version,
      mr_dataset_version = map_option dm_dataset_version (cm_metadata catalog_meta),
      mr_game_version = Option.bind (cm_metadata catalog_meta) dm_game_version,
      mr_last_sync = map_option dm_last_sync (cm_metadata catalog_meta),
      mr_items = cm_items catalog_meta\<rparr>"

definition svc_get_meta :: "item_service \<Rightarrow> pystr \<Rightarrow> meta_response prog" where
  "svc_get_meta svc api_version =
     bindM (cache_read (ic_get_meta (svc_cache svc) api_version) (lit ''meta'')) (\<lambda>lookup.
       case cached lookup of Some v \<Rightarrow> ret v
       | None \<Rightarrow>
           bindM (repo_get_catalog_meta (svc_repository svc)) (\<lambda>catalog_meta.
             let response = meta_response_of api_version catalog_meta in
             bindM (case lookup of None \<Rightarrow> ret ()
                    | Some k \<Rightarrow> cache_write
                        (ic_set_meta (svc_cache svc) response (lk_generation k)) (lit ''meta''))
               (\<lambda>_. ret response)))"

section \<open>Cache-aside\<close>

text \<open>The specification the three cached operations share: answer from the cache, or load,
  offer the loaded value to the cache, and answer with it.\<close>

definition cache_aside ::
  "pystr \<Rightarrow> 'v cache_lookup prog \<Rightarrow> ('v \<Rightarrow> pystr option \<Rightarrow> unit prog) \<Rightarrow> 'v prog \<Rightarrow> 'v prog" where
  "cache_aside resource lookup store load =
     bindM (cache_read lookup resource) (\<lambda>l.
       case cached l of Some v \<Rightarrow> ret v
       | None \<Rightarrow>
           bindM load (\<lambda>r.
             bindM (case l of None \<Rightarrow> ret ()
                    | Some k \<Rightarrow> cache_write (store r (lk_generation k)) resource)
               (\<lambda>_. ret r)))"

definition load_item :: "item_repository \<Rightarrow> int \<Rightarrow> item_response prog" where
  "load_item repo game_id =
     bindM (repo_get_by_game_id repo game_id) (\<lambda>found.
       case found of
         None \<Rightarrow> raise (item_not_found (lit ''Item '' @ str_int game_id @ lit '' does not exist''))
       | Some item \<Rightarrow> ret (to_item_response item))"

definition load_meta :: "item_repository \<Rightarrow> pystr \<Rightarrow> meta_response prog" where
  "load_meta repo api_version =
     bindM (repo_get_catalog_meta repo) (\<lambda>m. ret (meta_response_of api_version m))"

lemma service_is_cache_aside:
  "svc_get_by_game_id svc i =
     cache_aside (lit ''item'') (ic_get_item (svc_cache svc) i) (ic_set_item (svc_cache svc))
       (load_item (svc_repository svc) i)"
  "svc_list_items svc p =
     cache_aside (lit ''list'') (ic_get_list (svc_cache svc) p) (ic_set_list (svc_cache svc) p)
       (load_list (svc_repository svc) p)"
  "svc_get_meta svc a =
     cache_aside (lit ''meta'') (ic_get_meta (svc_cache svc) a) (ic_set_meta (svc_cache svc))
       (load_meta (svc_repository svc) a)"
  by (auto simp: svc_get_by_game_id_def svc_list_items_def svc_get_meta_def cache_aside_def
      load_item_def load_meta_def bindM_assoc Let_def fun_eq_iff bindM_def
      split: prod.split sum.split option.split)

lemma frame_cache_read:
  "frame database m \<Longrightarrow> frame database (cache_read m r)"
  "frame db_events m \<Longrightarrow> frame db_events (cache_read m r)"
  by (auto simp: cache_read_def log_cache_failure_def intro!: frame_intros split: if_splits)

lemma frame_cache_write:
  "frame database m \<Longrightarrow> frame database (cache_write m r)"
  "frame db_events m \<Longrightarrow> frame db_events (cache_write m r)"
  by (auto simp: cache_write_def log_cache_failure_def intro!: frame_intros split: if_splits)

lemma safe_cache_write:
  assumes "safe (redis_faults CACHE_FAILURES) CACHE_FAILURES m"
  shows "safe (redis_faults CACHE_FAILURES) (\<lambda>_. False) (cache_write m r)"
  unfolding cache_write_def
  by (rule safe_catchM [OF assms]) (auto simp: log_cache_failure_def intro: safe_intros split: if_splits)

lemma safe_cache_read:
  assumes "safe (redis_faults CACHE_FAILURES) CACHE_FAILURES m"
  shows "safe (redis_faults CACHE_FAILURES) (\<lambda>_. False) (cache_read m r)"
  unfolding cache_read_def
  by (rule safe_catchM [where Q = CACHE_FAILURES])
     (auto simp: log_cache_failure_def intro!: safe_intros assms split: if_splits)

text \<open>A failed read or write of the cache leaves a log record and nothing else.\<close>

lemma cache_read_value:
  "cache_read m r w = (Inr l, w') \<Longrightarrow> cached l = Some v \<Longrightarrow>
   \<exists>k. m w = (Inr k, w') \<and> l = Some k \<and> lk_value k = Some v"
  by (auto simp: cache_read_def catchM_def bindM_def log_cache_failure_def emit_def cached_def
      split: prod.splits sum.splits if_splits option.splits)

lemma cache_read_fault:
  "m w = (Inl e, w') \<Longrightarrow> CACHE_FAILURES e \<Longrightarrow>
   cache_read m r w = (Inr None, w'\<lparr>logs := logs w' @ [cache_failure_entry (lit ''read'') r e]\<rparr>)"
  by (simp add: cache_read_def catchM_def bindM_def log_cache_failure_def emit_def)

lemma cache_read_ok: "m w = (Inr l, w') \<Longrightarrow> cache_read m r w = (Inr (Some l), w')"
  by (simp add: cache_read_def catchM_def bindM_def)

lemma cache_write_ok: "m w = (Inr (), w') \<Longrightarrow> cache_write m r w = (Inr (), w')"
  by (simp add: cache_write_def catchM_def)

text \<open>The part of \<open>cache_aside\<close> after a miss.\<close>

definition fill_cache :: "pystr \<Rightarrow> ('v \<Rightarrow> pystr option \<Rightarrow> unit prog) \<Rightarrow> 'v cache_lookup option \<Rightarrow> 'v \<Rightarrow> unit prog" where
  "fill_cache resource store l r =
     (case l of None \<Rightarrow> ret () | Some k \<Rightarrow> cache_write (store r (lk_generation k)) resource)"

lemma cache_aside_miss:
  assumes "cache_read lookup resource w = (Inr l, w1)" "cached l = None"
  shows "cache_aside resource lookup store load w =
    bindM load (\<lambda>r. bindM (fill_cache resource store l r) (\<lambda>_. ret r)) w1"
  using assms by (simp add: cache_aside_def fill_cache_def bindM_Inr)

context keyed_cache
begin

text \<open>A hit belongs to the key, and the database is not consulted.\<close>

lemma aside_hit:
  assumes "lookup k w = (Inr l, w')" "lk_value l = Some v"
  shows "cache_aside resource (lookup k) (store k) load w = (Inr v, w')" "belongs k v"
    "database w' = database w" "db_events w' = db_events w"
  using assms cache_read_ok [of "lookup k" w l w' resource, OF assms(1)] hit_belongs [OF assms]
    frame_eq [OF lookup_frame(1) assms(1)] frame_eq [OF lookup_frame(2) assms(1)]
  by (simp_all add: cache_aside_def bindM_def cached_def)

text \<open>The cache never makes an operation fail, and never changes what the database would
  have answered: the outcome is a hit or the outcome of the load itself.\<close>

lemma aside_outcome:
  assumes ready: "ready" "redis_faults CACHE_FAILURES w"
    and load: "db_only load" "frame redis_events load"
    and enc: "\<And>v. result load w = Inr v \<Longrightarrow> encodable k v"
  shows "(\<exists>l v w'. lookup k w = (Inr l, w') \<and> lk_value l = Some v \<and> belongs k v \<and>
            cache_aside resource (lookup k) (store k) load w = (Inr v, w')) \<or>
         result (cache_aside resource (lookup k) (store k) load) w = result load w"
proof -
  obtain l0 w1 where read: "cache_read (lookup k) resource w = (l0, w1)" by fastforce
  have safe_read: "safe (redis_faults CACHE_FAILURES) (\<lambda>_. False) (cache_read (lookup k) resource)"
    by (rule safe_cache_read [OF lookup_safe [OF ready(1)]])
  then obtain l where l: "l0 = Inr l" using safeD [OF safe_read ready(2)] read by (cases l0) auto
  have faults1: "redis_faults CACHE_FAILURES w1" by (rule safe_state [OF safe_read ready(2) read])
  show ?thesis
  proof (cases "cached l")
    case (Some v)
    then obtain k' where "lookup k w = (Inr k', w1)" "lk_value k' = Some v"
      using cache_read_value [of "lookup k" resource w l w1 v] read l by blast
    then show ?thesis using aside_hit [of k w k' w1 v] by blast
  next
    case None
    have same: "database w1 = database w" "db_events w1 = db_events w"
      using frame_eq [OF frame_cache_read(1) [OF lookup_frame(1)] read]
        frame_eq [OF frame_cache_read(2) [OF lookup_frame(2)] read] by auto
    have load1: "result load w1 = result load w"
      using db_only_outcome [OF load(1) same] by blast
    have "result (cache_aside resource (lookup k) (store k) load) w = result load w"
    proof (cases "result load w")
      case (Inl e)
      then obtain w2 where "load w1 = (Inl e, w2)" using load1 by (metis prod.collapse)
      then show ?thesis
        using Inl by (simp add: cache_aside_miss [OF read [unfolded l] None] bindM_def)
    next
      case (Inr v)
      then obtain w2 where run: "load w1 = (Inr v, w2)" using load1 by (metis prod.collapse)
      have safe_fill: "safe (redis_faults CACHE_FAILURES) (\<lambda>_. False) (fill_cache resource (store k) l v)"
        using safe_cache_write [OF store_safe [OF enc [OF Inr]]]
        by (auto simp: fill_cache_def intro: safe_intros split: option.split)
      have "redis_faults CACHE_FAILURES w2"
        using faults1 frame_eq [OF load(2) run] by (simp add: redis_faults_def)
      moreover obtain u w3 where fill: "fill_cache resource (store k) l v w2 = (u, w3)" by fastforce
      ultimately have "u = Inr ()" using safeD [OF safe_fill] by (cases u) auto
      then show ?thesis
        using Inr run fill by (simp add: cache_aside_miss [OF read [unfolded l] None] bindM_def)
    qed
    then show ?thesis by blast
  qed
qed

text \<open>When the services are calm, a miss fills the cache: the next operation on the key is
  answered from it, whatever its load would do.\<close>

lemma aside_stores:
  assumes calm: "redis_events w1 = []" "stored_generation w1 = Some n"
    and miss: "lookup k w = (Inr \<lparr>lk_value = None, lk_generation = Some (str_nat n)\<rparr>, w1)"
    and load: "load w1 = (Inr v, w2)" "redis w2 = redis w1" "redis_events w2 = []"
    and v: "storable_at k v" "belongs k v"
  shows "\<exists>w3. cache_aside resource (lookup k) (store k) load w = (Inr v, w3) \<and>
     lookup k w3 = (Inr \<lparr>lk_value = Some v, lk_generation = Some (str_nat n)\<rparr>, w3)"
proof -
  have "stored_generation w2 = Some n"
    using calm(2) load(2) by (simp add: stored_generation_def)
  then obtain w3 where w3: "store k v (Some (str_nat n)) w2 = (Inr (), w3)"
      "lookup k w3 = (Inr \<lparr>lk_value = Some v, lk_generation = Some (str_nat n)\<rparr>, w3)"
    using store_hit [OF load(3) _ v] by blast
  have "cache_aside resource (lookup k) (store k) load w = (Inr v, w3)"
    using cache_aside_miss [OF cache_read_ok [where m = "lookup k", OF miss]] load(1)
      cache_write_ok [where m = "store k v (Some (str_nat n))", OF w3(1)]
    by (simp add: cached_def bindM_def fill_cache_def)
  then show ?thesis using w3(2) by auto
qed

end

end
