(* ===== verification/CacheGenerations.thy ===== *)
theory CacheGenerations
  imports CacheContract
begin

text \<open>
  Generations over time: what \<open>invalidate\<close> does, that no method of the cache ever
  lowers the generation or stores an unbounded entry, whatever the other clients
  do and whichever calls fail, and where the value of a hit comes from. The last
  section turns this into the rule used for coherence: a property of the values
  stored under the generations from \<open>n\<close> on is a property of every hit.
\<close>

section \<open>Incrementing a generation\<close>

lemma str_nat_0: "str_nat 0 = [48]"
  by (simp add: str_nat.simps)

lemma canonical_int_str_nat:
  assumes "n \<le> MAX_GENERATION"
  shows "canonical_int (str_nat n) = Some (int n)"
proof -
  have "\<not> (case str_nat n of [] \<Rightarrow> False | c # _ \<Rightarrow> c = 45)"
    using str_nat_set [of 45 n] by (cases "str_nat n") (auto simp: digit_char_def)
  moreover have "hd (str_nat n) \<noteq> 48 \<or> str_nat n = [48]"
    using str_nat_hd [of n] by (cases "n = 0") (auto simp: str_nat_0)
  ultimately show ?thesis
    using assms generation_length [OF assms]
    by (auto simp: canonical_int_def Let_def int8_def split: list.splits)
qed

lemma redis_incr_generation:
  assumes "st k = Some (str_nat n, ttl)" "n < MAX_GENERATION"
  shows "redis_incr k st = (Inr (int n + 1), st(k \<mapsto> (str_nat (Suc n), ttl)))"
proof -
  have "str_int (int n + 1) = str_nat (Suc n)"
    by (simp add: str_int_def nat_add_distrib)
  then show ?thesis
    using assms canonical_int_str_nat [of n]
    by (simp add: redis_incr_def int8_def)
qed

lemma redis_incr_exhausted:
  "st k = Some (str_nat MAX_GENERATION, ttl) \<Longrightarrow> redis_incr k st = (Inl ResponseError, st)"
  using canonical_int_str_nat [of MAX_GENERATION] by (simp add: redis_incr_def int8_def)

lemma invalidate_calm:
  assumes "redis_events w = []" "stored_generation w = Some n" "n < MAX_GENERATION"
  shows "\<exists>ttl. invalidate rc w =
     (Inr (int n + 1), w\<lparr>redis := (redis w)(CACHE_GENERATION_KEY \<mapsto> (str_nat (Suc n), ttl))\<rparr>)"
proof -
  obtain ttl where "redis w CACHE_GENERATION_KEY = Some (str_nat n, ttl)"
    using stored_generationD [OF assms(2)] by blast
  then show ?thesis
    using assms
    by (simp add: invalidate_def bindM_def cache_generation_calm client_incr_def redis_call_def
        redis_incr_generation) blast
qed

section \<open>What every method preserves\<close>

text \<open>A predicate on the store is preserved by the reads when it survives the creation of a
  missing generation, by a write when it survives the entry written, and by an
  invalidation when it also survives the increment.\<close>

definition survives_creation :: "(redis_store \<Rightarrow> bool) \<Rightarrow> bool" where
  "survives_creation P \<longleftrightarrow>
     (\<forall>st n. P st \<longrightarrow> st CACHE_GENERATION_KEY = None \<longrightarrow> n \<le> MAX_GENERATION \<longrightarrow>
        P (st(CACHE_GENERATION_KEY \<mapsto> (str_nat n, None))))"

definition survives_entry :: "(redis_store \<Rightarrow> bool) \<Rightarrow> redis_item_cache \<Rightarrow> pystr \<Rightarrow> cached_value \<Rightarrow> int \<Rightarrow> pystr \<Rightarrow> bool" where
  "survives_entry P rc s v ttl g \<longleftrightarrow>
     (\<forall>st b. P st \<longrightarrow> utf8_encode (encode_payload rc s v) = Some b \<longrightarrow>
        length b \<le> MAX_CACHE_PAYLOAD_BYTES \<longrightarrow> P (st(cache_key g s \<mapsto> (b, Some ttl))))"

definition survives_incr :: "(redis_store \<Rightarrow> bool) \<Rightarrow> bool" where
  "survives_incr P \<longleftrightarrow> (\<forall>st. P st \<longrightarrow> P (snd (redis_incr CACHE_GENERATION_KEY st)))"

lemma keeps_client_getrange [keeps_intros]: "keeps (redis_rely P) (client_getrange rc n a b)"
  by (auto simp: client_getrange_def redis_getrange_def intro!: keeps_intros split: option.split)

lemma keeps_log_invalid [keeps_intros]:
  "keeps (redis_rely P) log_invalid_payload" "keeps (redis_rely P) (miss g)"
  "keeps (redis_rely P) (invalid_miss g)"
  by (auto simp: log_invalid_payload_def miss_def invalid_miss_def intro!: keeps_intros)

lemma keeps_read_generation [keeps_intros]: "keeps (redis_rely P) (read_generation rc)"
  by (auto simp: read_generation_def intro!: keeps_intros split: if_splits)

lemma keeps_checked_generation [keeps_intros]: "keeps (redis_rely P) (checked_generation v)"
  by (auto simp: checked_generation_def intro!: keeps_intros)

lemma parse_candidate:
  assumes "parse_generation_text (str_int i) \<noteq> None"
  shows "\<exists>n \<le> MAX_GENERATION. str_int i = str_nat n"
proof -
  have "isdigit (str_int i)" "int_of_digits (str_int i) \<le> MAX_GENERATION"
    using assms by (auto simp: parse_generation_text_def split: if_splits)
  then show ?thesis
    by (cases "i < 0") (auto simp: str_int_def isdigit_def digit_char_def)
qed

lemma set_nx_survives:
  assumes "survives_creation P" "n \<le> MAX_GENERATION" "P st"
  shows "P (snd (redis_set CACHE_GENERATION_KEY (str_nat n) None True st))"
  using assms
  by (cases "st CACHE_GENERATION_KEY")
     (auto simp: redis_set_def survives_creation_def utf8_encode_ascii)

lemma keeps_offer_generation:
  assumes "survives_creation P" "n \<le> MAX_GENERATION"
  shows "keeps (redis_rely P) (offer_generation rc (str_nat n))"
  unfolding offer_generation_def client_set_def
  by (intro keeps_bindM redis_call_rely set_nx_survives [OF assms] keeps_if keeps_option
      keeps_read_generation keeps_checked_generation keeps_run)

lemma keeps_cache_generation [keeps_intros]:
  assumes "survives_creation P"
  shows "keeps (redis_rely P) (cache_generation rc)"
proof -
  have "keeps (redis_rely P) (let candidate = str_int i in
       if parse_generation (RStr candidate) = None
       then raise (ValueError (lit ''cache generation factory returned an invalid value''))
       else offer_generation rc candidate)" for i
    using parse_candidate [of i] keeps_offer_generation [OF assms]
    by (auto simp: Let_def intro!: keeps_intros)
  then show ?thesis
    unfolding cache_generation_def
    by (intro keeps_bindM keeps_read_generation keeps_option keeps_run keeps_if redis_rely_frame
        keeps_checked_generation)
qed

lemma keeps_cache_get:
  assumes "survives_creation P"
  shows "keeps (redis_rely P) (cache_get rc s m)"
  using assms
  by (auto simp: cache_get_def read_payload_def validated_lookup_def intro!: keeps_intros split: if_splits)

lemma keeps_keep_if [keeps_intros]: "keeps (redis_rely P) (keep_if ok l)"
  by (auto simp: keep_if_def intro!: keeps_intros)

lemma keeps_lookups:
  assumes "survives_creation P"
  shows "keeps (redis_rely P) (get_item rc i)" "keeps (redis_rely P) (get_list rc p)"
    "keeps (redis_rely P) (get_meta rc a)"
  using assms by (auto simp: get_item_def get_list_def get_meta_def intro!: keeps_intros keeps_cache_get)

lemma keeps_cache_set:
  assumes "survives_entry P rc s v ttl g"
  shows "keeps (redis_rely P) (cache_set rc s v ttl (Some g))"
  using assms
  by (auto simp: cache_set_def survives_entry_def Let_def client_set_def redis_set_def
      intro!: keeps_intros split: option.split)

lemma keeps_invalidate:
  assumes "survives_creation P" "survives_incr P"
  shows "keeps (redis_rely P) (invalidate rc)"
  using assms
  by (auto simp: invalidate_def client_incr_def survives_incr_def intro!: keeps_intros)

section \<open>The generation never decreases\<close>

definition generation_from :: "nat \<Rightarrow> redis_store \<Rightarrow> bool" where
  "generation_from n st \<longleftrightarrow>
     (\<exists>m ttl. n \<le> m \<and> m \<le> MAX_GENERATION \<and> st CACHE_GENERATION_KEY = Some (str_nat m, ttl))"

lemma generation_from_survives:
  "survives_creation (generation_from n)" "survives_entry (generation_from n) rc s v ttl g"
  by (auto simp: survives_creation_def survives_entry_def generation_from_def)

lemma generation_from_incr:
  assumes "generation_from n st"
  shows "generation_from n (snd (redis_incr CACHE_GENERATION_KEY st))"
proof -
  obtain m ttl where m: "n \<le> m" "m \<le> MAX_GENERATION"
      "st CACHE_GENERATION_KEY = Some (str_nat m, ttl)"
    using assms unfolding generation_from_def by blast
  show ?thesis
  proof (cases "m = MAX_GENERATION")
    case True
    then show ?thesis using m redis_incr_exhausted [of st CACHE_GENERATION_KEY ttl] assms by simp
  next
    case False
    then have "redis_incr CACHE_GENERATION_KEY st =
        (Inr (int m + 1), st(CACHE_GENERATION_KEY \<mapsto> (str_nat (Suc m), ttl)))"
      using m by (intro redis_incr_generation) auto
    then show ?thesis
      using m False unfolding generation_from_def
      by (auto intro!: exI [of _ "Suc m"])
  qed
qed

lemma generation_from_survives_incr: "survives_incr (generation_from n)"
  by (simp add: survives_incr_def generation_from_incr)

section \<open>Every entry is bounded\<close>

definition cache_prefix :: pystr where
  "cache_prefix = lit ''cache:'' @ CACHE_KEY_VERSION @ lit '':''"

definition entries_bounded :: "redis_store \<Rightarrow> bool" where
  "entries_bounded st \<longleftrightarrow>
     (\<forall>k b ttl. startswith k cache_prefix \<longrightarrow> st k = Some (b, ttl) \<longrightarrow>
        length b \<le> MAX_CACHE_PAYLOAD_BYTES \<and>
        (\<exists>s. ttl = Some s \<and> 0 < s \<and> s \<le> MAX_CACHE_TTL_SECONDS))"

definition ttls_ok :: "redis_item_cache \<Rightarrow> bool" where
  "ttls_ok rc \<longleftrightarrow>
     (\<forall>t \<in> {rc_item_ttl rc, rc_list_ttl rc, rc_meta_ttl rc}. 0 < t \<and> t \<le> MAX_CACHE_TTL_SECONDS)"

lemma validate_ttl_bounds: "validate_ttl n v = Inr t \<Longrightarrow> v = PyInt t \<and> 0 < t \<and> t \<le> MAX_CACHE_TTL_SECONDS"
  by (auto simp: validate_ttl_def split: pyobj.splits if_splits)

lemma make_cache_ttls:
  "make_redis_item_cache pd sha depth decode factory a b c = Inr rc \<Longrightarrow> ttls_ok rc"
  by (auto simp: make_redis_item_cache_def ttls_ok_def split: sum.splits dest: validate_ttl_bounds)

lemma generation_key_no_entry: "\<not> startswith CACHE_GENERATION_KEY cache_prefix"
  by (simp add: CACHE_GENERATION_KEY_def cache_prefix_def CACHE_KEY_VERSION_def lit_def)

lemma entries_bounded_survives:
  "survives_creation entries_bounded" "survives_incr entries_bounded"
  "0 < ttl \<Longrightarrow> ttl \<le> MAX_CACHE_TTL_SECONDS \<Longrightarrow> survives_entry entries_bounded rc s v ttl g"
  using generation_key_no_entry
  by (auto simp: survives_creation_def survives_incr_def survives_entry_def entries_bounded_def
      redis_incr_def split: option.splits prod.splits if_splits)

section \<open>Where a hit comes from\<close>

text \<open>What a reader sees under a key: at most one byte more than the bound, decoded and
  validated.\<close>

definition entry_value ::
  "redis_item_cache \<Rightarrow> 'a cache_model \<Rightarrow> redis_store \<Rightarrow> pystr \<Rightarrow> pystr \<Rightarrow> 'a option" where
  "entry_value rc m st g s =
     (case utf8_decode (take (Suc MAX_CACHE_PAYLOAD_BYTES) (redis_bytes st (cache_key g s))) of
        None \<Rightarrow> None
      | Some t \<Rightarrow> decode_payload rc s m t)"

lemma redis_getrange_rely:
  assumes "redis_rely P w" "redis_call (redis_getrange k 0 n) w = (Inr b, w')"
  shows "\<exists>st. P st \<and> b = take (Suc n) (redis_bytes st k) \<and> redis_rely P w'"
proof -
  have "keeps (redis_rely P) (redis_call (redis_getrange k 0 n))"
    by (rule redis_call_rely) (simp add: redis_getrange_def)
  then have "redis_rely P w'" using assms by (metis keeps_eq)
  moreover have "\<exists>st. P st \<and> b = take (Suc n) (redis_bytes st k)"
    using assms
    by (cases "redis_events w")
       (auto simp: redis_call_def redis_getrange_def redis_rely_def Let_def split: option.splits)
  ultimately show ?thesis by blast
qed

lemma client_getrange_rely:
  assumes "redis_rely P w" "client_getrange rc k 0 n w = (Inr p, w')"
  shows "\<exists>st. P st \<and> redis_rely P w' \<and>
     (let b = take (Suc n) (redis_bytes st k) in
      if rc_decode rc then \<exists>t. utf8_decode b = Some t \<and> p = RStr t else p = RBytes b)"
  using assms(2) unfolding client_getrange_def
  by (auto elim!: bindM_eq_InrE dest!: redis_getrange_rely [OF assms(1)]
      split: if_splits option.splits)

lemma payload_text_read:
  assumes "redis_rely P w"
    "client_getrange rc (cache_key g s) 0 MAX_CACHE_PAYLOAD_BYTES w = (Inr p, w')"
    "payload_text (Some p) = Inr (Some t)" "decode_payload rc s m t = Some v"
  shows "\<exists>st. P st \<and> entry_value rc m st g s = Some v"
proof -
  let ?b = "\<lambda>st. take (Suc MAX_CACHE_PAYLOAD_BYTES) (redis_bytes st (cache_key g s))"
  obtain st where st: "P st" "if rc_decode rc then \<exists>t. utf8_decode (?b st) = Some t \<and> p = RStr t
      else p = RBytes (?b st)"
    using client_getrange_rely [OF assms(1,2)] by (auto simp: Let_def)
  then have "utf8_decode (?b st) = Some t"
    using assms(3) by (auto simp: payload_text_def split: if_splits option.splits)
  then show ?thesis using st(1) assms(4) by (auto simp: entry_value_def)
qed

text \<open>A read of the generation returns one that was in the store at some moment.\<close>

lemma cache_generation_read:
  assumes rely: "redis_rely (\<lambda>st. generation_from n st \<and> P st) w"
    and run: "cache_generation rc w = (Inr (Some g), w')"
  shows "\<exists>k st ttl. n \<le> k \<and> k \<le> MAX_GENERATION \<and> P st \<and> st CACHE_GENERATION_KEY = Some (str_nat k, ttl) \<and>
    g = str_nat k"
proof -
  let ?R = "\<lambda>st. generation_from n st \<and> P st"
  obtain v w1 where v: "read_generation rc w = (Inr v, w1)"
    using run by (auto simp: cache_generation_def elim: bindM_eq_InrE)
  then obtain u where some: "v = Some u"
    using run by (cases v) (auto simp: cache_generation_def bindM_def)
  then have "client_getrange rc CACHE_GENERATION_KEY 0 MAX_GENERATION_DIGITS w = (Inr u, w1)"
    using v by (auto simp: read_generation_def catchM_def bindM_def log_invalid_payload_def emit_def
        split: prod.splits sum.splits if_splits)
  then obtain st where st: "?R st" and b: "let b = take (Suc 19) (redis_bytes st CACHE_GENERATION_KEY) in
      if rc_decode rc then \<exists>t. utf8_decode b = Some t \<and> u = RStr t else u = RBytes b"
    using client_getrange_rely [OF rely] by fastforce
  then obtain m ttl where m: "n \<le> m" "m \<le> MAX_GENERATION" "st CACHE_GENERATION_KEY = Some (str_nat m, ttl)"
    unfolding generation_from_def by blast
  then have bytes: "take (Suc 19) (redis_bytes st CACHE_GENERATION_KEY) = str_nat m"
    using generation_length [OF m(2)] by (simp add: redis_bytes_def)
  have "u = RStr (str_nat m) \<or> u = RBytes (str_nat m)"
    using b unfolding bytes by (auto simp: Let_def utf8_decode_ascii split: if_splits)
  then have "checked_generation u w1 = (Inr (Some g), w')" "parse_generation u = Some (str_nat m)"
    using run v some m(2) by (auto simp: cache_generation_def bindM_def)
  then show ?thesis using m st by (auto simp: checked_generation_def)
qed

lemma cache_generation_from:
  assumes "redis_rely (\<lambda>st. generation_from n st \<and> P st) w" "cache_generation rc w = (Inr (Some g), w')"
  shows "\<exists>k. n \<le> k \<and> k \<le> MAX_GENERATION \<and> g = str_nat k"
  using cache_generation_read [OF assms] by blast

text \<open>Under a rely that includes a lower bound on the generation, every hit is a value stored
  under a generation from that bound on.\<close>

lemma cache_get_rely:
  assumes rely: "redis_rely (\<lambda>st. generation_from n st \<and> P st) w"
    and run: "cache_get rc s m w = (Inr l, w')" "lk_value l = Some v"
    and P: "survives_creation P"
  shows "\<exists>k st. n \<le> k \<and> k \<le> MAX_GENERATION \<and> P st \<and> entry_value rc m st (str_nat k) s = Some v"
proof -
  let ?R = "\<lambda>st. generation_from n st \<and> P st"
  have R: "survives_creation ?R"
    using P generation_from_survives(1) [of n] by (auto simp: survives_creation_def)
  from run obtain g w1 w2 p t where g: "cache_generation rc w = (Inr (Some g), w1)"
    and p: "client_getrange rc (cache_key g s) 0 MAX_CACHE_PAYLOAD_BYTES w1 = (Inr p, w2)"
      "payload_text (Some p) = Inr (Some t)" "decode_payload rc s m t = Some v"
    by (rule cache_get_hit)
  obtain k where k: "n \<le> k" "k \<le> MAX_GENERATION" "g = str_nat k"
    using cache_generation_from [OF rely g] by blast
  have "redis_rely ?R w1"
    using keeps_cache_generation [OF R] g rely by (metis keeps_eq)
  then obtain st where "?R st" "entry_value rc m st g s = Some v"
    using payload_text_read [OF _ p] by blast
  then show ?thesis using k by blast
qed

text \<open>The generation a lookup reports is one that \<open>_parse_generation\<close> accepts.\<close>

lemma checked_generation_text:
  "checked_generation v w = (Inr (Some g), w') \<Longrightarrow> generation_text g"
  by (auto simp: checked_generation_def bindM_def emit_def split: option.splits dest: parse_generation_sound)

lemma offer_generation_text:
  assumes "offer_generation rc (str_int i) w = (Inr (Some g), w')" "parse_generation_text (str_int i) \<noteq> None"
  shows "generation_text g"
proof -
  have "generation_text (str_int i)"
    using parse_candidate [OF assms(2)] by (auto simp: generation_text_def)
  then show ?thesis
    using assms(1)
    by (auto simp: offer_generation_def elim!: bindM_eq_InrE
        split: if_splits option.splits) (erule checked_generation_text)
qed

lemma cache_generation_text:
  "cache_generation rc w = (Inr (Some g), w') \<Longrightarrow> generation_text g"
  by (auto simp: cache_generation_def Let_def elim!: bindM_eq_InrE
      split: option.splits if_splits) (erule offer_generation_text, simp, erule checked_generation_text)

lemma validated_lookup_generation:
  "validated_lookup rc s m g p w = (Inr l, w') \<Longrightarrow> lk_generation l = Some g"
  by (auto simp: validated_lookup_def miss_def invalid_miss_def log_invalid_payload_def emit_def
      elim!: bindM_eq_InrE split: option.splits if_splits)

lemma cache_get_generation:
  assumes "cache_get rc s m w = (Inr l, w')" "lk_generation l = Some g"
  shows "generation_text g"
proof -
  obtain g0 w1 where g0: "cache_generation rc w = (Inr g0, w1)"
    using assms(1) by (auto simp: cache_get_def elim: bindM_eq_InrE)
  have g0_text: "generation_text h" if "g0 = Some h" for h
    using cache_generation_text g0 that by blast
  from assms g0 show ?thesis
    by (auto simp: cache_get_def bindM_Inr miss_def invalid_miss_def log_invalid_payload_def emit_def
        elim!: bindM_eq_InrE split: option.splits if_splits dest!: validated_lookup_generation)
       (erule cache_generation_text)+
qed

lemma keep_if_generation:
  "keep_if ok l w = (Inr l', w') \<Longrightarrow> lk_generation l' = lk_generation l"
  by (auto simp: keep_if_def invalid_miss_def miss_def log_invalid_payload_def emit_def
      elim!: bindM_eq_InrE split: option.splits if_splits)

lemma lookup_generation_text:
  "get_item rc i w = (Inr l, w') \<Longrightarrow> lk_generation l = Some g \<Longrightarrow> generation_text g"
  "get_list rc p w = (Inr k, w') \<Longrightarrow> lk_generation k = Some g \<Longrightarrow> generation_text g"
  "get_meta rc a w = (Inr h, w') \<Longrightarrow> lk_generation h = Some g \<Longrightarrow> generation_text g"
  by (auto simp: get_item_def get_list_def get_meta_def elim!: bindM_eq_InrE
      dest!: keep_if_generation dest: cache_get_generation)

text \<open>How updates of the store change what a reader sees.\<close>

lemma entry_value_generation_key [simp]:
  "entry_value rc m (st(CACHE_GENERATION_KEY \<mapsto> x)) g s = entry_value rc m st g s"
  by (simp add: entry_value_def redis_bytes_def)

lemma entry_value_update:
  assumes "generation_text g" "generation_text h" "length b \<le> MAX_CACHE_PAYLOAD_BYTES"
    "utf8_encode t = Some b"
  shows "entry_value rc m (st(cache_key g s \<mapsto> (b, ttl))) h s' =
    (if g = h \<and> s = s' then decode_payload rc s' m t else entry_value rc m st h s')"
  using assms cache_key_inject [OF assms(1,2), of s s'] utf8_roundtrip [OF assms(4)]
  by (auto simp: entry_value_def redis_bytes_def)

text \<open>Without an entry, a calm lookup is a miss that reports the generation; the empty payload
  it read is logged as invalid.\<close>

lemma cache_get_calm_miss:
  assumes calm: "redis_events w = []" and gen: "stored_generation w = Some n"
    and missing: "redis w (cache_key (str_nat n) s) = None" and pd: "pydantic_ok (rc_pydantic rc)"
  shows "cache_get rc s m w = invalid_miss (Some (str_nat n)) w"
proof -
  note g = cache_generation_calm [OF calm gen, of rc]
  have "client_getrange rc (cache_key (str_nat n) s) 0 MAX_CACHE_PAYLOAD_BYTES w =
      (Inr (if rc_decode rc then RStr [] else RBytes []), w)"
    using client_getrange_calm [OF calm, of "cache_key (str_nat n) s" "[]" MAX_CACHE_PAYLOAD_BYTES rc]
      missing by (simp add: redis_bytes_def)
  moreover have "utf8_encode [] = Some []" by (simp add: utf8_encode_def)
  moreover have "decode_payload rc s m [] = None"
    by (simp add: decode_payload_def pydantic_laws(7) [OF pd])
  ultimately show ?thesis
    by (simp add: cache_get_def read_payload_def validated_lookup_def bindM_def catchM_def g
        payload_text_def)
qed

lemma invalid_miss_run:
  "invalid_miss g w = (Inr \<lparr>lk_value = None, lk_generation = g\<rparr>, w\<lparr>logs := logs w @
     [log_entry_of (lit ''app.cache'') (lit ''WARNING'') (lit ''cache_payload_invalid'') []]\<rparr>)"
  by (simp add: invalid_miss_def miss_def log_invalid_payload_def emit_def bindM_def)

lemma lookups_calm_miss:
  assumes calm: "redis_events w = []" and gen: "stored_generation w = Some n"
    and pd: "pydantic_ok (rc_pydantic rc)"
  shows "redis w (cache_key (str_nat n) (item_suffix i)) = None \<Longrightarrow>
      get_item rc i w = invalid_miss (Some (str_nat n)) w"
    and "redis w (cache_key (str_nat n) (list_suffix rc p)) = None \<Longrightarrow>
      get_list rc p w = invalid_miss (Some (str_nat n)) w"
    and "redis w (cache_key (str_nat n) (meta_suffix a)) = None \<Longrightarrow>
      get_meta rc a w = invalid_miss (Some (str_nat n)) w"
  by (simp_all add: get_item_def get_list_def get_meta_def bindM_def keep_if_def invalid_miss_run
      cache_get_calm_miss [OF calm gen _ pd])

end
