(* ===== verification/ItemsCoherence.thy ===== *)
theory ItemsCoherence
  imports ItemsService CacheGenerations
begin

text \<open>
  The items service on the PostgreSQL repository and the Redis cache: what its
  operations answer. The first part describes the answers the database gives;
  the second shows that, once the cache is coherent with the database from some
  generation on, every answer is the database's, whatever fails and however the
  other clients of Redis that follow the same rules interfere. The contract is
  the locale \<open>coherent_cache\<close>, an extension of \<open>keyed_cache\<close>.
\<close>

definition item_service_of :: "pg_locale \<Rightarrow> redis_item_cache \<Rightarrow> item_service" where
  "item_service_of loc rc =
     \<lparr>svc_repository = sqlalchemy_item_repository loc, svc_cache = redis_cache rc\<rparr>"

section \<open>The answers of the database\<close>

definition response_of_row :: "item_row \<Rightarrow> item_response" where
  "response_of_row r = to_item_response (to_record r)"

definition item_answer :: "int \<Rightarrow> database \<Rightarrow> item_response option" where
  "item_answer i db = map_option response_of_row (find_item i db)"

definition list_answer :: "pg_locale \<Rightarrow> item_list_params \<Rightarrow> database \<Rightarrow> item_list_response" where
  "list_answer loc p db =
     \<lparr>lr_items = map response_of_row
        (page_rows loc (p_search p) (p_quality p) (p_type p) (p_version p) (p_sort p) (p_order p)
           (p_limit p) (p_offset p) db),
      lr_total = int (length (apply_filters loc (p_search p) (p_quality p) (p_type p) (p_version p)
           (items_table db))),
      lr_limit = p_limit p, lr_offset = p_offset p\<rparr>"

definition meta_answer :: "pystr \<Rightarrow> database \<Rightarrow> meta_response" where
  "meta_answer a db = meta_response_of a (catalog_meta_of db)"

lemma repository_simps [simp]:
  "repo_get_by_game_id (sqlalchemy_item_repository loc) = sql_get_by_game_id"
  "repo_list_items (sqlalchemy_item_repository loc) = sql_list_items loc"
  "repo_count_items (sqlalchemy_item_repository loc) = sql_count_items loc"
  "repo_get_random (sqlalchemy_item_repository loc) = sql_get_random loc"
  "repo_get_catalog_meta (sqlalchemy_item_repository loc) = sql_get_catalog_meta"
  "svc_repository (item_service_of loc rc) = sqlalchemy_item_repository loc"
  "svc_cache (item_service_of loc rc) = redis_cache rc"
  by (simp_all add: sqlalchemy_item_repository_def item_service_of_def)

lemma redis_cache_simps [simp]:
  "ic_get_item (redis_cache rc) = get_item rc" "ic_set_item (redis_cache rc) = set_item rc"
  "ic_get_list (redis_cache rc) = get_list rc" "ic_set_list (redis_cache rc) = set_list rc"
  "ic_get_meta (redis_cache rc) = get_meta rc" "ic_set_meta (redis_cache rc) = set_meta rc"
  by (simp_all add: redis_cache_def)

lemma load_db_only [db_only_intros]:
  "db_only (load_item (sqlalchemy_item_repository loc) i)"
  "db_only (load_list (sqlalchemy_item_repository loc) p)"
  "db_only (load_meta (sqlalchemy_item_repository loc) a)"
  by (auto simp: load_item_def load_list_def load_meta_def intro!: db_only_intros)

lemma load_frame [frame_intros]:
  "frame redis (load_item (sqlalchemy_item_repository loc) i)"
  "frame redis_events (load_item (sqlalchemy_item_repository loc) i)"
  "frame redis (load_list (sqlalchemy_item_repository loc) p)"
  "frame redis_events (load_list (sqlalchemy_item_repository loc) p)"
  "frame redis (load_meta (sqlalchemy_item_repository loc) a)"
  "frame redis_events (load_meta (sqlalchemy_item_repository loc) a)"
  by (auto simp: load_item_def load_list_def load_meta_def intro!: frame_intros)

text \<open>What a successful load returns, on a database that satisfies \<open>P\<close>.\<close>

lemma load_item_value:
  assumes "db_rely P w" "\<And>db. P db \<Longrightarrow> db_ok db"
    "load_item (sqlalchemy_item_repository loc) i w = (Inr v, w')"
  shows "\<exists>db. P db \<and> item_answer i db = Some v"
proof -
  obtain x w1 where "sql_get_by_game_id i w = (Inr x, w1)" "x = None \<or> (\<exists>y. x = Some y \<and> v = to_item_response y)"
    using assms(3) by (auto simp: load_item_def elim!: bindM_eq_InrE split: option.splits)
  moreover obtain db where "P db" "x = map_option to_record (find_item i db)"
    using get_by_game_id_value [OF assms(1,2) \<open>sql_get_by_game_id i w = (Inr x, w1)\<close>] by blast
  moreover have "x \<noteq> None"
    using assms(3) \<open>sql_get_by_game_id i w = (Inr x, w1)\<close> by (cases x) (auto simp: load_item_def bindM_def)
  ultimately show ?thesis by (auto simp: item_answer_def response_of_row_def)
qed

lemma load_meta_value:
  assumes "db_rely P w" "\<And>db. P db \<Longrightarrow> db_ok db"
    "load_meta (sqlalchemy_item_repository loc) a w = (Inr v, w')"
  shows "\<exists>db. P db \<and> v = meta_answer a db"
proof -
  obtain m where "sql_get_catalog_meta w = (Inr m, w')" "v = meta_response_of a m"
    using assms(3) by (auto simp: load_meta_def elim!: bindM_eq_InrE)
  then show ?thesis
    using catalog_meta_value [OF assms(1,2)] by (auto simp: meta_answer_def)
qed

text \<open>The page and the total of a listing are two statements: each is exact on a state of
  the database, and they are on the same one when no transaction commits between them.\<close>

lemma load_list_value:
  assumes "db_rely P w" "\<And>db. P db \<Longrightarrow> db_ok db" "load_list (sqlalchemy_item_repository loc) p w = (Inr v, w')"
  shows "\<exists>db1 db2. P db1 \<and> P db2 \<and> lr_items v = lr_items (list_answer loc p db1) \<and>
     lr_total v = lr_total (list_answer loc p db2) \<and> lr_limit v = p_limit p \<and> lr_offset v = p_offset p"
proof -
  obtain xs w1 n w2 where xs: "sql_list_items loc (p_search p) (p_quality p) (p_type p) (p_version p)
        (p_sort p) (p_order p) (p_limit p) (p_offset p) w = (Inr xs, w1)"
    and n: "sql_count_items loc (p_search p) (p_quality p) (p_type p) (p_version p) w1 = (Inr n, w2)"
    and v: "v = \<lparr>lr_items = map to_item_response xs, lr_total = n, lr_limit = p_limit p,
        lr_offset = p_offset p\<rparr>"
    using assms(3) by (auto simp: load_list_def elim!: bindM_eq_InrE)
  obtain db1 where db1: "P db1" "db_rely P w1" "xs = map to_record (page_rows loc (p_search p)
        (p_quality p) (p_type p) (p_version p) (p_sort p) (p_order p) (p_limit p) (p_offset p) db1)"
    using list_items_value [OF assms(1,2) xs] by blast
  obtain db2 where "P db2" "n = int (length (apply_filters loc (p_search p) (p_quality p) (p_type p)
        (p_version p) (items_table db2)))"
    using count_items_value [OF db1(2) n] by blast
  then show ?thesis using db1 v
    by (intro exI [of _ db1] exI [of _ db2]) (simp add: list_answer_def response_of_row_def comp_def)
qed

text \<open>The rows of the database are within what the cache can encode.\<close>

lemma pg_text_scalar: "pg_text s \<Longrightarrow> list_all scalar s"
  by (simp add: pg_text_def)

lemma int4_int_ok: "int4 i \<Longrightarrow> int_ok i"
  by (rule int_ok_int8) (simp add: int4_def int8_def)

lemma response_of_row_ok: "item_row_ok r \<Longrightarrow> item_response_ok (response_of_row r)"
  by (auto simp: item_row_ok_def item_response_ok_def response_of_row_def to_item_response_def
      to_record_def int4_int_ok pg_text_scalar elim!: nullable_mono intro!: int_ok_int8)
     (auto simp: int8_def)

lemma item_answer_ok: "db_ok db \<Longrightarrow> item_answer i db = Some v \<Longrightarrow> item_response_ok v \<and> ir_game_id v = i"
  by (auto simp: item_answer_def find_item_def find_Some_iff db_ok_def list_all_length
      response_of_row_ok) (simp add: response_of_row_def to_item_response_def to_record_def)

section \<open>Coherence\<close>

text \<open>A cache whose hits are answers: a predicate on the store under which every hit is an
  answer, and which the lookups and every store of an answer preserve.\<close>

locale coherent_cache = keyed_cache lookup store belongs encodable storable_at ready
  for lookup :: "'k \<Rightarrow> 'v cache_lookup prog"
    and store :: "'k \<Rightarrow> 'v \<Rightarrow> pystr option \<Rightarrow> unit prog"
    and belongs :: "'k \<Rightarrow> 'v \<Rightarrow> bool"
    and encodable :: "'k \<Rightarrow> 'v \<Rightarrow> bool"
    and storable_at :: "'k \<Rightarrow> 'v \<Rightarrow> bool"
    and ready :: bool +
  fixes inv :: "redis_store \<Rightarrow> bool" and asked :: "'k \<Rightarrow> bool" and answer :: "'k \<Rightarrow> 'v \<Rightarrow> bool"
  assumes lookup_keeps: "keeps (redis_rely inv) (lookup k)"
    and hit_answer: "redis_rely inv w \<Longrightarrow> asked k \<Longrightarrow> lookup k w = (Inr l, w') \<Longrightarrow>
      lk_value l = Some v \<Longrightarrow> answer k v"
    and lookup_generation: "lookup k w = (Inr l, w') \<Longrightarrow> lk_generation l = Some g \<Longrightarrow> generation_text g"
    and store_keeps: "asked k \<Longrightarrow> answer k v \<Longrightarrow> generation_text g \<Longrightarrow>
      keeps (redis_rely inv) (store k v (Some g))"
    and store_none: "keeps (redis_rely inv) (store k v None)"

begin

lemma cache_read_keeps: "keeps (redis_rely inv) (cache_read (lookup k) resource)"
  by (auto simp: cache_read_def log_cache_failure_def intro!: keeps_intros lookup_keeps split: if_splits)

lemma fill_keeps:
  assumes "cache_read (lookup k) resource w = (Inr l, w')" "asked k" "answer k v"
  shows "keeps (redis_rely inv) (fill_cache resource (store k) l v)"
proof (cases l)
  case (Some h)
  have lookup: "lookup k w = (Inr h, w')"
    using assms(1) Some
    by (auto simp: cache_read_def catchM_def bindM_def log_cache_failure_def emit_def
        split: prod.splits sum.splits if_splits)
  have "keeps (redis_rely inv) (store k v (lk_generation h))"
    using store_keeps [OF assms(2,3) lookup_generation [OF lookup]] store_none [of k v]
    by (cases "lk_generation h") simp_all
  then show ?thesis
    using Some by (auto simp: fill_cache_def cache_write_def log_cache_failure_def
        intro!: keeps_intros split: if_splits)
qed (simp add: fill_cache_def keeps_intros)

text \<open>If the load only returns answers, so does the whole operation, and the cache stays
  coherent.\<close>

lemma aside_coherent:
  assumes rely: "redis_rely inv w" "Q w" and k: "asked k"
    and Q: "\<And>w w'. Q w \<Longrightarrow> database w' = database w \<Longrightarrow> db_events w' = db_events w \<Longrightarrow> Q w'"
    and load: "\<And>w v w'. Q w \<Longrightarrow> load w = (Inr v, w') \<Longrightarrow> answer k v"
    and frame: "frame redis load" "frame redis_events load"
    and run: "cache_aside resource (lookup k) (store k) load w = (r, w')"
  shows "redis_rely inv w' \<and> (\<forall>v. r = Inr v \<longrightarrow> answer k v)"
proof -
  obtain l0 w1 where read: "cache_read (lookup k) resource w = (l0, w1)" by fastforce
  have rely1: "redis_rely inv w1" using keeps_eq [OF cache_read_keeps read rely(1)] .
  show ?thesis
  proof (cases l0)
    case (Inl e)
    then show ?thesis using run read rely1 by (auto simp: cache_aside_def bindM_def)
  next
    case (Inr l)
    note read' = read [unfolded Inr]
    show ?thesis
    proof (cases "cached l")
      case (Some v)
      then obtain h where "lookup k w = (Inr h, w1)" "lk_value h = Some v"
        using cache_read_value [of "lookup k" resource w l w1 v] read' by blast
      then show ?thesis
        using hit_answer [OF rely(1) k] run read' Some rely1 by (auto simp: cache_aside_def bindM_def)
    next
      case None
      note run' = run [unfolded cache_aside_miss [OF read' None]]
      obtain r1 w2 where load_run: "load w1 = (r1, w2)" by fastforce
      have rely2: "redis_rely inv w2"
        using rely1 frame_eq [OF frame(1) load_run] frame_eq [OF frame(2) load_run]
        by (simp add: redis_rely_def)
      have "Q w1"
        using Q [OF rely(2)] frame_eq [OF frame_cache_read(1) [OF lookup_frame(1)] read]
          frame_eq [OF frame_cache_read(2) [OF lookup_frame(2)] read] .
      then have ans: "answer k v" if "r1 = Inr v" for v using load [of w1 v w2] load_run that by simp
      show ?thesis
      proof (cases r1)
        case (Inl e)
        then show ?thesis using run' load_run rely2 by (auto simp: bindM_def)
      next
        case (Inr v)
        obtain u w3 where fill: "fill_cache resource (store k) l v w2 = (u, w3)" by fastforce
        have "redis_rely inv w3"
          using keeps_eq [OF fill_keeps [OF read' k ans [OF Inr]] fill rely2] .
        then show ?thesis
          using run' load_run Inr fill ans by (cases u) (auto simp: bindM_def)
      qed
    qed
  qed
qed

end

section \<open>The Redis cache is coherent\<close>

text \<open>\<open>U\<close> is the set of listings that are ever requested: the digests of their texts must
  differ, which is what a cryptographic digest is used for.\<close>

definition digest_ok :: "redis_item_cache \<Rightarrow> item_list_params set \<Rightarrow> bool" where
  "digest_ok rc U \<longleftrightarrow>
     inj_on (rc_sha256 rc) (list_params_text ` U) \<and> (\<forall>p\<in>U. params_text_ok p) \<and>
     (\<forall>t. list_all scalar (rc_sha256 rc t))"

definition entries_fresh ::
  "redis_item_cache \<Rightarrow> pg_locale \<Rightarrow> item_list_params set \<Rightarrow> database \<Rightarrow> nat \<Rightarrow> redis_store \<Rightarrow> bool" where
  "entries_fresh rc loc U D n st \<longleftrightarrow>
     (\<forall>k. n \<le> k \<longrightarrow> k \<le> MAX_GENERATION \<longrightarrow>
        (\<forall>i v. entry_value rc item_model st (str_nat k) (item_suffix i) = Some v \<longrightarrow>
           ir_game_id v = i \<longrightarrow> item_answer i D = Some v) \<and>
        (\<forall>p\<in>U. \<forall>v. entry_value rc list_model st (str_nat k) (list_suffix rc p) = Some v \<longrightarrow>
           lr_limit v = p_limit p \<and> lr_offset v = p_offset p \<longrightarrow> v = list_answer loc p D) \<and>
        (\<forall>a v. entry_value rc meta_model st (str_nat k) (meta_suffix a) = Some v \<longrightarrow>
           mr_api_version v = a \<longrightarrow> v = meta_answer a D))"

text \<open>Coherence from generation \<open>n\<close> on with the database \<open>D\<close>, for a cache whose libraries
  behave as documented.\<close>

definition coherent ::
  "redis_item_cache \<Rightarrow> pg_locale \<Rightarrow> item_list_params set \<Rightarrow> database \<Rightarrow> nat \<Rightarrow> redis_store \<Rightarrow> bool" where
  "coherent rc loc U D n st \<longleftrightarrow>
     generation_from n st \<and> pydantic_ok (rc_pydantic rc) \<and> digest_ok rc U \<and> entries_fresh rc loc U D n st"

lemma generation_text_str_nat: "k \<le> MAX_GENERATION \<Longrightarrow> generation_text (str_nat k)"
  by (auto simp: generation_text_def)

lemma coherent_creation: "survives_creation (coherent rc loc U D n)"
  by (auto simp: survives_creation_def coherent_def generation_from_def)

lemma list_suffix_inject:
  assumes "digest_ok rc U" "p \<in> U" "q \<in> U" "list_suffix rc p = list_suffix rc q"
  shows "p = q"
proof -
  have "list_params_text p = list_params_text q"
    using assms unfolding digest_ok_def list_suffix_def by (auto dest: inj_onD)
  then show ?thesis using assms(1-3) list_params_text_inject by (auto simp: digest_ok_def)
qed

lemma list_suffix_scalar: "digest_ok rc U \<Longrightarrow> list_all scalar (list_suffix rc p)"
  by (simp add: digest_ok_def list_suffix_def)

text \<open>A write of an answer, for each kind of entry.\<close>

lemma coherent_write_item:
  assumes "item_answer i D = Some v" "db_ok D" "generation_text g"
  shows "survives_entry (coherent rc loc U D n) rc (item_suffix i) (CItem v) ttl g"
  unfolding survives_entry_def
proof (intro allI impI)
  fix st b
  assume coh: "coherent rc loc U D n st"
    and b: "utf8_encode (encode_payload rc (item_suffix i) (CItem v)) = Some b"
      "length b \<le> MAX_CACHE_PAYLOAD_BYTES"
  have "decode_payload rc (item_suffix i) item_model (encode_payload rc (item_suffix i) (CItem v)) = Some v"
    using coh item_answer_ok [OF assms(2,1)] by (intro decode_encode_item) (simp_all add: coherent_def)
  note upd = entry_value_update [OF assms(3) generation_text_str_nat b(2,1)]
  show "coherent rc loc U D n (st(cache_key g (item_suffix i) \<mapsto> (b, Some ttl)))"
    using coh assms(1) \<open>decode_payload _ _ _ _ = _\<close>
    by (auto simp: coherent_def entries_fresh_def upd generation_from_def)
qed

text \<open>The unique \<open>INTEGER\<close> key bounds the number of rows.\<close>

lemma db_ok_size: "db_ok D \<Longrightarrow> length (items_table D) \<le> 2 ^ 32"
proof -
  assume ok: "db_ok D"
  then have "set (map it_game_id (items_table D)) \<subseteq> {-2147483648..2147483647}"
    by (auto simp: db_ok_def item_row_ok_def int4_def list_all_iff)
  then have "card (set (map it_game_id (items_table D))) \<le> card {-2147483648..2147483647 :: int}"
    by (rule card_mono [OF finite_atLeastAtMost_int])
  moreover have "card (set (map it_game_id (items_table D))) = length (items_table D)"
    using ok distinct_card [of "map it_game_id (items_table D)"] by (simp add: db_ok_def)
  ultimately show ?thesis by simp
qed

lemma count_ok: "db_ok D \<Longrightarrow> n \<le> length (items_table D) \<Longrightarrow> int_ok (int n)"
  using db_ok_size [of D] by (intro int_ok_int8) (simp add: int8_def)

lemma meta_answer_ok:
  assumes "db_ok D" "list_all scalar a"
  shows "meta_response_ok (meta_answer a D)"
  using metadata_singleton [OF assms(1)] assms count_ok [OF assms(1)]
  by (auto simp: meta_answer_def meta_response_of_def catalog_meta_of_def meta_response_ok_def
      db_ok_def metadata_row_ok_def pg_text_scalar elim!: nullable_mono)

lemma page_rows_subset:
  "set (page_rows loc s q t v srt ord limit offset D) \<subseteq> set (items_table D)"
  by (auto simp: page_rows_def set_ordered_rows dest!: in_set_takeD in_set_dropD)

lemma list_answer_ok:
  assumes "db_ok D" "params_text_ok p"
  shows "list_response_ok (list_answer loc p D)"
proof -
  have "item_row_ok r" if "r \<in> set (items_table D)" for r
    using assms(1) that by (auto simp: db_ok_def list_all_iff)
  then have "list_all item_response_ok (map response_of_row
      (page_rows loc s q t v srt ord limit offset D))" for s q t v srt ord limit offset
    using page_rows_subset response_of_row_ok by (fastforce simp: list_all_iff)
  moreover have "int_ok (int (length (apply_filters loc s q t v (items_table D))))" for s q t v
    by (rule count_ok [OF assms(1)]) (simp add: apply_filters_def)
  ultimately show ?thesis
    using assms(2) by (simp add: list_answer_def list_response_ok_def params_text_ok_def)
qed

lemma coherent_write_meta:
  assumes "db_ok D" "list_all scalar a" "generation_text g"
  shows "survives_entry (coherent rc loc U D n) rc (meta_suffix a) (CMeta (meta_answer a D)) ttl g"
  unfolding survives_entry_def
proof (intro allI impI)
  fix st b
  let ?v = "meta_answer a D"
  assume coh: "coherent rc loc U D n st"
    and b: "utf8_encode (encode_payload rc (meta_suffix a) (CMeta ?v)) = Some b"
      "length b \<le> MAX_CACHE_PAYLOAD_BYTES"
  have "decode_payload rc (meta_suffix a) meta_model (encode_payload rc (meta_suffix a) (CMeta ?v)) = Some ?v"
    using coh meta_answer_ok [OF assms(1,2)] by (intro decode_encode_meta) (simp_all add: coherent_def)
  note upd = entry_value_update [OF assms(3) generation_text_str_nat b(2,1)]
  show "coherent rc loc U D n (st(cache_key g (meta_suffix a) \<mapsto> (b, Some ttl)))"
    using coh \<open>decode_payload _ _ _ _ = _\<close>
    by (auto simp: coherent_def entries_fresh_def upd generation_from_def)
qed

lemma coherent_write_list:
  assumes "db_ok D" "p \<in> U" "generation_text g"
  shows "survives_entry (coherent rc loc U D n) rc (list_suffix rc p) (CList (list_answer loc p D)) ttl g"
  unfolding survives_entry_def
proof (intro allI impI)
  fix st b
  let ?v = "list_answer loc p D"
  assume coh: "coherent rc loc U D n st"
    and b: "utf8_encode (encode_payload rc (list_suffix rc p) (CList ?v)) = Some b"
      "length b \<le> MAX_CACHE_PAYLOAD_BYTES"
  have digest: "digest_ok rc U" using coh by (simp add: coherent_def)
  then have "params_text_ok p" using assms(2) by (auto simp: digest_ok_def)
  then have dec: "decode_payload rc (list_suffix rc p) list_model
      (encode_payload rc (list_suffix rc p) (CList ?v)) = Some ?v"
    using coh list_answer_ok [OF assms(1)] list_suffix_scalar [OF digest]
    by (intro decode_encode_list) (simp_all add: coherent_def)
  have inj: "p = q" if "q \<in> U" "list_suffix rc p = list_suffix rc q" for q
    using list_suffix_inject [OF digest assms(2)] that by blast
  note upd = entry_value_update [OF assms(3) generation_text_str_nat b(2,1)]
  show "coherent rc loc U D n (st(cache_key g (list_suffix rc p) \<mapsto> (b, Some ttl)))"
    using coh dec
    by (auto simp: coherent_def entries_fresh_def upd generation_from_def dest!: inj split: if_splits)
qed

text \<open>Hits.\<close>

lemma entries_fresh_creation:
  "survives_creation (\<lambda>st. pydantic_ok (rc_pydantic rc) \<and> digest_ok rc U \<and> entries_fresh rc loc U D n st)"
  by (auto simp: survives_creation_def entries_fresh_def)

lemma coherent_hit:
  assumes "redis_rely (coherent rc loc U D n) w" "cache_get rc s m w = (Inr l, w')" "lk_value l = Some v"
  shows "\<exists>k st. n \<le> k \<and> k \<le> MAX_GENERATION \<and> entries_fresh rc loc U D n st \<and>
     entry_value rc m st (str_nat k) s = Some v"
  using cache_get_rely [OF assms(1) [unfolded coherent_def] assms(2,3) entries_fresh_creation] by blast

lemma lookup_hit_get:
  "get_item rc i w = (Inr l, w') \<Longrightarrow> lk_value l = Some v \<Longrightarrow>
     cache_get rc (item_suffix i) item_model w = (Inr l, w') \<and> ir_game_id v = i"
  "get_list rc p w = (Inr k, w') \<Longrightarrow> lk_value k = Some y \<Longrightarrow>
     cache_get rc (list_suffix rc p) list_model w = (Inr k, w') \<and>
     lr_limit y = p_limit p \<and> lr_offset y = p_offset p"
  "get_meta rc a w = (Inr h, w') \<Longrightarrow> lk_value h = Some z \<Longrightarrow>
     cache_get rc (meta_suffix a) meta_model w = (Inr h, w') \<and> mr_api_version z = a"
  by (auto simp: get_item_def get_list_def get_meta_def elim!: bindM_eq_InrE dest: keep_if_belongs)

lemma coherent_hits:
  assumes "redis_rely (coherent rc loc U D n) w"
  shows "get_item rc i w = (Inr l, w') \<Longrightarrow> lk_value l = Some v \<Longrightarrow> item_answer i D = Some v"
    and "get_list rc p w = (Inr k, w') \<Longrightarrow> p \<in> U \<Longrightarrow> lk_value k = Some y \<Longrightarrow> y = list_answer loc p D"
    and "get_meta rc a w = (Inr h, w') \<Longrightarrow> lk_value h = Some z \<Longrightarrow> z = meta_answer a D"
  by (frule (1) lookup_hit_get, clarify, drule (1) coherent_hit [OF assms], fastforce simp: entries_fresh_def)+

text \<open>The three kinds of entry meet the contract. That the database is sound is part of what
  is asked, since the contract is about answers of that database.\<close>

interpretation coherent_items: coherent_cache "get_item rc" "\<lambda>_. set_item rc"
  "\<lambda>i r. ir_game_id r = i" "\<lambda>_. item_encodable rc" "item_storable rc" "factory_ok rc"
  "coherent rc loc U D n" "\<lambda>_. db_ok D" "\<lambda>i v. item_answer i D = Some v" for rc loc U D n
proof unfold_locales
  show "keeps (redis_rely (coherent rc loc U D n)) (set_item rc v (Some g))"
    if "db_ok D" "item_answer i D = Some v" "generation_text g" for i v g
    using keeps_cache_set [OF coherent_write_item [OF that(2,1,3)]] item_answer_ok [OF that(1,2)]
    by (simp add: set_item_def)
qed (auto intro: keeps_lookups coherent_creation coherent_hits(1) lookup_generation_text keeps_intros
  simp: set_item_def cache_set_def)

interpretation coherent_lists: coherent_cache "get_list rc" "set_list rc"
  "\<lambda>p r. lr_limit r = p_limit p \<and> lr_offset r = p_offset p" "list_encodable rc" "list_storable rc"
  "factory_ok rc" "coherent rc loc U D n" "\<lambda>p. db_ok D \<and> p \<in> U" "\<lambda>p v. v = list_answer loc p D"
  for rc loc U D n
proof unfold_locales
  show "keeps (redis_rely (coherent rc loc U D n)) (set_list rc p v (Some g))"
    if "db_ok D \<and> p \<in> U" "v = list_answer loc p D" "generation_text g" for p v g
    using keeps_cache_set [OF coherent_write_list, of D p U g] that
    by (auto simp: set_list_def list_answer_def intro!: keeps_intros)
qed (auto intro: keeps_lookups coherent_creation coherent_hits(2) lookup_generation_text keeps_intros
  simp: set_list_def cache_set_def)

interpretation coherent_meta: coherent_cache "get_meta rc" "\<lambda>_. set_meta rc"
  "\<lambda>a r. mr_api_version r = a" "\<lambda>_. meta_encodable rc" "meta_storable rc" "factory_ok rc"
  "coherent rc loc U D n" "\<lambda>a. db_ok D \<and> list_all scalar a" "\<lambda>a v. v = meta_answer a D"
  for rc loc U D n
proof unfold_locales
  show "keeps (redis_rely (coherent rc loc U D n)) (set_meta rc v (Some g))"
    if "db_ok D \<and> list_all scalar a" "v = meta_answer a D" "generation_text g" for a v g
    using keeps_cache_set [OF coherent_write_meta, of D a g] that
    by (simp add: set_meta_def meta_answer_def meta_response_of_def)
qed (auto intro: keeps_lookups coherent_creation coherent_hits(3) lookup_generation_text keeps_intros
  simp: set_meta_def cache_set_def)

section \<open>The service over a database that does not change\<close>

definition quiet_database :: "database \<Rightarrow> world \<Rightarrow> bool" where
  "quiet_database D w \<longleftrightarrow> db_ok D \<and> db_rely (\<lambda>db. db = D) w"

lemma quiet_database_frame:
  "quiet_database D w \<Longrightarrow> database w' = database w \<Longrightarrow> db_events w' = db_events w \<Longrightarrow> quiet_database D w'"
  by (simp add: quiet_database_def db_rely_def)

lemma quiet_loads:
  assumes "quiet_database D w"
  shows "load_item (sqlalchemy_item_repository loc) i w = (Inr v, w') \<Longrightarrow> item_answer i D = Some v"
    and "load_list (sqlalchemy_item_repository loc) p w = (Inr l, w') \<Longrightarrow> l = list_answer loc p D"
    and "load_meta (sqlalchemy_item_repository loc) a w = (Inr m, w') \<Longrightarrow> m = meta_answer a D"
proof -
  have ok: "db_ok D" "db_rely (\<lambda>db. db = D) w" using assms by (simp_all add: quiet_database_def)
  show "item_answer i D = Some v" if "load_item (sqlalchemy_item_repository loc) i w = (Inr v, w')"
    using load_item_value [OF ok(2) _ that] ok(1) by auto
  show "l = list_answer loc p D" if "load_list (sqlalchemy_item_repository loc) p w = (Inr l, w')"
    using load_list_value [OF ok(2) _ that] ok(1) by (auto simp: list_answer_def)
  show "m = meta_answer a D" if "load_meta (sqlalchemy_item_repository loc) a w = (Inr m, w')"
    using load_meta_value [OF ok(2) _ that] ok(1) by auto
qed

lemma quiet_database_ok: "quiet_database D w \<Longrightarrow> db_ok D"
  by (simp add: quiet_database_def)

lemma service_coherent_item:
  assumes "redis_rely (coherent rc loc U D n) w" "quiet_database D w"
    "svc_get_by_game_id (item_service_of loc rc) i w = (r, w')"
  shows "redis_rely (coherent rc loc U D n) w' \<and> (\<forall>v. r = Inr v \<longrightarrow> item_answer i D = Some v)"
  by (rule coherent_items.aside_coherent [where Q = "quiet_database D" and w = w and r = r and w' = w' and
        load = "load_item (sqlalchemy_item_repository loc) i" and resource = "lit ''item''", OF assms(1,2) quiet_database_ok [OF assms(2)]
        quiet_database_frame quiet_loads(1) load_frame(1,2)
        assms(3) [unfolded service_is_cache_aside repository_simps redis_cache_simps]])

lemma service_coherent_list:
  assumes "redis_rely (coherent rc loc U D n) w" "quiet_database D w" "p \<in> U"
    "svc_list_items (item_service_of loc rc) p w = (r, w')"
  shows "redis_rely (coherent rc loc U D n) w' \<and> (\<forall>v. r = Inr v \<longrightarrow> v = list_answer loc p D)"
  by (rule coherent_lists.aside_coherent [where Q = "quiet_database D" and w = w and r = r and w' = w' and
        load = "load_list (sqlalchemy_item_repository loc) p" and resource = "lit ''list''", OF assms(1,2) conjI [OF quiet_database_ok [OF assms(2)] assms(3)]
        quiet_database_frame quiet_loads(2) load_frame(3,4)
        assms(4) [unfolded service_is_cache_aside repository_simps redis_cache_simps]])

lemma service_coherent_meta:
  assumes "redis_rely (coherent rc loc U D n) w" "quiet_database D w" "list_all scalar a"
    "svc_get_meta (item_service_of loc rc) a w = (r, w')"
  shows "redis_rely (coherent rc loc U D n) w' \<and> (\<forall>v. r = Inr v \<longrightarrow> v = meta_answer a D)"
  by (rule coherent_meta.aside_coherent [where Q = "quiet_database D" and w = w and r = r and w' = w' and
        load = "load_meta (sqlalchemy_item_repository loc) a" and resource = "lit ''meta''", OF assms(1,2) conjI [OF quiet_database_ok [OF assms(2)] assms(3)]
        quiet_database_frame quiet_loads(3) load_frame(5,6)
        assms(4) [unfolded service_is_cache_aside repository_simps redis_cache_simps]])

text \<open>Coherence begins with an invalidation: under a generation that has no entries yet, it
  holds for any database.\<close>

definition no_entries_from :: "nat \<Rightarrow> redis_store \<Rightarrow> bool" where
  "no_entries_from n st \<longleftrightarrow> (\<forall>k s. n \<le> k \<longrightarrow> st (cache_key (str_nat k) s) = None)"

lemma entry_value_missing:
  "pydantic_ok (rc_pydantic rc) \<Longrightarrow> st (cache_key g s) = None \<Longrightarrow> entry_value rc m st g s = None"
  by (simp add: entry_value_def redis_bytes_def decode_payload_def pydantic_laws(7))

lemma coherent_from_empty:
  "generation_from n st \<Longrightarrow> no_entries_from n st \<Longrightarrow> pydantic_ok (rc_pydantic rc) \<Longrightarrow> digest_ok rc U \<Longrightarrow>
   coherent rc loc U D n st"
  by (simp add: coherent_def entries_fresh_def no_entries_from_def entry_value_missing)

end
