(* ===== verification/Samples.thy ===== *)
theory Samples
  imports ItemsCoherence
begin

text \<open>
  Concrete instances on which the theorems about the items service are evaluated:
  a row, a database, a cache object and a world with a cache generation.
\<close>

definition sample_row :: item_row where
  "sample_row =
     \<lparr>it_id = 1, it_game_id = 5, it_name = lit ''My Reflection'', it_description = lit ''Boomerang'',
      it_quality = Some 2, it_item_type = Some (lit ''passive''), it_recharge_time = None,
      it_image_url = lit ''https://x.io/5.png'', it_introduced_in_version = None,
      it_created_at = 0, it_updated_at = 0\<rparr>"

definition sample_db :: database where
  "sample_db =
     \<lparr>items_table = [sample_row],
      metadata_table =
        [\<lparr>md_id = 1, md_dataset_version = lit ''1.0'', md_game_version = None, md_last_sync = 0\<rparr>],
      items_id_seq = 2\<rparr>"

definition sample_cache :: redis_item_cache where
  "sample_cache =
     \<lparr>rc_pydantic = plain_pydantic, rc_sha256 = map (\<lambda>c. if scalar c then c else 63),
      rc_recursion = payload_depth, rc_decode = False, rc_generation_factory = new_generation,
      rc_item_ttl = ITEM_TTL_SECONDS, rc_list_ttl = LIST_TTL_SECONDS, rc_meta_ttl = META_TTL_SECONDS\<rparr>"

definition sample_params :: item_list_params where
  "sample_params =
     \<lparr>p_search = Some (lit ''refl''), p_quality = None, p_type = None, p_version = None,
      p_sort = SortName, p_order = Asc, p_limit = 20, p_offset = 0\<rparr>"

definition sample_world :: world where
  "sample_world =
     \<lparr>redis = [CACHE_GENERATION_KEY \<mapsto> (str_nat 7, None)], database = sample_db, redis_events = [],
      db_events = [], entropy = [], logs = []\<rparr>"

abbreviation sample_service :: item_service where
  "sample_service \<equiv> item_service_of ascii_locale sample_cache"

lemma sample_world_simps [simp]:
  "redis_events sample_world = []" "db_events sample_world = []" "database sample_world = sample_db"
  "redis sample_world (cache_key g s) = None"
  by (simp_all add: sample_world_def)

lemma sample_cache_simps [simp]:
  "rc_pydantic sample_cache = plain_pydantic" "rc_generation_factory sample_cache = new_generation"
  "rc_recursion sample_cache = payload_depth"
  by (simp_all add: sample_cache_def)

lemma sample_factory [simp]: "factory_ok sample_cache"
  by (rule factory_ok_new_generation) simp

lemma sample_generation [simp]: "stored_generation sample_world = Some 7"
  by (rule stored_generation_str_nat) (simp_all add: sample_world_def)

lemma sample_row_ok: "item_row_ok sample_row"
  by (simp add: item_row_ok_def sample_row_def int4_def pg_text_def lit_def scalar_def)

lemma sample_db_ok [simp]: "db_ok sample_db"
  using sample_row_ok
  by (simp add: db_ok_def sample_db_def metadata_row_ok_def pg_text_def btrim_eq_Nil_iff lit_def
      scalar_def sample_row_def)

lemma sample_quiet [simp]: "quiet_database sample_db sample_world"
  by (simp add: quiet_database_def db_rely_def)

lemma sample_digest: "digest_ok sample_cache {sample_params}"
proof -
  have "list_all scalar (map (\<lambda>c. if scalar c then c else 63) t)" for t
    by (auto simp: list_all_iff) (simp add: scalar_def)
  then show ?thesis
    using scalar_lit [of "''refl''"]
    by (simp add: digest_ok_def sample_cache_def sample_params_def params_text_ok_def int_ok_int8 int8_def)
qed

lemma sample_coherent: "redis_rely (coherent sample_cache ascii_locale {sample_params} sample_db 7) sample_world"
proof -
  have "generation_from 7 (redis sample_world)"
    by (auto simp: generation_from_def sample_world_def intro!: exI [of _ 7])
  moreover have "no_entries_from 7 (redis sample_world)" by (simp add: no_entries_from_def)
  ultimately show ?thesis
    using plain_pydantic_ok sample_digest by (simp add: redis_rely_def coherent_from_empty)
qed

lemma sample_answer: "item_answer 5 sample_db = Some (response_of_row sample_row)"
  by (simp add: item_answer_def find_item_def sample_db_def sample_row_def)

lemma sample_load:
  "db_events w = [] \<Longrightarrow> database w = sample_db \<Longrightarrow>
   load_item (sqlalchemy_item_repository loc) 5 w = (Inr (response_of_row sample_row), w)"
  by (simp add: load_item_def sql_get_by_game_id_def sql_scalar_def execute_def db_call_def
      select_stmt_def scalar_one_or_none_def bindM_def catchM_def int4_def response_of_row_def
      sample_db_def sample_row_def)

lemma sample_storable: "item_storable sample_cache 5 (response_of_row sample_row)"
  using plain_pydantic_ok response_of_row_ok [OF sample_row_ok]
  by (simp add: item_storable_def)
     (simp add: storable_def oversized_list_def encode_payload_def sample_cache_def plain_pydantic_def
       item_to_json_def response_of_row_def sample_row_def to_item_response_def to_record_def lit_def
       dumps_str_def json_opt_def str_int_def str_nat.simps escape_char_def utf8_encode_def
       MAX_CACHE_PAYLOAD_BYTES_def scalar_def utf8_char_def)

end
