(* ===== verification/ItemsTheorems.thy ===== *)
theory ItemsTheorems
  imports Samples
begin

text \<open>
  The properties of the items API: the cached operations of \<open>ItemService\<close> on
  \<open>SqlAlchemyItemRepository\<close> and \<open>RedisItemCache\<close>, and the queries underneath.
\<close>

section \<open>Facts the properties share\<close>

lemma result_run: "result m s = r \<Longrightarrow> m s = (r, final m s)"
  by (simp add: prod_eq_iff)

lemma load_item_encodable:
  assumes "db_rely P w" "\<And>db. P db \<Longrightarrow> db_ok db" "pydantic_ok (rc_pydantic rc)"
    "result (load_item (sqlalchemy_item_repository loc) i) w = Inr v"
  shows "item_encodable rc v"
proof -
  obtain w' where "load_item (sqlalchemy_item_repository loc) i w = (Inr v, w')"
    using assms(4) by (metis prod.collapse)
  then obtain db where "P db" "item_answer i db = Some v"
    using load_item_value [OF assms(1,2)] by blast
  then show ?thesis using item_answer_ok [OF assms(2)] assms(3) by (simp add: item_encodable_def)
qed

lemma set_other_generation:
  assumes "redis_events w = []" "stored_generation w = Some n" "generation_text g" "g \<noteq> str_nat n"
  shows "\<exists>w'. final (cache_set rc s v ttl (Some g)) w = w' \<and> redis_events w' = [] \<and>
    stored_generation w' = Some n \<and>
    (\<forall>t. redis_bytes (redis w') (cache_key (str_nat n) t) = redis_bytes (redis w) (cache_key (str_nat n) t))"
proof -
  have n: "generation_text (str_nat n)"
    using stored_generationD [OF assms(2)] by (simp add: generation_text_str_nat)
  then have "cache_key g s \<noteq> cache_key (str_nat n) t" "cache_key (str_nat n) t \<noteq> cache_key g s" for t
    using cache_key_inject [OF assms(3) n, of s t] assms(4) by auto
  then show ?thesis
    using assms(1,2)
    by (auto simp: cache_set_def Let_def log_invalid_payload_def emit_def client_set_def redis_call_def
        redis_set_def bindM_def redis_bytes_def stored_generation_def split: option.split prod.split)
qed

text \<open>The errors of a load: not found, on a state of the database that does not have the
  item, or the service-unavailable error.\<close>

lemma execute_error:
  assumes "db_trusted P w" "execute (db_call (select_stmt b q)) w = (Inl e, w')"
  shows "e = SERVICE_UNAVAILABLE"
  using safeD [OF safe_execute assms] by simp

lemma load_item_error:
  assumes "db_trusted P w" "\<And>db. P db \<Longrightarrow> db_ok db"
    "load_item (sqlalchemy_item_repository loc) i w = (Inl e, w')"
  shows "e = SERVICE_UNAVAILABLE \<or>
    (\<exists>db. P db \<and> item_answer i db = None \<and>
       e = item_not_found (lit ''Item '' @ str_int i @ lit '' does not exist''))"
proof (cases "sql_get_by_game_id i w")
  case (Pair r w1)
  show ?thesis
  proof (cases r)
    case (Inl x)
    then have "load_item (sqlalchemy_item_repository loc) i w = (Inl x, w1)"
      using Pair by (simp add: load_item_def bindM_def)
    moreover have "x = SERVICE_UNAVAILABLE"
    proof -
      obtain r1 w2 where ex: "execute (db_call (select_stmt (int4 i)
          (\<lambda>_ db. filter (\<lambda>r. it_game_id r = i) (items_table db)))) w = (r1, w2)" by fastforce
      show ?thesis
      proof (cases r1)
        case (Inl y)
        then show ?thesis
          using Pair \<open>r = Inl x\<close> ex execute_error [OF assms(1)]
          by (auto simp: sql_get_by_game_id_def sql_scalar_def bindM_def)
      next
        case (Inr rows)
        then obtain db where "P db" "rows = filter (\<lambda>r. it_game_id r = i) (items_table db)"
          using execute_value [of P w] ex assms(1) by (fastforce simp: db_trusted_def)
        then show ?thesis
          using Pair \<open>r = Inl x\<close> ex Inr scalar_by_game_id [OF assms(2)]
          by (auto simp: sql_get_by_game_id_def sql_scalar_def bindM_def)
      qed
    qed
    ultimately show ?thesis using assms(3) by simp
  next
    case (Inr x)
    obtain db where "P db" "x = map_option to_record (find_item i db)"
      using get_by_game_id_value [OF _ assms(2)] Pair Inr assms(1) by (force simp: db_trusted_def)
    then show ?thesis
      using assms(3) Pair Inr by (cases "find_item i db") (auto simp: load_item_def bindM_def item_answer_def)
  qed
qed

lemma random_rows:
  assumes "db_rely P w" "sql_get_random loc s q t v w = (r, w')"
  shows "(\<exists>db. P db \<and> (let rows = apply_filters loc s q t v (items_table db) in
       (rows = [] \<and> r = Inr None) \<or> (\<exists>row\<in>set rows. r = Inr (Some (to_record row))))) \<or>
     (\<exists>e. r = Inl e \<and> (db_faults database_failure w \<longrightarrow> e = SERVICE_UNAVAILABLE))"
proof -
  let ?q = "\<lambda>n db. pick n (apply_filters loc s q t v (items_table db))"
  obtain r1 w1 where ex: "execute (db_call (select_stmt (filter_binds s q t v) ?q)) w = (r1, w1)"
    by fastforce
  show ?thesis
  proof (cases r1)
    case (Inl e)
    have e: "e = SERVICE_UNAVAILABLE" if "db_faults database_failure w"
      by (rule execute_error [of P w, OF _ ex [unfolded Inl]]) (simp add: db_trusted_def assms(1) that)
    have "sql_get_random loc s q t v w = (Inl e, w1)"
      unfolding sql_get_random_def sql_scalar_def
      by (rule bindM_Inl, rule bindM_Inl, rule ex [unfolded Inl])
    then have "r = Inl e" using assms(2) by simp
    with e have "\<exists>e. r = Inl e \<and> (db_faults database_failure w \<longrightarrow> e = SERVICE_UNAVAILABLE)"
      by simp
    then show ?thesis ..
  next
    case (Inr rows)
    then obtain n db where db: "P db" "rows = ?q n db"
      using execute_value [OF assms(1) ex [unfolded Inr]] by blast
    show ?thesis
    proof (cases "apply_filters loc s q t v (items_table db)")
      case Nil
      then show ?thesis
        using assms(2) ex Inr db
        by (auto simp: sql_get_random_def sql_scalar_def bindM_def pick_def scalar_one_or_none_def)
    next
      case (Cons row rest)
      then have "n mod length (row # rest) < length (row # rest)" by simp
      then have "(row # rest) ! (n mod length (row # rest)) \<in> set (row # rest)" by (rule nth_mem)
      then show ?thesis
        using assms(2) ex Inr db Cons
        by (intro disjI1 exI [of _ db])
           (auto simp: sql_get_random_def sql_scalar_def bindM_def pick_def scalar_one_or_none_def Let_def)
    qed
  qed
qed

lemma safe_sql_lists:
  "safe (db_trusted P) (\<lambda>e. e = SERVICE_UNAVAILABLE) (sql_list_items loc s q t v srt ord l off)"
  "safe (db_trusted P) (\<lambda>e. e = SERVICE_UNAVAILABLE) (sql_count_items loc s q t v)"
  "safe (db_trusted P) (\<lambda>e. e = SERVICE_UNAVAILABLE) sql_get_catalog_meta"
  by (auto simp: sql_list_items_def sql_count_items_def sql_get_catalog_meta_def sql_scalars_def
      intro!: safe_intros safe_execute split: prod.splits)

lemma safe_loads:
  "safe (db_trusted P) (\<lambda>e. e = SERVICE_UNAVAILABLE) (load_list (sqlalchemy_item_repository loc) p)"
  "safe (db_trusted P) (\<lambda>e. e = SERVICE_UNAVAILABLE) (load_meta (sqlalchemy_item_repository loc) a)"
  by (auto simp: load_list_def load_meta_def intro!: safe_intros safe_sql_lists)

text \<open>What a successful or failed load is on a quiet database.\<close>

lemma quiet_trusted:
  "quiet_database D w \<Longrightarrow> db_faults database_failure w \<Longrightarrow> db_trusted (\<lambda>db. db = D) w"
  by (simp add: quiet_database_def db_trusted_def)

lemma quiet_list_result:
  assumes "quiet_database D w" "result (load_list (sqlalchemy_item_repository loc) p) w = Inr v"
  shows "v = list_answer loc p D"
  using quiet_loads(2) [OF assms(1)] result_run [where m = "load_list (sqlalchemy_item_repository loc) p", OF assms(2)]
  by blast

section \<open>The cached operations\<close>

text \<open>C8. A request for an item never gets stale or foreign data from the cache. The hypotheses: the
  cache is coherent from the current generation on, as it is right after an invalidation; the
  other clients of Redis, who interleave as they like, keep it so; nobody changes the tables
  meanwhile; calls to Redis fail only with \<open>CACHE_FAILURES\<close>, and those to PostgreSQL only with
  what the repository catches (\<open>OSError\<close>, \<open>TimeoutError\<close>, \<open>SQLAlchemyError\<close>). Then the answer is the
  row with that \<open>game_id\<close>, a 404 only when there is none, or the service-unavailable error.\<close>

theorem item_request_coherent:
  assumes "redis_rely (coherent rc loc U D n) w" "quiet_database D w" "factory_ok rc"
    "redis_faults CACHE_FAILURES w" "db_faults database_failure w"
  shows "case result (svc_get_by_game_id (item_service_of loc rc) i) w of
      Inr v \<Rightarrow> item_answer i D = Some v
    | Inl e \<Rightarrow> e = SERVICE_UNAVAILABLE \<or>
        (item_answer i D = None \<and>
         e = item_not_found (lit ''Item '' @ str_int i @ lit '' does not exist''))"
proof (cases "result (svc_get_by_game_id (item_service_of loc rc) i) w")
  case (Inr v)
  then show ?thesis
    using service_coherent_item [OF assms(1,2) result_run [where m = "svc_get_by_game_id (item_service_of loc rc) i", OF Inr]] by simp
next
  case (Inl e)
  have D: "db_ok D" "db_rely (\<lambda>db. db = D) w" using assms(2) by (simp_all add: quiet_database_def)
  have pd: "pydantic_ok (rc_pydantic rc)"
    using redis_rely_redis [OF assms(1)] by (simp add: coherent_def)
  have enc: "item_encodable rc v" if "result (load_item (sqlalchemy_item_repository loc) i) w = Inr v" for v
    using load_item_encodable [OF D(2) _ pd that] D(1) by simp
  have "result (load_item (sqlalchemy_item_repository loc) i) w = Inl e"
    using item_entries.aside_outcome [where resource = "lit ''item''" and k = i and
        load = "load_item (sqlalchemy_item_repository loc) i", OF assms(3,4) load_db_only(1) load_frame(2) enc] Inl
    by (auto simp: service_is_cache_aside)
  then show ?thesis
    using load_item_error [of "\<lambda>db. db = D" w loc i e, OF _ _ result_run [where m = "load_item (sqlalchemy_item_repository loc) i"]] assms(5) D Inl
    by (auto simp: db_trusted_def)
qed

theorem item_request_coherent_witness:
  "case result (svc_get_by_game_id sample_service 5) sample_world of
      Inr v \<Rightarrow> item_answer 5 sample_db = Some v
    | Inl e \<Rightarrow> e = SERVICE_UNAVAILABLE \<or>
        (item_answer 5 sample_db = None \<and>
         e = item_not_found (lit ''Item '' @ str_int 5 @ lit '' does not exist''))"
  by (rule item_request_coherent [OF sample_coherent])
     (simp_all add: redis_faults_def db_faults_def)

text \<open>C11. The same, under the same hypotheses, for a listing whose parameters are in a set on which the
  digest of the cache's keys has no collision: a successful answer is exactly the requested page,
  in the requested order, with the total of all matching rows; the only error is the
  service-unavailable error.\<close>

theorem list_request_coherent:
  assumes "redis_rely (coherent rc loc U D n) w" "quiet_database D w" "factory_ok rc" "p \<in> U"
    "redis_faults CACHE_FAILURES w" "db_faults database_failure w"
  shows "case result (svc_list_items (item_service_of loc rc) p) w of
      Inr v \<Rightarrow> v = list_answer loc p D
    | Inl e \<Rightarrow> e = SERVICE_UNAVAILABLE"
proof (cases "result (svc_list_items (item_service_of loc rc) p) w")
  case (Inr v)
  then show ?thesis
    using service_coherent_list [OF assms(1,2,4) result_run [where
          m = "svc_list_items (item_service_of loc rc) p", OF Inr]] by simp
next
  case (Inl e)
  have coh: "pydantic_ok (rc_pydantic rc)" "digest_ok rc U"
    using redis_rely_redis [OF assms(1)] by (simp_all add: coherent_def)
  then have "list_encodable rc p (list_answer loc p D)"
    using list_answer_ok [OF quiet_database_ok [OF assms(2)]] assms(4) list_suffix_scalar
    by (auto simp: list_encodable_def digest_ok_def)
  then have enc: "list_encodable rc p v"
    if "result (load_list (sqlalchemy_item_repository loc) p) w = Inr v" for v
    using quiet_list_result [OF assms(2) that] by simp
  have "result (load_list (sqlalchemy_item_repository loc) p) w = Inl e"
    using list_entries.aside_outcome [where resource = "lit ''list''" and k = p and
        load = "load_list (sqlalchemy_item_repository loc) p", OF assms(3,5) load_db_only(2)
        load_frame(4) enc] Inl
    by (auto simp: service_is_cache_aside)
  then show ?thesis
    using safeD [OF safe_loads(1) quiet_trusted [OF assms(2,6)] result_run [where
          m = "load_list (sqlalchemy_item_repository loc) p"]] Inl by simp
qed

theorem list_request_coherent_witness:
  "case result (svc_list_items sample_service sample_params) sample_world of
      Inr v \<Rightarrow> v = list_answer ascii_locale sample_params sample_db
    | Inl e \<Rightarrow> e = SERVICE_UNAVAILABLE"
  by (rule list_request_coherent [OF sample_coherent])
     (simp_all add: redis_faults_def db_faults_def)

text \<open>C18. A cache that fails is invisible: whatever the state of the cache and the
  interference, when the calls to Redis that fail do so with one of \<open>CACHE_FAILURES\<close>,
  a request for an item ends as a hit on an entry with that \<open>game_id\<close>, or exactly as
  it would without a cache.\<close>

theorem item_request_fail_open:
  assumes "factory_ok rc" "pydantic_ok (rc_pydantic rc)" "redis_faults CACHE_FAILURES w"
    "db_rely db_ok w"
  shows "(\<exists>l v w'. get_item rc i w = (Inr l, w') \<and> lk_value l = Some v \<and> ir_game_id v = i \<and>
            svc_get_by_game_id (item_service_of loc rc) i w = (Inr v, w')) \<or>
         result (svc_get_by_game_id (item_service_of loc rc) i) w =
         result (load_item (sqlalchemy_item_repository loc) i) w"
proof -
  have enc: "item_encodable rc v" if "result (load_item (sqlalchemy_item_repository loc) i) w = Inr v" for v
    using load_item_encodable [OF assms(4) _ assms(2) that] by simp
  show ?thesis
    using item_entries.aside_outcome [where resource = "lit ''item''" and k = i and
        load = "load_item (sqlalchemy_item_repository loc) i", OF assms(1,3) load_db_only(1)
        load_frame(2) enc]
    by (simp add: service_is_cache_aside)
qed

text \<open>Redis is down for the whole request.\<close>

definition outage_world :: world where
  "outage_world = sample_world\<lparr>redis_events :=
     replicate 5 \<lparr>re_others = id, re_fault = Some RedisConnectionError, re_executed = False\<rparr>\<rparr>"

theorem item_request_fail_open_witness:
  "result (svc_get_by_game_id sample_service 5) outage_world = Inr (response_of_row sample_row)"
proof -
  have "redis_faults CACHE_FAILURES outage_world"
    by (simp add: redis_faults_def outage_world_def CACHE_FAILURES_def numeral_eq_Suc)
  moreover have "db_rely db_ok outage_world" by (simp add: db_rely_def outage_world_def)
  moreover have "result (get_item sample_cache 5) outage_world = Inl RedisConnectionError"
    by (simp add: get_item_def cache_get_def cache_generation_def read_generation_def client_getrange_def
        redis_call_def redis_getrange_def outage_world_def bindM_def catchM_def numeral_eq_Suc)
  moreover have "load_item (sqlalchemy_item_repository ascii_locale) 5 outage_world =
      (Inr (response_of_row sample_row), outage_world)"
    by (rule sample_load) (simp_all add: outage_world_def)
  ultimately show ?thesis
    using item_request_fail_open [of sample_cache outage_world 5 ascii_locale] plain_pydantic_ok by auto
qed

text \<open>C26. A miss fills the cache: when the services are calm, the answer of a request for an
  item is stored, and the next request for it is answered from the cache, without
  the database, whatever repository it would use.\<close>

lemma calm_load_item:
  assumes "db_events w = []" "db_ok (database w)" "item_answer i (database w) = Some v"
  shows "load_item (sqlalchemy_item_repository loc) i w = (Inr v, w)"
proof -
  obtain r where r: "find_item i (database w) = Some r" "v = response_of_row r"
    using assms(3) by (auto simp: item_answer_def)
  then have "r \<in> set (items_table (database w))" "it_game_id r = i"
    by (auto simp: find_item_def find_Some_iff)
  then have "int4 i" using assms(2) by (auto simp: db_ok_def item_row_ok_def list_all_iff)
  then show ?thesis
    using assms(1) r scalar_by_game_id [OF assms(2), of i]
    by (simp add: load_item_def sql_get_by_game_id_def sql_scalar_def execute_def db_call_def
        select_stmt_def bindM_def catchM_def response_of_row_def)
qed

theorem item_request_fills:
  assumes "redis_events w = []" "db_events w = []" "db_ok (database w)" "stored_generation w = Some n"
    "redis w (cache_key (str_nat n) (item_suffix i)) = None" "item_answer i (database w) = Some v"
    "item_storable rc i v"
  shows "\<exists>w'. svc_get_by_game_id (item_service_of loc rc) i w = (Inr v, w') \<and>
    (\<forall>repo. svc_get_by_game_id \<lparr>svc_repository = repo, svc_cache = redis_cache rc\<rparr> i w' = (Inr v, w'))"
proof -
  let ?w1 = "w\<lparr>logs := logs w @
     [log_entry_of (lit ''app.cache'') (lit ''WARNING'') (lit ''cache_payload_invalid'') []]\<rparr>"
  have miss: "get_item rc i w = (Inr \<lparr>lk_value = None, lk_generation = Some (str_nat n)\<rparr>, ?w1)"
    using lookups_calm_miss(1) [OF assms(1,4) _ assms(5)] assms(7)
    by (simp add: item_storable_def invalid_miss_run)
  have gen: "stored_generation ?w1 = Some n"
    using assms(4) by (simp add: stored_generation_cong [of ?w1 w])
  have load: "load_item (sqlalchemy_item_repository loc) i ?w1 = (Inr v, ?w1)"
    by (rule calm_load_item) (simp_all add: assms)
  have id: "ir_game_id v = i" using item_answer_ok [OF assms(3,6)] by simp
  have calm: "redis_events ?w1 = []" using assms(1) by simp
  obtain w' where "svc_get_by_game_id (item_service_of loc rc) i w = (Inr v, w')"
    "get_item rc i w' = (Inr \<lparr>lk_value = Some v, lk_generation = Some (str_nat n)\<rparr>, w')"
    using item_entries.aside_stores [where resource = "lit ''item''" and w = w and k = i and
        load = "load_item (sqlalchemy_item_repository loc) i", OF calm gen miss load refl calm assms(7) id]
    by (auto simp: service_is_cache_aside)
  then show ?thesis
    using item_entries.aside_hit(1) [of rc i w' _ w' v] by (auto simp: service_is_cache_aside)
qed

theorem item_request_fills_witness:
  "\<exists>w'. svc_get_by_game_id sample_service 5 sample_world = (Inr (response_of_row sample_row), w') \<and>
    (\<forall>repo. svc_get_by_game_id \<lparr>svc_repository = repo, svc_cache = redis_cache sample_cache\<rparr> 5 w' =
       (Inr (response_of_row sample_row), w'))"
  by (rule item_request_fills [where n = 7]) (simp_all add: sample_answer sample_storable)

text \<open>An invalidation moves to the next generation, under which every lookup misses and
  the cache is coherent with whatever the database holds.\<close>

lemma invalidate_refreshes:
  assumes "redis_events w = []" "stored_generation w = Some n" "n < MAX_GENERATION"
    "no_entries_from (Suc n) (redis w)" "pydantic_ok (rc_pydantic rc)" "digest_ok rc U"
  shows "\<exists>w'. invalidate rc w = (Inr (int n + 1), w') \<and> stored_generation w' = Some (Suc n) \<and>
    database w' = database w \<and> coherent rc loc U D (Suc n) (redis w') \<and>
    get_item rc i w' = invalid_miss (Some (str_nat (Suc n))) w' \<and>
    get_list rc p w' = invalid_miss (Some (str_nat (Suc n))) w' \<and>
    get_meta rc a w' = invalid_miss (Some (str_nat (Suc n))) w'"
proof -
  obtain ttl where inv: "invalidate rc w = (Inr (int n + 1),
      w\<lparr>redis := (redis w)(CACHE_GENERATION_KEY \<mapsto> (str_nat (Suc n), ttl))\<rparr>)" (is "_ = (_, ?w)")
    using invalidate_calm [OF assms(1-3)] by blast
  have gen: "stored_generation ?w = Some (Suc n)"
    using assms(3) by (intro stored_generation_str_nat) simp_all
  have above: "generation_from (Suc n) (redis ?w)" "no_entries_from (Suc n) (redis ?w)"
    using assms(3,4) by (auto simp: generation_from_def no_entries_from_def intro!: exI [of _ "Suc n"])
  have calm: "redis_events ?w = []" using assms(1) by simp
  have "redis ?w (cache_key (str_nat (Suc n)) s) = None" for s
    using above(2) by (simp add: no_entries_from_def)
  then show ?thesis
    using inv gen coherent_from_empty [OF above assms(5,6)] lookups_calm_miss [OF calm gen assms(5)]
    by auto
qed

section \<open>The cache\<close>

text \<open>The generation in Redis never decreases: every method of the cache, however it ends,
  leaves it at least where the other clients had put it, an increment at the
  maximum included.\<close>

lemma cache_generation_monotone:
  "keeps (redis_rely (generation_from n)) (get_item rc i) \<and>
   keeps (redis_rely (generation_from n)) (get_list rc p) \<and>
   keeps (redis_rely (generation_from n)) (get_meta rc a) \<and>
   keeps (redis_rely (generation_from n)) (set_item rc r (Some g)) \<and>
   keeps (redis_rely (generation_from n)) (set_list rc p l (Some g)) \<and>
   keeps (redis_rely (generation_from n)) (set_meta rc m (Some g)) \<and>
   keeps (redis_rely (generation_from n)) (invalidate rc)"
  by (simp add: keeps_lookups generation_from_survives keeps_invalidate generation_from_survives_incr
      set_item_def set_list_def set_meta_def keeps_cache_set keeps_log_invalid)

text \<open>C27. A cache object that its constructor accepted only ever stores bounded entries: at
  most two mebibytes, with a positive time to live of at most a week.\<close>

theorem cache_entries_bounded:
  assumes "make_redis_item_cache pd sha depth decode factory item_ttl list_ttl meta_ttl = Inr rc"
  shows "keeps (redis_rely entries_bounded) (get_item rc i) \<and>
    keeps (redis_rely entries_bounded) (get_list rc p) \<and>
    keeps (redis_rely entries_bounded) (get_meta rc a) \<and>
    keeps (redis_rely entries_bounded) (set_item rc r (Some g)) \<and>
    keeps (redis_rely entries_bounded) (set_list rc p l (Some g)) \<and>
    keeps (redis_rely entries_bounded) (set_meta rc m (Some g)) \<and>
    keeps (redis_rely entries_bounded) (invalidate rc)"
  using make_cache_ttls [OF assms]
  by (simp add: keeps_lookups entries_bounded_survives keeps_invalidate ttls_ok_def
      set_item_def set_list_def set_meta_def keeps_cache_set keeps_log_invalid)

theorem cache_entries_bounded_witness:
  "keeps (redis_rely entries_bounded) (get_item sample_cache 5) \<and>
    keeps (redis_rely entries_bounded) (get_list sample_cache sample_params) \<and>
    keeps (redis_rely entries_bounded) (get_meta sample_cache (lit ''0.1.0'')) \<and>
    keeps (redis_rely entries_bounded) (set_item sample_cache (response_of_row sample_row) (Some (lit ''7''))) \<and>
    keeps (redis_rely entries_bounded)
      (set_list sample_cache sample_params (list_answer ascii_locale sample_params sample_db) (Some (lit ''7''))) \<and>
    keeps (redis_rely entries_bounded)
      (set_meta sample_cache (meta_answer (lit ''0.1.0'') sample_db) (Some (lit ''7''))) \<and>
    keeps (redis_rely entries_bounded) (invalidate sample_cache)"
  by (rule cache_entries_bounded [of plain_pydantic "map (\<lambda>c. if scalar c then c else 63)" payload_depth
        False None "PyInt 86400" "PyInt 900" "PyInt 86400"])
     (simp add: make_redis_item_cache_def validate_ttl_def MAX_CACHE_TTL_SECONDS_def sample_cache_def
       ITEM_TTL_SECONDS_def LIST_TTL_SECONDS_def META_TTL_SECONDS_def)

text \<open>A write under another generation than the current one, such as the late write of a
  request that started before an invalidation, is invisible: every lookup then
  returns what it would have returned without it.\<close>

lemma cache_get_calm_cong:
  assumes "redis_events w = []" "redis_events w' = []" "stored_generation w = Some n"
    "stored_generation w' = Some n"
    "redis_bytes (redis w') (cache_key (str_nat n) s) = redis_bytes (redis w) (cache_key (str_nat n) s)"
  shows "result (cache_get rc s m) w' = result (cache_get rc s m) w"
proof -
  let ?k = "cache_key (str_nat n) s"
  have get: "result (cache_get rc s m) v =
      (case read_payload rc ?k v of
         (Inl e, _) \<Rightarrow> Inl e
       | (Inr None, _) \<Rightarrow> Inr \<lparr>lk_value = None, lk_generation = Some (str_nat n)\<rparr>
       | (Inr (Some p), _) \<Rightarrow> result (validated_lookup rc s m (str_nat n) p) v)"
    if "redis_events v = []" "stored_generation v = Some n" for v
    using that cache_generation_calm [OF that, of rc]
    by (auto simp: cache_get_def bindM_def read_payload_def catchM_def client_getrange_def redis_call_def
        redis_getrange_def invalid_miss_run split: option.split)
  have same: "result (validated_lookup rc s m g p) v = result (validated_lookup rc s m g p) v'" for g p v v'
    by (simp add: validated_lookup_def bindM_def invalid_miss_run miss_def
        split: sum.split option.split)
  have "fst (read_payload rc ?k w') = fst (read_payload rc ?k w)"
    using assms
    by (simp add: read_payload_def bindM_def catchM_def client_getrange_def redis_call_def
        redis_getrange_def split: option.split)
  then show ?thesis
    using get [OF assms(1,3)] get [OF assms(2,4)] same
    by (auto split: prod.split sum.split option.split)
qed

lemma late_write_invisible:
  assumes "redis_events w = []" "stored_generation w = Some n" "generation_text g" "g \<noteq> str_nat n"
  shows "result (get_item rc i) (final (set_item rc r (Some g)) w) = result (get_item rc i) w"
proof -
  obtain w' where w': "final (set_item rc r (Some g)) w = w'" "redis_events w' = []"
    "stored_generation w' = Some n"
    "\<And>t. redis_bytes (redis w') (cache_key (str_nat n) t) = redis_bytes (redis w) (cache_key (str_nat n) t)"
    using set_other_generation [OF assms] by (metis set_item_def)
  have same: "result (cache_get rc (item_suffix i) item_model) w' = result (cache_get rc (item_suffix i) item_model) w"
    by (rule cache_get_calm_cong [OF assms(1) w'(2) assms(2) w'(3,4)])
  have keep: "fst (keep_if ok l v) = fst (keep_if ok l v')" for ok l v v'
    by (simp add: keep_if_def invalid_miss_run split: option.split)
  show ?thesis
    using same keep unfolding w'(1)
    by (auto simp: get_item_def bindM_def split: prod.split sum.split)
qed

text \<open>C34. A listing that is stored under the current generation is read back unchanged, while no
  other client acts: the envelope, its digest key and the size checks lose nothing. The
  hypothesis \<open>list_storable\<close>: the integers and texts are within what the printer can encode, the
  payload is within the cache's own limits on items and bytes, Pydantic reads back what it
  printed, and \<open>json.loads\<close> may nest at least as deep as a payload does, four levels.\<close>

theorem list_cache_roundtrip:
  assumes "redis_events w = []" "stored_generation w = Some n" "list_storable rc p r"
    "lr_limit r = p_limit p" "lr_offset r = p_offset p"
  shows "result (get_list rc p) (final (set_list rc p r (Some (str_nat n))) w) =
    Inr \<lparr>lk_value = Some r, lk_generation = Some (str_nat n)\<rparr>"
  using list_entries.store_hit [OF assms(1-3)] assms(4,5) by auto

lemma sample_list_storable:
  "list_storable sample_cache sample_params (list_answer ascii_locale sample_params empty_database)"
proof -
  have "list_all scalar (list_suffix sample_cache sample_params)"
    by (rule list_suffix_scalar [OF sample_digest])
  moreover have "list_response_ok (list_answer ascii_locale sample_params empty_database)"
    using sample_digest by (intro list_answer_ok) (simp_all add: digest_ok_def)
  moreover have "storable sample_cache (list_suffix sample_cache sample_params)
      (CList (list_answer ascii_locale sample_params empty_database))"
    by (simp add: storable_def oversized_list_def encode_payload_def sample_cache_def plain_pydantic_def
        list_answer_def page_rows_def ordered_rows_def apply_filters_def empty_database_def sample_params_def
        list_suffix_def list_params_text_def sort_keys_params envelope_to_json_def list_response_dump_def
        lit_def dumps_str_def json_opt_def str_int_def str_nat.simps escape_char_def utf8_encode_def
        MAX_CACHE_PAYLOAD_BYTES_def scalar_def utf8_char_def)
  ultimately show ?thesis by (simp add: list_storable_def plain_pydantic_ok)
qed

theorem list_cache_roundtrip_witness:
  "result (get_list sample_cache sample_params)
     (final (set_list sample_cache sample_params (list_answer ascii_locale sample_params empty_database)
        (Some (str_nat 7))) sample_world) =
   Inr \<lparr>lk_value = Some (list_answer ascii_locale sample_params empty_database),
        lk_generation = Some (str_nat 7)\<rparr>"
  by (rule list_cache_roundtrip) (simp_all add: sample_list_storable, simp_all add: list_answer_def)

text \<open>The keys of the cache keep everything apart: different generations, different kinds
  of entry, different items and different listings never share a key.\<close>

lemma cache_keys_disjoint:
  assumes "generation_text g" "generation_text h" "digest_ok rc U" "p \<in> U" "q \<in> U"
  shows "(cache_key g (item_suffix i) = cache_key h (item_suffix j) \<longleftrightarrow> g = h \<and> i = j) \<and>
    (cache_key g (list_suffix rc p) = cache_key h (list_suffix rc q) \<longleftrightarrow> g = h \<and> p = q) \<and>
    (cache_key g (meta_suffix a) = cache_key h (meta_suffix b) \<longleftrightarrow> g = h \<and> a = b) \<and>
    cache_key g (item_suffix i) \<noteq> cache_key h (list_suffix rc p) \<and>
    cache_key g (item_suffix i) \<noteq> cache_key h (meta_suffix a) \<and>
    cache_key g (list_suffix rc p) \<noteq> cache_key h (meta_suffix a) \<and>
    CACHE_GENERATION_KEY \<notin> range (cache_key g)"
  using assms list_suffix_inject [OF assms(3-5)] by (auto simp: cache_key_inject)

section \<open>The queries\<close>

text \<open>C35. \<open>search\<close> is a case-insensitive substring test: the characters that are special in
  a pattern match only themselves.\<close>

theorem search_is_substring:
  assumes "lower_ok loc"
  shows "row_matches loc (Some s) None None None r \<longleftrightarrow>
    sublist (map (pg_lower loc) s) (map (pg_lower loc) (it_name r))"
  by (simp add: row_matches_def ilike_search_pattern [OF assms])

theorem search_is_substring_witness:
  "row_matches ascii_locale (Some (lit ''100%_'')) None None None sample_row \<longleftrightarrow>
    sublist (map (pg_lower ascii_locale) (lit ''100%_'')) (map (pg_lower ascii_locale) (it_name sample_row))"
  by (rule search_is_substring [OF lower_ok_ascii])

text \<open>C28. The pages of a listing, one after another, are the whole listing: every matching
  row exactly once, strictly ordered by the sort key with \<open>game_id\<close> as the tie-break, and
  each page is its part of it. The order in which a statement meets the rows of the table is
  arbitrary, and another one for every page.\<close>

theorem listing_pages_complete:
  assumes "db_ok db" "length (apply_filters loc s q t v (items_table db)) \<le> m * n"
  shows "let page = (\<lambda>k. select_page (met k) loc s q t v srt ord (int n) (int (k * n)) db);
      rows = concat (map page [0..<m]) in
    set rows = {r \<in> set (items_table db). row_matches loc s q t v r} \<and> distinct rows \<and>
    sorted_wrt (listed_before loc srt ord) rows \<and> (\<forall>k. page k = take n (drop (k * n) rows))"
proof -
  let ?rows = "ordered_rows loc s q t v srt ord db"
  have page: "(\<lambda>k. select_page (met k) loc s q t v srt ord (int n) (int (k * n)) db) = (\<lambda>k. take n (drop (k * n) ?rows))"
    using select_page_rows [OF assms(1)] by (simp add: page_rows_def nat_mult_distrib fun_eq_iff)
  have all: "concat (map (\<lambda>k. take n (drop (k * n) ?rows)) [0..<m]) = ?rows"
    using assms(2) by (simp add: concat_pages length_ordered_rows)
  show ?thesis
    unfolding Let_def page all
    using distinct_ordered_rows [OF db_ok_distinct [OF assms(1)]] ordered_rows_before [OF assms(1)]
    by (simp add: set_ordered_rows)
qed

theorem listing_pages_complete_witness:
  "let page = (\<lambda>k. select_page (7 * k) ascii_locale None None None None SortQuality Desc (int 2) (int (k * 2)) sample_db);
      rows = concat (map page [0..<3]) in
    set rows = {r \<in> set (items_table sample_db). row_matches ascii_locale None None None None r} \<and> distinct rows \<and>
    sorted_wrt (listed_before ascii_locale SortQuality Desc) rows \<and> (\<forall>k. page k = take 2 (drop (k * 2) rows))"
  by (rule listing_pages_complete [OF sample_db_ok]) (simp add: apply_filters_def sample_db_def)

text \<open>C36. A random item is one of the matching rows; 404 means that no row matches; any other
  outcome is the service-unavailable error. Redis is never touched.\<close>

theorem random_item_matches:
  assumes "quiet_database D w" "db_faults database_failure w"
  shows "(case result (svc_get_random (item_service_of loc rc) params) w of
      Inr v \<Rightarrow> \<exists>r \<in> set (apply_filters loc (p_search params) (p_quality params) (p_type params)
          (p_version params) (items_table D)). v = response_of_row r
    | Inl e \<Rightarrow> e = SERVICE_UNAVAILABLE \<or>
        (e = item_not_found (lit ''No item matches the given filters'') \<and>
         apply_filters loc (p_search params) (p_quality params) (p_type params) (p_version params)
           (items_table D) = [])) \<and>
    redis (final (svc_get_random (item_service_of loc rc) params) w) = redis w"
proof -
  obtain r w1 where run: "sql_get_random loc (p_search params) (p_quality params) (p_type params)
      (p_version params) w = (r, w1)" by fastforce
  have "frame redis (sql_get_random loc (p_search params) (p_quality params) (p_type params) (p_version params))"
    by (auto simp: sql_get_random_def sql_scalar_def intro!: frame_intros)
  then have "redis w1 = redis w" using run by (rule frame_eq)
  moreover have "db_rely (\<lambda>db. db = D) w" using assms(1) by (simp add: quiet_database_def)
  from random_rows [OF this run] assms(2)
  have "(apply_filters loc (p_search params) (p_quality params) (p_type params) (p_version params)
        (items_table D) = [] \<and> r = Inr None) \<or>
      (\<exists>row \<in> set (apply_filters loc (p_search params) (p_quality params) (p_type params)
        (p_version params) (items_table D)). r = Inr (Some (to_record row))) \<or>
      r = Inl SERVICE_UNAVAILABLE"
    by (auto simp: Let_def)
  ultimately show ?thesis
    using run by (auto simp: svc_get_random_def bindM_def response_of_row_def)
qed

theorem random_item_matches_witness:
  "(case result (svc_get_random sample_service sample_params) sample_world of
      Inr v \<Rightarrow> \<exists>r \<in> set (apply_filters ascii_locale (p_search sample_params) (p_quality sample_params)
          (p_type sample_params) (p_version sample_params) (items_table sample_db)). v = response_of_row r
    | Inl e \<Rightarrow> e = SERVICE_UNAVAILABLE \<or>
        (e = item_not_found (lit ''No item matches the given filters'') \<and>
         apply_filters ascii_locale (p_search sample_params) (p_quality sample_params)
           (p_type sample_params) (p_version sample_params) (items_table sample_db) = [])) \<and>
    redis (final (svc_get_random sample_service sample_params) sample_world) = redis sample_world"
  by (rule random_item_matches [OF sample_quiet]) (simp add: db_faults_def)

end
