(* ===== verification/Url.thy ===== *)
theory Url
  imports Errors
begin

text \<open>
  The parts of \<open>urllib.parse\<close> and \<open>ipaddress\<close> that the program calls on URLs:
  \<open>urlsplit\<close> with the properties of its result (\<open>hostname\<close>, \<open>port\<close>, \<open>username\<close>,
  \<open>password\<close>), \<open>unquote\<close>, \<open>parse_qs\<close> and \<open>ip_address\<close>, as in Python 3.13. The two
  functions of the Unicode database that they use, \<open>str.lower\<close> and the NFKC
  normal form, are parameters.
\<close>

record unicode_db =
  uc_lower :: "pystr \<Rightarrow> pystr"
  uc_nfkc :: "pystr \<Rightarrow> pystr"

definition ascii_lower :: "nat \<Rightarrow> nat" where
  "ascii_lower c = (if 65 \<le> c \<and> c \<le> 90 then c + 32 else c)"

text \<open>On ASCII text both are what ASCII defines.\<close>

definition unicode_ok :: "unicode_db \<Rightarrow> bool" where
  "unicode_ok u \<longleftrightarrow> (\<forall>s. isascii s \<longrightarrow> uc_lower u s = map ascii_lower s \<and> uc_nfkc u s = s)"

definition ascii_unicode :: unicode_db where
  "ascii_unicode = \<lparr>uc_lower = map ascii_lower, uc_nfkc = id\<rparr>"

lemma unicode_ok_ascii: "unicode_ok ascii_unicode"
  by (simp add: unicode_ok_def ascii_unicode_def)

section \<open>IP addresses\<close>

datatype ip = IPv4 nat | IPv6 nat

definition parse_octet :: "pystr \<Rightarrow> nat option" where
  "parse_octet s =
     (if \<not> isdigit s \<or> 3 < length s \<or> (s \<noteq> [48] \<and> hd s = 48) then None
      else if 255 < int_of_digits s then None else Some (int_of_digits s))"

definition ipv4_int :: "pystr \<Rightarrow> nat option" where
  "ipv4_int s =
     (case map parse_octet (split_on 46 s) of
        [Some a, Some b, Some c, Some d] \<Rightarrow> Some (a * 16777216 + b * 65536 + c * 256 + d)
      | _ \<Rightarrow> None)"

definition parse_hextet :: "pystr \<Rightarrow> nat option" where
  "parse_hextet s =
     (if s = [] \<or> 4 < length s \<or> \<not> list_all (\<lambda>c. hex_val c \<noteq> None) s then None
      else Some (foldl (\<lambda>n c. n * 16 + the (hex_val c)) 0 s))"

primrec hextets_int :: "nat \<Rightarrow> pystr list \<Rightarrow> nat option" where
  "hextets_int n [] = Some n"
| "hextets_int n (p # ps) =
     (case parse_hextet p of None \<Rightarrow> None | Some h \<Rightarrow> hextets_int (n * 65536 + h) ps)"

fun hex_str :: "nat \<Rightarrow> pystr" where
  "hex_str n = (if n < 16 then [hex_char n] else hex_str (n div 16) @ [hex_char (n mod 16)])"

declare hex_str.simps [simp del]

text \<open>The parts of an IPv6 text; a trailing IPv4 address becomes two hextets.\<close>

definition ipv6_parts :: "pystr \<Rightarrow> pystr list option" where
  "ipv6_parts s =
     (let parts = split_on 58 s in
      if s = [] \<or> length parts < 3 then None
      else if 46 \<in> set (last parts) then
        (case ipv4_int (last parts) of
           None \<Rightarrow> None
         | Some v \<Rightarrow> Some (butlast parts @ [hex_str (v div 65536), hex_str (v mod 65536)]))
      else Some parts)"

definition ipv6_int :: "pystr \<Rightarrow> nat option" where
  "ipv6_int s =
     (case ipv6_parts s of
        None \<Rightarrow> None
      | Some parts \<Rightarrow>
          (let n = length parts; skips = filter (\<lambda>i. parts ! i = []) [1..<n - 1] in
           if 9 < n then None
           else (case skips of
             [] \<Rightarrow> if n \<noteq> 8 \<or> hd parts = [] \<or> last parts = [] then None else hextets_int 0 parts
           | [i] \<Rightarrow>
               (let hi = (if hd parts = [] then i - 1 else i);
                    lo = (if last parts = [] then n - i - 2 else n - i - 1) in
                if (hd parts = [] \<and> hi \<noteq> 0) \<or> (last parts = [] \<and> lo \<noteq> 0) \<or> 8 < Suc (hi + lo) then None
                else (case hextets_int 0 (take hi parts) of
                        None \<Rightarrow> None
                      | Some a \<Rightarrow>
                          hextets_int (a * 65536 ^ (8 - (hi + lo))) (drop (n - lo) parts)))
           | _ \<Rightarrow> None)))"

text \<open>\<open>ip_address(s)\<close>: an IPv4 address, else an IPv6 address with an optional scope.\<close>

definition ip_address :: "pystr \<Rightarrow> ip option" where
  "ip_address s =
     (case ipv4_int s of
        Some v \<Rightarrow> Some (IPv4 v)
      | None \<Rightarrow>
          (let (addr, sep, scope) = partition_at 37 s in
           if 47 \<in> set s \<or> (sep \<and> (scope = [] \<or> 37 \<in> set scope)) then None
           else map_option IPv6 (ipv6_int addr)))"

fun is_loopback :: "ip \<Rightarrow> bool" where
  "is_loopback (IPv4 v) = (v div 16777216 = 127)"
| "is_loopback (IPv6 v) =
     (if v div 4294967296 = 65535 then v mod 4294967296 div 16777216 = 127 else v = 1)"

section \<open>urlsplit\<close>

record split_result =
  sp_scheme :: pystr
  sp_netloc :: pystr
  sp_path :: pystr
  sp_query :: pystr
  sp_fragment :: pystr

definition scheme_char :: "nat \<Rightarrow> bool" where
  "scheme_char c \<longleftrightarrow> alpha_char c \<or> digit_char c \<or> c \<in> {43, 45, 46}"

definition split_scheme :: "pystr \<Rightarrow> pystr \<times> pystr" where
  "split_scheme url =
     (let (pre, found, after) = partition_at 58 url in
      if found \<and> pre \<noteq> [] \<and> alpha_char (hd pre) \<and> list_all scheme_char pre
      then (map ascii_lower pre, after) else ([], url))"

definition ip_future :: "pystr \<Rightarrow> bool" where
  "ip_future h \<longleftrightarrow>
     (let r = dropWhile (\<lambda>c. hex_val c \<noteq> None) (drop 1 h) in
      takeWhile (\<lambda>c. hex_val c \<noteq> None) (drop 1 h) \<noteq> [] \<and> r \<noteq> [] \<and> hd r = 46 \<and> drop 1 r \<noteq> [])"

definition bracketed_host_ok :: "pystr \<Rightarrow> bool" where
  "bracketed_host_ok h =
     (if startswith h (lit ''v'') then ip_future h
      else (case ip_address h of Some (IPv6 _) \<Rightarrow> True | _ \<Rightarrow> False))"

definition bracketed_netloc_ok :: "pystr \<Rightarrow> bool" where
  "bracketed_netloc_ok netloc =
     (let (_, _, hostinfo) = rpartition_at 64 netloc;
          (pre, open_br, bracketed) = partition_at 91 hostinfo in
      if open_br then
        (let (host, _, port) = partition_at 93 bracketed in
         pre = [] \<and> (port = [] \<or> startswith port (lit '':'')) \<and> bracketed_host_ok host)
      else (let (host, _, _) = partition_at 58 hostinfo in bracketed_host_ok host))"

text \<open>\<open>_checknetloc\<close>: the normal form of a non-ASCII authority must not create separators.\<close>

definition netloc_ok :: "unicode_db \<Rightarrow> pystr \<Rightarrow> bool" where
  "netloc_ok u netloc \<longleftrightarrow>
     netloc = [] \<or> isascii netloc \<or>
     (let n = filter (\<lambda>c. c \<notin> {64, 58, 35, 63}) netloc; n2 = uc_nfkc u n in
      n = n2 \<or> set n2 \<inter> {47, 63, 35, 64, 58} = {})"

definition urlsplit :: "unicode_db \<Rightarrow> pystr \<Rightarrow> exn + split_result" where
  "urlsplit u raw =
     (let url = filter (\<lambda>c. c \<notin> {9, 13, 10}) (dropWhile (\<lambda>c. c \<le> 32) raw);
          (scheme, rest) = split_scheme url;
          has_netloc = startswith rest (lit ''//'');
          netloc = (if has_netloc then takeWhile (\<lambda>c. c \<notin> {47, 63, 35}) (drop 2 rest) else []);
          rest2 = (if has_netloc then dropWhile (\<lambda>c. c \<notin> {47, 63, 35}) (drop 2 rest) else rest);
          (rest3, _, fragment) = partition_at 35 rest2;
          (path, _, query) = partition_at 63 rest3
      in if (91 \<in> set netloc) \<noteq> (93 \<in> set netloc) then Inl (ValueError (lit ''Invalid IPv6 URL''))
         else if 91 \<in> set netloc \<and> \<not> bracketed_netloc_ok netloc
         then Inl (ValueError (lit ''Invalid IPv6 URL''))
         else if \<not> netloc_ok u netloc then Inl (ValueError (lit ''netloc contains invalid characters''))
         else Inr \<lparr>sp_scheme = scheme, sp_netloc = netloc, sp_path = path, sp_query = query,
                   sp_fragment = fragment\<rparr>)"

text \<open>The properties of the result. \<open>port\<close> raises \<open>ValueError\<close>.\<close>

definition hostinfo :: "split_result \<Rightarrow> pystr \<times> pystr option" where
  "hostinfo r =
     (let (_, _, info) = rpartition_at 64 (sp_netloc r); (_, open_br, bracketed) = partition_at 91 info;
          (host, port) =
            (if open_br then
               (let (h, _, p) = partition_at 93 bracketed; (_, _, q) = partition_at 58 p in (h, q))
             else (let (h, _, p) = partition_at 58 info in (h, p)))
      in (host, if port = [] then None else Some port))"

definition url_hostname :: "unicode_db \<Rightarrow> split_result \<Rightarrow> pystr option" where
  "url_hostname u r =
     (let h = fst (hostinfo r) in
      if h = [] then None
      else (let (name, percent, zone) = partition_at 37 h in
            Some (uc_lower u name @ (if percent then 37 # zone else []))))"

definition url_port :: "split_result \<Rightarrow> exn + int option" where
  "url_port r =
     (case snd (hostinfo r) of
        None \<Rightarrow> Inr None
      | Some p \<Rightarrow>
          if isdigit p \<and> isascii p \<and> length p \<le> max_int_digits \<and> int_of_digits p \<le> 65535 then Inr (Some (int (int_of_digits p)))
          else Inl (ValueError (lit ''Port could not be cast to integer value'')))"

definition url_username :: "split_result \<Rightarrow> pystr option" where
  "url_username r =
     (let (userinfo, have_info, _) = rpartition_at 64 (sp_netloc r) in
      if have_info then Some (fst (partition_at 58 userinfo)) else None)"

definition url_password :: "split_result \<Rightarrow> pystr option" where
  "url_password r =
     (let (userinfo, have_info, _) = rpartition_at 64 (sp_netloc r);
          (_, have_password, password) = partition_at 58 userinfo in
      if have_info \<and> have_password then Some password else None)"

section \<open>unquote and parse_qs\<close>

text \<open>\<open>bytes.decode("utf-8", "replace")\<close>: each maximal ill-formed subsequence becomes U+FFFD.\<close>

definition second_ok :: "nat \<Rightarrow> nat \<Rightarrow> bool" where
  "second_ok b c \<longleftrightarrow>
     cont_byte c \<and> (b = 224 \<longrightarrow> 160 \<le> c) \<and> (b = 237 \<longrightarrow> c < 160) \<and> (b = 240 \<longrightarrow> 144 \<le> c) \<and> (b = 244 \<longrightarrow> c < 144)"

fun utf8_decode_replace :: "pybytes \<Rightarrow> pystr" where
  "utf8_decode_replace [] = []"
| "utf8_decode_replace (b # bs) =
     (if b < 128 then b # utf8_decode_replace bs
      else if 194 \<le> b \<and> b < 224 then
        (case bs of c # r \<Rightarrow>
           if cont_byte c then ((b - 192) * 64 + (c - 128)) # utf8_decode_replace r
           else 65533 # utf8_decode_replace bs
         | [] \<Rightarrow> [65533])
      else if 224 \<le> b \<and> b < 240 then
        (case bs of c # r \<Rightarrow>
           if \<not> second_ok b c then 65533 # utf8_decode_replace bs
           else (case r of d # r2 \<Rightarrow>
             if cont_byte d
             then ((b - 224) * 4096 + (c - 128) * 64 + (d - 128)) # utf8_decode_replace r2
             else 65533 # utf8_decode_replace r
           | [] \<Rightarrow> [65533])
         | [] \<Rightarrow> [65533])
      else if 240 \<le> b \<and> b < 245 then
        (case bs of c # r \<Rightarrow>
           if \<not> second_ok b c then 65533 # utf8_decode_replace bs
           else (case r of d # r2 \<Rightarrow>
             if \<not> cont_byte d then 65533 # utf8_decode_replace r
             else (case r2 of e # r3 \<Rightarrow>
               if cont_byte e
               then ((b - 240) * 262144 + (c - 128) * 4096 + (d - 128) * 64 + (e - 128))
                      # utf8_decode_replace r3
               else 65533 # utf8_decode_replace r2
             | [] \<Rightarrow> [65533])
           | [] \<Rightarrow> [65533])
         | [] \<Rightarrow> [65533])
      else 65533 # utf8_decode_replace bs)"

text \<open>\<open>unquote_to_bytes\<close> on an ASCII text.\<close>

fun unquote_bytes :: "pystr \<Rightarrow> pybytes" where
  "unquote_bytes [] = []"
| "unquote_bytes (c # s) =
     (if c = 37 then
        (case s of h # l # r \<Rightarrow>
           (case (hex_val h, hex_val l) of
              (Some x, Some y) \<Rightarrow> (x * 16 + y) # unquote_bytes r
            | _ \<Rightarrow> 37 # unquote_bytes s)
         | _ \<Rightarrow> 37 # unquote_bytes s)
      else c # unquote_bytes s)"

text \<open>Each maximal run of ASCII characters is unquoted on its own.\<close>

function unquote :: "pystr \<Rightarrow> pystr" where
  "unquote s =
     (case s of [] \<Rightarrow> []
      | c # r \<Rightarrow>
          if c < 128
          then utf8_decode_replace (unquote_bytes (takeWhile (\<lambda>d. d < 128) s))
                 @ unquote (dropWhile (\<lambda>d. d < 128) s)
          else c # unquote r)"
  by auto
termination
  by (relation "measure length") (auto simp: le_imp_less_Suc length_dropWhile_le)

declare unquote.simps [simp del]

definition unquote_plus :: "pystr \<Rightarrow> pystr" where
  "unquote_plus s = unquote (replace_char 43 [32] s)"

text \<open>\<open>parse_qs(qs, keep_blank_values=True)\<close>: a dictionary from names to the lists of their
  values.\<close>

definition parse_qsl :: "pystr \<Rightarrow> (pystr \<times> pystr) list" where
  "parse_qsl qs =
     map (\<lambda>nv. let (name, _, value) = partition_at 61 nv in (unquote_plus name, unquote_plus value))
       (filter (\<lambda>nv. nv \<noteq> []) (split_on 38 qs))"

definition add_values :: "pystr \<Rightarrow> 'a list \<Rightarrow> (pystr \<times> 'a list) list \<Rightarrow> (pystr \<times> 'a list) list" where
  "add_values k vs d = AList.update k ((case map_of d k of None \<Rightarrow> [] | Some ws \<Rightarrow> ws) @ vs) d"

definition parse_qs :: "pystr \<Rightarrow> (pystr \<times> pystr list) list" where
  "parse_qs qs = foldl (\<lambda>d kv. add_values (fst kv) [snd kv] d) [] (parse_qsl qs)"

text \<open>\<open>character.isspace() or ord(character) < 32 or ord(character) == 127\<close>\<close>

definition control_or_space :: "nat \<Rightarrow> bool" where
  "control_or_space c \<longleftrightarrow> space_char c \<or> c < 32 \<or> c = 127"

text \<open>The \<open>k\<close> lowest hexadecimal digits of a number.\<close>

definition hex_digits :: "nat \<Rightarrow> nat \<Rightarrow> pystr" where
  "hex_digits k n = map (\<lambda>i. hex_char (n div 16 ^ i mod 16)) (rev [0..<k])"

lemma length_hex_digits [simp]: "length (hex_digits k n) = k"
  by (simp add: hex_digits_def)

lemma hex_char_cases: "n < 16 \<Longrightarrow> digit_char (hex_char n) \<or> (97 \<le> hex_char n \<and> hex_char n \<le> 102)"
  by (auto simp: hex_char_def digit_char_def)

lemma hex_digits_chars: "c \<in> set (hex_digits k n) \<Longrightarrow> digit_char c \<or> (97 \<le> c \<and> c \<le> 102)"
proof -
  assume "c \<in> set (hex_digits k n)"
  then obtain i where i: "c = hex_char (n div 16 ^ i mod 16)" by (auto simp: hex_digits_def)
  show ?thesis unfolding i by (rule hex_char_cases) simp
qed

end
