(* ===== verification/IngestionSchemas.thy ===== *)
theory IngestionSchemas
  imports Catalog Url
begin

text \<open>
  \<open>app/ingestion/schemas.py\<close>: the validation of an item snapshot. The validators the
  file defines are translated one by one; the way Pydantic runs them (a field
  after another, all errors collected, the first failing element of a
  \<open>FailFast\<close> list only, an exception that is no \<open>ValueError\<close> aborting everything)
  is the type \<open>outcome\<close> with its combinators. The texts of Pydantic's messages and
  the Unicode tables are parameters.
\<close>

section \<open>Outcomes of a validator\<close>

datatype issue =
  Missing | ExtraForbidden | ModelType
| StringType | StringUnicode | StringTooShort | StringTooLong
| IntType | GreaterThan | GreaterEqual | LessEqual
| ListType | ListTooShort | ListTooLong
| LiteralError | FloatParsing | IntParsing
| ValueErr pystr

type_synonym line_error = "pystr list \<times> issue"

datatype 'a outcome = Valid 'a | Issues "line_error list" | Abort exn

record validation_lib =
  vl_unicode :: unicode_db
  vl_message :: "issue \<Rightarrow> pystr"

fun map_outcome_value :: "('a \<Rightarrow> 'b) \<Rightarrow> 'a outcome \<Rightarrow> 'b outcome" where
  "map_outcome_value f (Valid a) = Valid (f a)"
| "map_outcome_value f (Issues es) = Issues es"
| "map_outcome_value f (Abort e) = Abort e"

text \<open>A validator after another on the same value; two fields of one model; a field's
  errors located under its alias.\<close>

fun after :: "'a outcome \<Rightarrow> ('a \<Rightarrow> 'b outcome) \<Rightarrow> 'b outcome" where
  "after (Valid a) f = f a"
| "after (Issues es) f = Issues es"
| "after (Abort e) f = Abort e"

fun both :: "'a outcome \<Rightarrow> 'b outcome \<Rightarrow> ('a \<times> 'b) outcome" where
  "both (Abort e) _ = Abort e"
| "both (Valid _) (Abort e) = Abort e"
| "both (Issues _) (Abort e) = Abort e"
| "both (Valid a) (Valid b) = Valid (a, b)"
| "both (Valid _) (Issues fs) = Issues fs"
| "both (Issues es) (Valid _) = Issues es"
| "both (Issues es) (Issues fs) = Issues (es @ fs)"

fun located :: "pystr \<Rightarrow> 'a outcome \<Rightarrow> 'a outcome" where
  "located l (Issues es) = Issues (map (\<lambda>(loc, i). (l # loc, i)) es)"
| "located l r = r"

definition issue :: "issue \<Rightarrow> 'a outcome" where
  "issue i = Issues [([], i)]"

section \<open>Strings\<close>

definition MAX_GAME_ID :: int where "MAX_GAME_ID = 2147483647"
definition MAX_SNAPSHOT_ITEMS :: nat where "MAX_SNAPSHOT_ITEMS = 10000"
definition MAX_SNAPSHOT_STRING_LENGTH :: nat where "MAX_SNAPSHOT_STRING_LENGTH = 4096"

definition reject_nul :: "pystr \<Rightarrow> pystr outcome" where
  "reject_nul s = (if 0 \<in> set s then issue (ValueErr (lit ''strings must not contain NUL'')) else Valid s)"

definition reject_oversized_string :: "json \<Rightarrow> json outcome" where
  "reject_oversized_string j =
     (case j of
        JStr s \<Rightarrow> if MAX_SNAPSHOT_STRING_LENGTH < length s
                   then issue (ValueErr (lit ''strings exceed the maximum length'')) else Valid j
      | _ \<Rightarrow> Valid j)"

text \<open>\<open>strip_whitespace=True\<close> strips the Unicode property White_Space.\<close>

definition white_space :: "nat \<Rightarrow> bool" where
  "white_space c \<longleftrightarrow>
     (9 \<le> c \<and> c \<le> 13) \<or> c = 32 \<or> c = 133 \<or> c = 160 \<or> c = 5760 \<or> (8192 \<le> c \<and> c \<le> 8202) \<or>
     c = 8232 \<or> c = 8233 \<or> c = 8239 \<or> c = 8287 \<or> c = 12288"

definition strict_str :: "json \<Rightarrow> pystr outcome" where
  "strict_str j =
     (case j of
        JStr s \<Rightarrow>
          if \<not> list_all scalar s then issue StringUnicode
          else (let t = strip_by white_space s in
                if MAX_SNAPSHOT_STRING_LENGTH < length t then issue StringTooLong
                else if t = [] then issue StringTooShort else Valid t)
      | _ \<Rightarrow> issue StringType)"

definition non_empty_string :: "json \<Rightarrow> pystr outcome" where
  "non_empty_string j = after (after (reject_oversized_string j) strict_str) reject_nul"

definition strict_int_between :: "(int \<Rightarrow> issue option) \<Rightarrow> json \<Rightarrow> int outcome" where
  "strict_int_between check j =
     (case j of
        JInt i \<Rightarrow> (case check i of None \<Rightarrow> Valid i | Some e \<Rightarrow> issue e)
      | _ \<Rightarrow> issue IntType)"

text \<open>A required field, a nullable one, and one with the default \<open>None\<close>, which is not
  validated.\<close>

definition required_field :: "json option \<Rightarrow> (json \<Rightarrow> 'a outcome) \<Rightarrow> 'a outcome" where
  "required_field v f = (case v of None \<Rightarrow> issue Missing | Some j \<Rightarrow> f j)"

definition nullable_value :: "(json \<Rightarrow> 'a outcome) \<Rightarrow> json \<Rightarrow> 'a option outcome" where
  "nullable_value f j = (if j = JNull then Valid None else map_outcome_value Some (f j))"

definition default_none :: "json option \<Rightarrow> (json \<Rightarrow> 'a option outcome) \<Rightarrow> 'a option outcome" where
  "default_none v f = (case v of None \<Rightarrow> Valid None | Some j \<Rightarrow> f j)"

section \<open>Unknown fields\<close>

definition ITEM_IMPORT_FIELDS :: "pystr list" where
  "ITEM_IMPORT_FIELDS =
     [lit ''gameId'', lit ''name'', lit ''description'', lit ''quality'', lit ''type'',
      lit ''rechargeTime'', lit ''imageUrl'', lit ''introducedInVersion'']"

definition SNAPSHOT_FIELDS :: "pystr list" where
  "SNAPSHOT_FIELDS = [lit ''datasetVersion'', lit ''gameVersion'', lit ''items'']"

definition reject_unknown_fields :: "pystr list \<Rightarrow> json \<Rightarrow> json outcome" where
  "reject_unknown_fields allowed j =
     (case j of
        JObj kvs \<Rightarrow>
          (case find (\<lambda>kv. fst kv \<notin> set allowed) kvs of
             Some (key, _) \<Rightarrow> Issues [([key], ExtraForbidden)]
           | None \<Rightarrow> Valid j)
      | _ \<Rightarrow> Valid j)"

section \<open>ItemImport\<close>

record item_import =
  imp_game_id :: int
  imp_name :: pystr
  imp_description :: pystr
  imp_quality :: "int option"
  imp_item_type :: "pystr option"
  imp_recharge_time :: "pystr option"
  imp_image_url :: pystr
  imp_introduced_in_version :: "pystr option"

definition game_id_issue :: "int \<Rightarrow> issue option" where
  "game_id_issue i = (if \<not> i > 0 then Some GreaterThan else if \<not> i \<le> MAX_GAME_ID then Some LessEqual else None)"

definition quality_issue :: "int \<Rightarrow> issue option" where
  "quality_issue i = (if \<not> i \<ge> 0 then Some GreaterEqual else if \<not> i \<le> 4 then Some LessEqual else None)"

text \<open>\<open>value.lower()\<close>; the validator also runs on an explicit \<open>null\<close>, which has no such
  attribute.\<close>

definition normalize_item_type :: "validation_lib \<Rightarrow> pystr option \<Rightarrow> pystr option outcome" where
  "normalize_item_type lib v =
     (case v of None \<Rightarrow> Abort AttributeError | Some s \<Rightarrow> Valid (Some (uc_lower (vl_unicode lib) s)))"

definition image_url_ok :: "unicode_db \<Rightarrow> pystr \<Rightarrow> bool" where
  "image_url_ok u s \<longleftrightarrow>
     (case urlsplit u s of
        Inl _ \<Rightarrow> False
      | Inr r \<Rightarrow>
          \<not> (sp_scheme r \<notin> {lit ''http'', lit ''https''} \<or> sp_netloc r = [] \<or>
             url_hostname u r = None \<or> endswith (sp_netloc r) (lit '':'') \<or>
             url_username r \<noteq> None \<or> url_password r \<noteq> None \<or> 92 \<in> set s \<or>
             list_ex control_or_space s) \<and>
          (case url_port r of
             Inl _ \<Rightarrow> False
           | Inr port \<Rightarrow> (case port of None \<Rightarrow> True | Some p \<Rightarrow> 0 \<le> p \<and> p \<le> 65535)))"

definition validate_image_url :: "validation_lib \<Rightarrow> pystr \<Rightarrow> pystr outcome" where
  "validate_image_url lib s =
     (if image_url_ok (vl_unicode lib) s then Valid s
      else issue (ValueErr (lit ''imageUrl must be an absolute HTTP(S) URL'')))"

definition item_fields :: "validation_lib \<Rightarrow> (pystr \<times> json) list \<Rightarrow> item_import outcome" where
  "item_fields lib kvs =
     map_outcome_value
       (\<lambda>(g, n, d, q, t, rt, u, v).
          \<lparr>imp_game_id = g, imp_name = n, imp_description = d, imp_quality = q, imp_item_type = t,
           imp_recharge_time = rt, imp_image_url = u, imp_introduced_in_version = v\<rparr>)
       (let get = (\<lambda>k. map_of kvs (lit k)) in
        both (located (lit ''gameId'')
               (required_field (get ''gameId'') (strict_int_between game_id_issue)))
       (both (located (lit ''name'') (required_field (get ''name'') non_empty_string))
       (both (located (lit ''description'') (required_field (get ''description'') non_empty_string))
       (both (located (lit ''quality'')
               (required_field (get ''quality'') (nullable_value (strict_int_between quality_issue))))
       (both (located (lit ''type'')
               (default_none (get ''type'')
                 (\<lambda>j. after (nullable_value non_empty_string j) (normalize_item_type lib))))
       (both (located (lit ''rechargeTime'')
               (default_none (get ''rechargeTime'') (nullable_value non_empty_string)))
       (both (located (lit ''imageUrl'')
               (required_field (get ''imageUrl'')
                 (\<lambda>j. after (non_empty_string j) (validate_image_url lib))))
             (located (lit ''introducedInVersion'')
               (default_none (get ''introducedInVersion'') (nullable_value non_empty_string))))))))))"

definition validate_item :: "validation_lib \<Rightarrow> json \<Rightarrow> item_import outcome" where
  "validate_item lib value =
     after (reject_unknown_fields ITEM_IMPORT_FIELDS value)
       (\<lambda>j. case j of JObj kvs \<Rightarrow> item_fields lib kvs | _ \<Rightarrow> issue ModelType)"

section \<open>ItemSnapshot\<close>

record item_snapshot =
  snap_dataset_version :: pystr
  snap_game_version :: "pystr option"
  snap_items :: "item_import list"

text \<open>\<open>Annotated[list[ItemImport], FailFast()]\<close> with its length bounds; \<open>n\<close> elements have
  been counted. The maximum is checked as the elements are validated.\<close>

primrec items_from :: "validation_lib \<Rightarrow> nat \<Rightarrow> json list \<Rightarrow> item_import list outcome" where
  "items_from lib n [] = Valid []"
| "items_from lib n (j # js) =
     (case validate_item lib j of
        Abort e \<Rightarrow> Abort e
      | Issues es \<Rightarrow>
          if MAX_SNAPSHOT_ITEMS \<le> n then issue ListTooLong else located (str_nat n) (Issues es)
      | Valid v \<Rightarrow>
          if MAX_SNAPSHOT_ITEMS \<le> n then issue ListTooLong
          else map_outcome_value (\<lambda>vs. v # vs) (items_from lib (Suc n) js))"

definition validate_items :: "validation_lib \<Rightarrow> json \<Rightarrow> item_import list outcome" where
  "validate_items lib j =
     (case j of
        JArr js \<Rightarrow> after (items_from lib 0 js) (\<lambda>vs. if vs = [] then issue ListTooShort else Valid vs)
      | _ \<Rightarrow> issue ListType)"

definition snapshot_fields :: "validation_lib \<Rightarrow> (pystr \<times> json) list \<Rightarrow> item_snapshot outcome" where
  "snapshot_fields lib kvs =
     map_outcome_value
       (\<lambda>(d, g, is). \<lparr>snap_dataset_version = d, snap_game_version = g, snap_items = is\<rparr>)
       (both (located (lit ''datasetVersion'')
               (required_field (map_of kvs (lit ''datasetVersion'')) non_empty_string))
       (both (located (lit ''gameVersion'')
               (default_none (map_of kvs (lit ''gameVersion'')) (nullable_value non_empty_string)))
             (located (lit ''items'')
               (required_field (map_of kvs (lit ''items'')) (validate_items lib)))))"

definition reject_duplicate_game_ids :: "item_snapshot \<Rightarrow> item_snapshot outcome" where
  "reject_duplicate_game_ids s =
     (let game_ids = map imp_game_id (snap_items s) in
      if length game_ids \<noteq> card (set game_ids)
      then issue (ValueErr (lit ''items.gameId must be unique'')) else Valid s)"

definition validate_snapshot :: "validation_lib \<Rightarrow> json \<Rightarrow> item_snapshot outcome" where
  "validate_snapshot lib value =
     after (after (reject_unknown_fields SNAPSHOT_FIELDS value)
              (\<lambda>j. case j of JObj kvs \<Rightarrow> snapshot_fields lib kvs | _ \<Rightarrow> issue ModelType))
       reject_duplicate_game_ids"

text \<open>\<open>ItemSnapshot.model_validate\<close>: the collected errors become one \<open>ValidationError\<close>.\<close>

definition model_validate_snapshot :: "validation_lib \<Rightarrow> json \<Rightarrow> exn + item_snapshot" where
  "model_validate_snapshot lib value =
     (case validate_snapshot lib value of
        Valid s \<Rightarrow> Inr s
      | Issues es \<Rightarrow> Inl (ValidationError (map (\<lambda>(loc, i). (loc, vl_message lib i)) es))
      | Abort e \<Rightarrow> Inl e)"

section \<open>What a valid snapshot satisfies\<close>

text \<open>A stored text: non-empty, free of surrounding white space, bounded, and one that a
  PostgreSQL column can hold.\<close>

definition import_text :: "pystr \<Rightarrow> bool" where
  "import_text s \<longleftrightarrow>
     s \<noteq> [] \<and> strip_by white_space s = s \<and> length s \<le> MAX_SNAPSHOT_STRING_LENGTH \<and> pg_text s"

definition lowered_text :: "unicode_db \<Rightarrow> pystr \<Rightarrow> bool" where
  "lowered_text u s \<longleftrightarrow> (\<exists>t. import_text t \<and> s = uc_lower u t)"

definition import_ok :: "unicode_db \<Rightarrow> item_import \<Rightarrow> bool" where
  "import_ok u i \<longleftrightarrow>
     0 < imp_game_id i \<and> imp_game_id i \<le> MAX_GAME_ID \<and> import_text (imp_name i) \<and>
     import_text (imp_description i) \<and> nullable (\<lambda>q. 0 \<le> q \<and> q \<le> 4) (imp_quality i) \<and>
     nullable (lowered_text u) (imp_item_type i) \<and> nullable import_text (imp_recharge_time i) \<and>
     import_text (imp_image_url i) \<and> image_url_ok u (imp_image_url i) \<and>
     nullable import_text (imp_introduced_in_version i)"

definition snapshot_ok :: "unicode_db \<Rightarrow> item_snapshot \<Rightarrow> bool" where
  "snapshot_ok u s \<longleftrightarrow>
     import_text (snap_dataset_version s) \<and> nullable import_text (snap_game_version s) \<and>
     list_all (import_ok u) (snap_items s) \<and> distinct (map imp_game_id (snap_items s)) \<and>
     1 \<le> length (snap_items s) \<and> length (snap_items s) \<le> MAX_SNAPSHOT_ITEMS"

lemma map_outcome_Valid [simp]:
  "map_outcome_value f r = Valid b \<longleftrightarrow> (\<exists>a. r = Valid a \<and> b = f a)"
  by (cases r) auto

lemma after_Valid [simp]: "after r f = Valid b \<longleftrightarrow> (\<exists>a. r = Valid a \<and> f a = Valid b)"
  by (cases r) auto

lemma both_Valid [simp]: "both r q = Valid p \<longleftrightarrow> r = Valid (fst p) \<and> q = Valid (snd p)"
  by (cases r; cases q) auto

lemma located_Valid [simp]: "located l r = Valid b \<longleftrightarrow> r = Valid b"
  by (cases r) auto

lemma issue_Valid [simp]: "issue i \<noteq> Valid a" "Valid a \<noteq> issue i"
  by (simp_all add: issue_def)

lemma strip_by_Nil [simp]: "strip_by P [] = []"
  by (simp add: strip_by_def)

lemma dropWhile_fixed: "xs = [] \<or> \<not> P (hd xs) \<Longrightarrow> dropWhile P xs = xs"
  by (cases xs) auto

lemma strip_by_idem: "strip_by P (strip_by P s) = strip_by P s"
proof (cases "strip_by P s = []")
  case False
  let ?d = "dropWhile P s" and ?t = "strip_by P s"
  have "?d \<noteq> []" using False unfolding strip_by_def by fastforce
  then have hd: "\<not> P (hd ?d)" by (rule hd_dropWhile)
  have "?d = ?t @ rev (takeWhile P (rev ?d))"
    unfolding strip_by_def by (metis rev_append rev_rev_ident takeWhile_dropWhile_id)
  then have "hd ?d = hd ?t" using False by (metis hd_append2)
  then have front: "dropWhile P ?t = ?t" using hd by (simp add: dropWhile_fixed)
  have "dropWhile P (rev ?d) \<noteq> []" using False by (simp add: strip_by_def)
  then have "\<not> P (hd (dropWhile P (rev ?d)))" by (rule hd_dropWhile)
  then have "dropWhile P (rev ?t) = rev ?t"
    unfolding strip_by_def rev_rev_ident by (simp add: dropWhile_fixed)
  then have "strip_by P ?t = rev (rev ?t)"
    unfolding strip_by_def [of P ?t] front by (rule arg_cong)
  then show ?thesis by simp
qed simp

lemma strict_str_Valid:
  "strict_str j = Valid t \<Longrightarrow>
   (\<exists>s. j = JStr s \<and> list_all scalar s \<and> t = strip_by white_space s) \<and> t \<noteq> [] \<and>
   length t \<le> MAX_SNAPSHOT_STRING_LENGTH"
  by (cases j) (auto simp: strict_str_def Let_def split: if_splits)

lemma reject_simps [simp]:
  "reject_oversized_string j = Valid k \<Longrightarrow> k = j"
  "reject_nul s = Valid t \<longleftrightarrow> t = s \<and> 0 \<notin> set s"
  by (auto simp: reject_oversized_string_def reject_nul_def split: json.splits if_splits)

lemma non_empty_string_Valid:
  assumes "non_empty_string j = Valid s"
  shows "import_text s"
proof -
  obtain t where t: "list_all scalar t" "s = strip_by white_space t" "s \<noteq> []" "0 \<notin> set s"
    "length s \<le> MAX_SNAPSHOT_STRING_LENGTH"
    using assms by (auto simp: non_empty_string_def dest!: strict_str_Valid)
  have "list_all scalar s" using t(1,2) set_strip_by [of white_space t] by (auto simp: list_all_iff)
  then show ?thesis
    using t strip_by_idem [of white_space t] by (simp add: import_text_def pg_text_def)
qed

lemma case_container_Valid [simp]:
  "(case j of JObj kvs \<Rightarrow> f kvs | _ \<Rightarrow> issue e) = Valid x \<longleftrightarrow> (\<exists>kvs. j = JObj kvs \<and> f kvs = Valid x)"
  "(case j of JArr js \<Rightarrow> g js | _ \<Rightarrow> issue e) = Valid y \<longleftrightarrow> (\<exists>js. j = JArr js \<and> g js = Valid y)"
  by (cases j; simp)+

lemma nullable_value_Valid:
  assumes "nullable_value f j = Valid x" "\<And>a. f j = Valid a \<Longrightarrow> P a"
  shows "nullable P x"
  using assms by (auto simp: nullable_value_def split: if_splits)

lemma default_none_Valid:
  assumes "default_none v f = Valid x" "\<And>j y. f j = Valid y \<Longrightarrow> nullable P y"
  shows "nullable P x"
  using assms by (auto simp: default_none_def split: option.splits)

lemma required_field_Valid:
  "required_field v f = Valid a \<Longrightarrow> \<exists>j. v = Some j \<and> f j = Valid a"
  by (auto simp: required_field_def split: option.splits)

lemma strict_int_Valid: "strict_int_between check j = Valid i \<Longrightarrow> j = JInt i \<and> check i = None"
  by (auto simp: strict_int_between_def split: json.splits option.splits)

lemma optional_text_Valid:
  "default_none v (nullable_value non_empty_string) = Valid x \<Longrightarrow> nullable import_text x"
  by (erule default_none_Valid) (erule nullable_value_Valid, erule non_empty_string_Valid)

lemma required_text_Valid: "required_field v non_empty_string = Valid x \<Longrightarrow> import_text x"
  by (auto dest!: required_field_Valid non_empty_string_Valid)

lemma item_type_Valid:
  "default_none v (\<lambda>j. after (nullable_value non_empty_string j) (normalize_item_type lib)) = Valid x \<Longrightarrow>
   nullable (lowered_text (vl_unicode lib)) x"
  by (erule default_none_Valid)
     (auto simp: normalize_item_type_def nullable_value_def lowered_text_def
       split: option.splits if_splits dest!: non_empty_string_Valid)

lemma image_url_Valid:
  "required_field v (\<lambda>j. after (non_empty_string j) (validate_image_url lib)) = Valid x \<Longrightarrow>
   import_text x \<and> image_url_ok (vl_unicode lib) x"
  by (auto simp: validate_image_url_def split: if_splits dest!: required_field_Valid non_empty_string_Valid)

lemma game_id_Valid:
  "required_field v (strict_int_between game_id_issue) = Valid g \<Longrightarrow> 0 < g \<and> g \<le> MAX_GAME_ID"
  by (auto dest!: required_field_Valid strict_int_Valid simp: game_id_issue_def split: if_splits)

lemma quality_Valid:
  "required_field v (nullable_value (strict_int_between quality_issue)) = Valid x \<Longrightarrow>
   nullable (\<lambda>q. 0 \<le> q \<and> q \<le> 4) x"
  by (auto dest!: required_field_Valid strict_int_Valid elim!: nullable_value_Valid
      simp: quality_issue_def split: if_splits)

lemma item_fields_Valid: "item_fields lib kvs = Valid i \<Longrightarrow> import_ok (vl_unicode lib) i"
  by (auto simp: item_fields_def import_ok_def Let_def
      dest!: game_id_Valid required_text_Valid quality_Valid optional_text_Valid item_type_Valid
        image_url_Valid)

lemma validate_item_Valid: "validate_item lib j = Valid i \<Longrightarrow> import_ok (vl_unicode lib) i"
  by (auto simp: validate_item_def dest: item_fields_Valid)

lemma items_from_Valid:
  "items_from lib n js = Valid vs \<Longrightarrow>
   list_all (import_ok (vl_unicode lib)) vs \<and> length vs = length js \<and>
   (js \<noteq> [] \<longrightarrow> n + length vs \<le> MAX_SNAPSHOT_ITEMS)"
proof (induction js arbitrary: n vs)
  case (Cons j js)
  then obtain v us where "validate_item lib j = Valid v" "items_from lib (Suc n) js = Valid us"
    "vs = v # us" "n < MAX_SNAPSHOT_ITEMS"
    by (auto split: outcome.splits if_splits)
  then show ?case using Cons.IH [of "Suc n" us] validate_item_Valid by (cases js) auto
qed simp

theorem validate_snapshot_ok:
  assumes "validate_snapshot lib value = Valid s"
  shows "snapshot_ok (vl_unicode lib) s"
proof -
  obtain kvs where fields: "snapshot_fields lib kvs = Valid s"
    and dup: "reject_duplicate_game_ids s = Valid s"
    using assms by (auto simp: validate_snapshot_def reject_duplicate_game_ids_def Let_def
        split: if_splits)
  obtain js where items: "items_from lib 0 js = Valid (snap_items s)" "snap_items s \<noteq> []"
    using fields by (auto simp: snapshot_fields_def validate_items_def dest!: required_field_Valid
        split: if_splits)
  have "import_text (snap_dataset_version s)" "nullable import_text (snap_game_version s)"
    using fields by (auto simp: snapshot_fields_def dest!: required_text_Valid optional_text_Valid)
  moreover have "distinct (map imp_game_id (snap_items s))"
    using dup by (auto simp: reject_duplicate_game_ids_def Let_def card_distinct split: if_splits)
  ultimately show ?thesis
    using items_from_Valid [OF items(1)] items(2)
    by (cases "snap_items s") (auto simp: snapshot_ok_def)
qed

section \<open>A snapshot in its published form is accepted as it is\<close>

definition optional_member :: "string \<Rightarrow> pystr option \<Rightarrow> (pystr \<times> json) list" where
  "optional_member k x = (case x of None \<Rightarrow> [] | Some s \<Rightarrow> [(lit k, JStr s)])"

definition import_json :: "item_import \<Rightarrow> json" where
  "import_json i =
     JObj ([(lit ''gameId'', JInt (imp_game_id i)), (lit ''name'', JStr (imp_name i)),
            (lit ''description'', JStr (imp_description i)),
            (lit ''quality'', (case imp_quality i of None \<Rightarrow> JNull | Some q \<Rightarrow> JInt q)),
            (lit ''imageUrl'', JStr (imp_image_url i))] @
           optional_member ''type'' (imp_item_type i) @
           optional_member ''rechargeTime'' (imp_recharge_time i) @
           optional_member ''introducedInVersion'' (imp_introduced_in_version i))"

definition snapshot_json :: "item_snapshot \<Rightarrow> json" where
  "snapshot_json s =
     JObj ([(lit ''datasetVersion'', JStr (snap_dataset_version s)),
            (lit ''items'', JArr (map import_json (snap_items s)))] @
           optional_member ''gameVersion'' (snap_game_version s))"

text \<open>The types of a published snapshot are in lower case.\<close>

definition types_published :: "unicode_db \<Rightarrow> item_snapshot \<Rightarrow> bool" where
  "types_published u s \<longleftrightarrow>
     list_all (\<lambda>i. nullable (\<lambda>t. import_text t \<and> uc_lower u t = t) (imp_item_type i)) (snap_items s)"

lemma non_empty_string_import [simp]: "import_text s \<Longrightarrow> non_empty_string (JStr s) = Valid s"
  by (simp add: non_empty_string_def reject_oversized_string_def strict_str_def import_text_def
      pg_text_def Let_def)

lemma map_of_optional [simp]:
  "map_of (optional_member k x) (lit l) = (if k = l then map_option JStr x else None)"
  by (cases x) (auto simp: optional_member_def)

lemma map_add_optional [simp]:
  "(m ++ map_of (optional_member k x)) (lit l) =
   (if k = l \<and> x \<noteq> None then map_option JStr x else m (lit l))"
  by (cases x) (auto simp: map_add_def)

lemma optional_member_keys [simp]: "fst ` set (optional_member k x) \<subseteq> {lit k}"
  by (cases x) (auto simp: optional_member_def)

lemma optional_member_in: "(l, j) \<in> set (optional_member k x) \<Longrightarrow> l = lit k"
  by (cases x) (auto simp: optional_member_def)

lemma default_none_None [simp]: "default_none None f = Valid None"
  by (simp add: default_none_def)

lemma default_none_import:
  "nullable import_text x \<Longrightarrow>
   default_none (map_option JStr x) (nullable_value non_empty_string) = Valid x"
  by (cases x) (simp_all add: default_none_def nullable_value_def)

lemma reject_unknown_known:
  "fst ` set kvs \<subseteq> set allowed \<Longrightarrow> reject_unknown_fields allowed (JObj kvs) = Valid (JObj kvs)"
  by (auto simp: reject_unknown_fields_def find_None_iff split: option.split dest!: find_Some_iff [THEN iffD1])
     (metis image_eqI subsetD fst_conv nth_mem)

lemma validate_item_json:
  assumes "import_ok (vl_unicode lib) i"
    "nullable (\<lambda>t. import_text t \<and> uc_lower (vl_unicode lib) t = t) (imp_item_type i)"
  shows "validate_item lib (import_json i) = Valid i"
proof -
  have types: "default_none (map_option JStr (imp_item_type i))
      (\<lambda>j. after (nullable_value non_empty_string j) (normalize_item_type lib)) = Valid (imp_item_type i)"
    using assms(2) by (cases "imp_item_type i") (simp_all add: default_none_def nullable_value_def normalize_item_type_def)
  have quality: "nullable_value (strict_int_between quality_issue)
      (case imp_quality i of None \<Rightarrow> JNull | Some q \<Rightarrow> JInt q) = Valid (imp_quality i)"
    using assms(1) by (cases "imp_quality i")
      (simp_all add: import_ok_def nullable_value_def strict_int_between_def quality_issue_def)
  have "\<exists>kvs. import_json i = JObj kvs \<and> fst ` set kvs \<subseteq> set ITEM_IMPORT_FIELDS \<and> item_fields lib kvs = Valid i"
    using assms(1) types quality
    by (cases i) (simp add: import_json_def image_Un item_fields_def import_ok_def ITEM_IMPORT_FIELDS_def
        required_field_def strict_int_between_def game_id_issue_def validate_image_url_def
        default_none_import subset_trans [OF optional_member_keys] split: if_splits)
  then show ?thesis by (auto simp: validate_item_def reject_unknown_known)
qed

lemma items_from_json:
  assumes "list_all (import_ok (vl_unicode lib)) is"
    "list_all (\<lambda>i. nullable (\<lambda>t. import_text t \<and> uc_lower (vl_unicode lib) t = t) (imp_item_type i)) is"
    "n + length is \<le> MAX_SNAPSHOT_ITEMS"
  shows "items_from lib n (map import_json is) = Valid is"
  using assms by (induction "is" arbitrary: n) (auto simp: validate_item_json)

lemma validate_snapshot_json:
  assumes "snapshot_ok (vl_unicode lib) s" "types_published (vl_unicode lib) s"
  shows "validate_snapshot lib (snapshot_json s) = Valid s"
proof -
  have items: "items_from lib 0 (map import_json (snap_items s)) = Valid (snap_items s)"
    using assms by (auto simp: snapshot_ok_def types_published_def intro!: items_from_json)
  have "\<exists>kvs. snapshot_json s = JObj kvs \<and> fst ` set kvs \<subseteq> set SNAPSHOT_FIELDS \<and>
      snapshot_fields lib kvs = Valid s"
    using assms(1) items
    by (cases s) (auto simp: snapshot_json_def snapshot_fields_def snapshot_ok_def SNAPSHOT_FIELDS_def
        required_field_def validate_items_def default_none_import image_Un
        dest: optional_member_in)
  moreover have "reject_duplicate_game_ids s = Valid s"
    using assms(1) distinct_card [of "map imp_game_id (snap_items s)"]
    by (simp add: reject_duplicate_game_ids_def snapshot_ok_def Let_def)
  ultimately show ?thesis by (auto simp: validate_snapshot_def reject_unknown_known)
qed

end
