(* ===== verification/IngestionRepository.thy ===== *)
theory IngestionRepository
  imports ItemsRepository IngestionSchemas
begin

text \<open>
  \<open>app/ingestion/repository.py\<close>: transactions of a session (READ COMMITTED, the
  isolation level in force), the \<open>IngestionRepository\<close> protocol as a record of session
  coroutines, and \<open>SqlAlchemyIngestionRepository\<close> with the meaning of its statements,
  \<open>INSERT ... ON CONFLICT DO UPDATE\<close> row by row as PostgreSQL runs it. The server's
  clock and what fits an entry of a B-tree index are parameters.
\<close>

section \<open>Transactions\<close>

record pg_server =
  pg_now :: "world \<Rightarrow> datetime"
  pg_index_fits :: "pystr \<Rightarrow> bool"

text \<open>\<open>now()\<close> is the start of the transaction; the view is the committed database with the
  writes of this transaction.\<close>

record transaction =
  tx_now :: datetime
  tx_view :: database

type_synonym 'a sess = "(world \<times> transaction, exn, 'a) io"

type_synonym 'a tx_stmt = "datetime \<Rightarrow> database \<Rightarrow> (exn + 'a) \<times> database"

definition tx_call :: "'a tx_stmt \<Rightarrow> 'a sess" where
  "tx_call stmt s =
     (case s of (w, t) \<Rightarrow>
        (case db_events w of
           [] \<Rightarrow> (case stmt (tx_now t) (tx_view t) of (r, db) \<Rightarrow> (r, (w, t\<lparr>tx_view := db\<rparr>)))
         | e # es \<Rightarrow>
             (let w' = w\<lparr>database := de_others e (database w), db_events := es\<rparr>;
                  v = de_others e (tx_view t) in
              case de_fault e of
                Some x \<Rightarrow> (Inl x, (w', t\<lparr>tx_view := v\<rparr>))
              | None \<Rightarrow>
                  (case stmt (tx_now t) v of (r, db) \<Rightarrow> (r, (w', t\<lparr>tx_view := db\<rparr>))))))"

text \<open>A rollback undoes the rows; sequences are not transactional and only advance.\<close>

definition tx_rollback :: "transaction \<Rightarrow> world \<Rightarrow> world" where
  "tx_rollback t w =
     w\<lparr>database := (database w)\<lparr>items_id_seq :=
         max (items_id_seq (database w)) (items_id_seq (tx_view t))\<rparr>\<rparr>"

definition tx_commit :: "transaction \<Rightarrow> unit prog" where
  "tx_commit t w =
     (case db_events w of
        [] \<Rightarrow> (Inr (), w\<lparr>database := tx_view t\<rparr>)
      | e # es \<Rightarrow>
          (let w' = w\<lparr>database := de_others e (database w), db_events := es\<rparr>;
               t' = t\<lparr>tx_view := de_others e (tx_view t)\<rparr> in
           case de_fault e of
             None \<Rightarrow> (Inr (), w'\<lparr>database := tx_view t'\<rparr>)
           | Some x \<Rightarrow>
               (Inl x, if de_executed e then w'\<lparr>database := tx_view t'\<rparr> else tx_rollback t' w')))"

text \<open>\<open>async with session_factory.begin() as session\<close>: an exception rolls back, every other
  way out (an early \<open>return\<close> too) commits.\<close>

definition in_transaction :: "pg_server \<Rightarrow> 'a sess \<Rightarrow> 'a prog" where
  "in_transaction pg body w =
     (case body (w, \<lparr>tx_now = pg_now pg w, tx_view = database w\<rparr>) of
        (Inl e, (w', t)) \<Rightarrow> (Inl e, tx_rollback t w')
      | (Inr a, (w', t)) \<Rightarrow> bindM (tx_commit t) (\<lambda>_. ret a) w')"

section \<open>The statements\<close>

definition ITEM_BATCH_SIZE :: nat where "ITEM_BATCH_SIZE = 1000"
definition INGESTION_LOCK_KEY :: int where "INGESTION_LOCK_KEY = 1182026"

text \<open>\<open>pg_advisory_xact_lock\<close> returns once no other transaction holds the lock; the
  transactions that held it before are those of the event's \<open>de_others\<close>.\<close>

definition lock_stmt :: "int \<Rightarrow> unit tx_stmt" where
  "lock_stmt key now db = (Inr (), db)"

definition last_sync_stmt :: "datetime list tx_stmt" where
  "last_sync_stmt now db =
     (Inr (map md_last_sync (filter (\<lambda>m. md_id m = 1) (metadata_table db))), db)"

definition item_binds :: "item_import \<Rightarrow> bool" where
  "item_binds i \<longleftrightarrow>
     int4 (imp_game_id i) \<and> pg_text (imp_name i) \<and> pg_text (imp_description i) \<and>
     nullable int4 (imp_quality i) \<and> nullable pg_text (imp_item_type i) \<and>
     nullable pg_text (imp_recharge_time i) \<and> pg_text (imp_image_url i) \<and>
     nullable pg_text (imp_introduced_in_version i)"

definition inserted_row :: "datetime \<Rightarrow> int \<Rightarrow> item_import \<Rightarrow> item_row" where
  "inserted_row now n i =
     \<lparr>it_id = n, it_game_id = imp_game_id i, it_name = imp_name i,
      it_description = imp_description i, it_quality = imp_quality i,
      it_item_type = imp_item_type i, it_recharge_time = imp_recharge_time i,
      it_image_url = imp_image_url i, it_introduced_in_version = imp_introduced_in_version i,
      it_created_at = now, it_updated_at = now\<rparr>"

definition updated_row :: "datetime \<Rightarrow> item_import \<Rightarrow> item_row \<Rightarrow> item_row" where
  "updated_row now i r =
     r\<lparr>it_name := imp_name i, it_description := imp_description i, it_quality := imp_quality i,
       it_item_type := imp_item_type i, it_recharge_time := imp_recharge_time i,
       it_image_url := imp_image_url i, it_introduced_in_version := imp_introduced_in_version i,
       it_updated_at := now\<rparr>"

text \<open>The CHECK constraint on \<open>quality\<close>, and the entries of the indexes on \<open>name\<close> and
  \<open>item_type\<close>.\<close>

definition row_storable :: "pg_server \<Rightarrow> item_import \<Rightarrow> bool" where
  "row_storable pg i \<longleftrightarrow>
     nullable (\<lambda>q. 0 \<le> q \<and> q \<le> 4) (imp_quality i) \<and> pg_index_fits pg (imp_name i) \<and>
     nullable (pg_index_fits pg) (imp_item_type i)"

text \<open>The rows of one statement in order: each proposed row takes a value of the sequence
  (which ends at the greatest 32-bit integer), is checked, and is inserted unless a
  row has its \<open>game_id\<close>, which is updated then; a row that this statement has already
  written cannot be written again.\<close>

primrec upsert_rows ::
  "pg_server \<Rightarrow> datetime \<Rightarrow> int set \<Rightarrow> item_import list \<Rightarrow> database \<Rightarrow> (exn + unit) \<times> database" where
  "upsert_rows pg now touched [] db = (Inr (), db)"
| "upsert_rows pg now touched (i # is) db =
     (let n = items_id_seq db; g = imp_game_id i; db' = db\<lparr>items_id_seq := n + 1\<rparr> in
      if 2147483647 < n then (Inl SQLAlchemyError, db)
      else if \<not> row_storable pg i \<or> g \<in> touched then (Inl SQLAlchemyError, db')
      else if g \<in> it_game_id ` set (items_table db) then
        upsert_rows pg now (insert g touched) is
          (db'\<lparr>items_table :=
                 map (\<lambda>r. if it_game_id r = g then updated_row now i r else r) (items_table db)\<rparr>)
      else if n \<in> it_id ` set (items_table db) then (Inl SQLAlchemyError, db')
      else upsert_rows pg now (insert g touched) is
             (db'\<lparr>items_table := items_table db @ [inserted_row now n i]\<rparr>))"

text \<open>The statement binds eight parameters a row, of which the protocol allows 32767; an
  error undoes its rows.\<close>

definition upsert_items_stmt :: "pg_server \<Rightarrow> item_import list \<Rightarrow> unit tx_stmt" where
  "upsert_items_stmt pg is now db =
     (if 32767 < 8 * length is then (Inl InterfaceError, db)
      else if \<not> list_all item_binds is then (Inl SQLAlchemyError, db)
      else (case upsert_rows pg now {} is db of
              (Inl e, db') \<Rightarrow> (Inl e, db\<lparr>items_id_seq := items_id_seq db'\<rparr>)
            | (Inr u, db') \<Rightarrow> (Inr u, db')))"

definition upsert_metadata_stmt :: "pystr \<Rightarrow> pystr option \<Rightarrow> datetime \<Rightarrow> unit tx_stmt" where
  "upsert_metadata_stmt dv gv ls now db =
     (let m = \<lparr>md_id = 1, md_dataset_version = dv, md_game_version = gv, md_last_sync = ls\<rparr> in
      if \<not> metadata_row_ok m then (Inl SQLAlchemyError, db)
      else if 1 \<in> md_id ` set (metadata_table db) then
        (Inr (), db\<lparr>metadata_table :=
                      map (\<lambda>r. if md_id r = 1 \<and> ls > md_last_sync r
                               then r\<lparr>md_dataset_version := dv, md_game_version := gv, md_last_sync := ls\<rparr>
                               else r) (metadata_table db)\<rparr>)
      else (Inr (), db\<lparr>metadata_table := metadata_table db @ [m]\<rparr>))"

section \<open>The repository\<close>

record ingestion_repository =
  ir_acquire_lock :: "unit sess"
  ir_get_last_sync :: "datetime option sess"
  ir_upsert_items :: "item_import list \<Rightarrow> unit sess"
  ir_upsert_metadata :: "pystr \<Rightarrow> pystr option \<Rightarrow> datetime \<Rightarrow> unit sess"

definition ingestion_failure :: "exn \<Rightarrow> bool" where
  "ingestion_failure e \<longleftrightarrow>
     e = InterfaceError \<or> is_OSError e \<or> e = PostgresError \<or> e = TimeoutError \<or> e = SQLAlchemyError"

definition ingestion_execute :: "'a tx_stmt \<Rightarrow> 'a sess" where
  "ingestion_execute stmt =
     catchM (tx_call stmt)
       (\<lambda>e. if ingestion_failure e then Some (raise SERVICE_UNAVAILABLE) else None)"

definition acquire_lock :: "unit sess" where
  "acquire_lock = ingestion_execute (lock_stmt INGESTION_LOCK_KEY)"

definition get_last_sync :: "datetime option sess" where
  "get_last_sync = bindM (ingestion_execute last_sync_stmt) (\<lambda>rows. liftM (scalar_one_or_none rows))"

text \<open>\<open>range(0, n, step)\<close> and \<open>xs[start:stop]\<close>\<close>

definition py_range :: "nat \<Rightarrow> nat \<Rightarrow> nat list" where
  "py_range n s = map (\<lambda>k. k * s) [0..<(n + s - 1) div s]"

definition slice :: "'a list \<Rightarrow> nat \<Rightarrow> nat \<Rightarrow> 'a list" where
  "slice xs start stop = take (stop - start) (drop start xs)"

definition item_batches :: "'a list \<Rightarrow> 'a list list" where
  "item_batches xs =
     map (\<lambda>start. slice xs start (start + ITEM_BATCH_SIZE)) (py_range (length xs) ITEM_BATCH_SIZE)"

definition upsert_items :: "pg_server \<Rightarrow> item_import list \<Rightarrow> unit sess" where
  "upsert_items pg items =
     (if items = [] then ret ()
      else for_each (item_batches items) (\<lambda>batch. ingestion_execute (upsert_items_stmt pg batch)))"

definition upsert_metadata :: "pystr \<Rightarrow> pystr option \<Rightarrow> datetime \<Rightarrow> unit sess" where
  "upsert_metadata dataset_version game_version last_sync =
     ingestion_execute (upsert_metadata_stmt dataset_version game_version last_sync)"

definition sqlalchemy_ingestion_repository :: "pg_server \<Rightarrow> ingestion_repository" where
  "sqlalchemy_ingestion_repository pg =
     \<lparr>ir_acquire_lock = acquire_lock, ir_get_last_sync = get_last_sync,
      ir_upsert_items = upsert_items pg, ir_upsert_metadata = upsert_metadata\<rparr>"

section \<open>The batches\<close>

lemma concat_slices:
  "concat (map (\<lambda>k. slice xs (k * s) (k * s + s)) [0..<m]) = take (m * s) xs"
proof (induction m)
  case (Suc m)
  then show ?case by (simp add: slice_def take_add [symmetric] add.commute [of s])
qed simp

lemma batch_count:
  "n \<le> (n + ITEM_BATCH_SIZE - 1) div ITEM_BATCH_SIZE * ITEM_BATCH_SIZE"
  "k < (n + ITEM_BATCH_SIZE - 1) div ITEM_BATCH_SIZE \<Longrightarrow> k * ITEM_BATCH_SIZE < n"
proof -
  have "0 < ITEM_BATCH_SIZE" by (simp add: ITEM_BATCH_SIZE_def)
  then show "n \<le> (n + ITEM_BATCH_SIZE - 1) div ITEM_BATCH_SIZE * ITEM_BATCH_SIZE"
    using div_mult_mod_eq [of "n + ITEM_BATCH_SIZE - 1" ITEM_BATCH_SIZE]
      mod_less_divisor [of ITEM_BATCH_SIZE "n + ITEM_BATCH_SIZE - 1"] by linarith
  assume "k < (n + ITEM_BATCH_SIZE - 1) div ITEM_BATCH_SIZE"
  then have "Suc k * ITEM_BATCH_SIZE \<le> n + ITEM_BATCH_SIZE - 1"
    using \<open>0 < ITEM_BATCH_SIZE\<close> by (simp add: less_eq_div_iff_mult_less_eq Suc_le_eq [symmetric] del: mult_Suc)
  then show "k * ITEM_BATCH_SIZE < n" using \<open>0 < ITEM_BATCH_SIZE\<close> by simp
qed

lemma concat_item_batches: "concat (item_batches xs) = xs"
  using batch_count(1) [of "length xs"] by (simp add: item_batches_def py_range_def comp_def concat_slices)

lemma item_batches_sizes:
  assumes "b \<in> set (item_batches xs)"
  shows "b \<noteq> []" "length b \<le> ITEM_BATCH_SIZE"
proof -
  obtain k where k: "b = slice xs (k * ITEM_BATCH_SIZE) (k * ITEM_BATCH_SIZE + ITEM_BATCH_SIZE)"
    "k < (length xs + ITEM_BATCH_SIZE - 1) div ITEM_BATCH_SIZE"
    using assms by (auto simp: item_batches_def py_range_def)
  then have "k * ITEM_BATCH_SIZE < length xs" by (simp add: batch_count)
  then show "b \<noteq> []" "length b \<le> ITEM_BATCH_SIZE"
    using k(1) by (auto simp: slice_def ITEM_BATCH_SIZE_def)
qed

section \<open>The catalogue a database holds\<close>

text \<open>The abstraction of the tables that ingestion promises: the items by their game
  identifier, without surrogate key and timestamps, and the metadata.\<close>

record catalogue =
  cat_items :: "int \<rightharpoonup> item_import"
  cat_metadata :: "dataset_metadata_record option"

definition import_of_row :: "item_row \<Rightarrow> item_import" where
  "import_of_row r =
     \<lparr>imp_game_id = it_game_id r, imp_name = it_name r, imp_description = it_description r,
      imp_quality = it_quality r, imp_item_type = it_item_type r,
      imp_recharge_time = it_recharge_time r, imp_image_url = it_image_url r,
      imp_introduced_in_version = it_introduced_in_version r\<rparr>"

definition row_map :: "item_row list \<Rightarrow> int \<rightharpoonup> item_import" where
  "row_map rows = map_of (map (\<lambda>r. (it_game_id r, import_of_row r)) rows)"

definition import_map :: "item_import list \<Rightarrow> int \<rightharpoonup> item_import" where
  "import_map is = map_of (map (\<lambda>i. (imp_game_id i, i)) is)"

definition metadata_of :: "database \<Rightarrow> dataset_metadata_record option" where
  "metadata_of db =
     map_option (\<lambda>m. \<lparr>dm_dataset_version = md_dataset_version m, dm_game_version = md_game_version m,
                       dm_last_sync = md_last_sync m\<rparr>)
       (find (\<lambda>m. md_id m = 1) (metadata_table db))"

definition catalogue_of :: "database \<Rightarrow> catalogue" where
  "catalogue_of db = \<lparr>cat_items = row_map (items_table db), cat_metadata = metadata_of db\<rparr>"

definition last_sync_of :: "catalogue \<Rightarrow> datetime option" where
  "last_sync_of c = map_option dm_last_sync (cat_metadata c)"

lemma catalogue_of_tables:
  "items_table db = items_table db' \<Longrightarrow> metadata_table db = metadata_table db' \<Longrightarrow>
   catalogue_of db = catalogue_of db'"
  by (simp add: catalogue_of_def metadata_of_def)

lemma metadata_of_ok: "db_ok db \<Longrightarrow> metadata_of db = cm_metadata (catalog_meta_of db)"
  using metadata_singleton [of db] by (auto simp: metadata_of_def catalog_meta_of_def)

lemma catalogue_of_seq [simp]: "catalogue_of (db\<lparr>items_id_seq := n\<rparr>) = catalogue_of db"
  by (rule catalogue_of_tables) simp_all

lemma row_map_dom: "g \<in> it_game_id ` set rows \<longleftrightarrow> row_map rows g \<noteq> None"
  by (auto simp: row_map_def map_of_eq_None_iff image_image)

lemma import_of_inserted: "import_of_row (inserted_row now n i) = i"
  by (simp add: import_of_row_def inserted_row_def)

lemma import_of_updated:
  "it_game_id r = imp_game_id i \<Longrightarrow> import_of_row (updated_row now i r) = i"
  by (simp add: import_of_row_def updated_row_def)

lemma updated_row_keeps [simp]:
  "it_game_id (updated_row now i r) = it_game_id r" "it_id (updated_row now i r) = it_id r"
  "it_created_at (updated_row now i r) = it_created_at r"
  by (simp_all add: updated_row_def)

lemma inserted_row_simps [simp]:
  "it_game_id (inserted_row now n i) = imp_game_id i" "it_id (inserted_row now n i) = n"
  by (simp_all add: inserted_row_def)

lemma row_map_update:
  "imp_game_id i \<in> it_game_id ` set rows \<Longrightarrow>
   row_map (map (\<lambda>r. if it_game_id r = imp_game_id i then updated_row now i r else r) rows) =
   (row_map rows)(imp_game_id i \<mapsto> i)"
proof -
  have "row_map (map (\<lambda>r. if it_game_id r = imp_game_id i then updated_row now i r else r) rows) g =
      (if g = imp_game_id i \<and> g \<in> it_game_id ` set rows then Some i else row_map rows g)" for g
    by (induction rows) (auto simp: row_map_def import_of_updated)
  then show "imp_game_id i \<in> it_game_id ` set rows \<Longrightarrow> ?thesis" by (simp add: fun_eq_iff)
qed

lemma row_map_insert:
  "imp_game_id i \<notin> it_game_id ` set rows \<Longrightarrow>
   row_map (rows @ [inserted_row now n i]) = (row_map rows)(imp_game_id i \<mapsto> i)"
proof -
  assume "imp_game_id i \<notin> it_game_id ` set rows"
  then have "row_map rows (imp_game_id i) = None" by (simp add: row_map_dom)
  then show ?thesis
    by (auto simp: row_map_def map_add_def import_of_inserted fun_eq_iff split: option.split)
qed

section \<open>The effect of an upsert\<close>

abbreviation row_identity :: "item_row \<Rightarrow> int \<times> int \<times> datetime" where
  "row_identity r \<equiv> (it_id r, it_game_id r, it_created_at r)"

lemma row_identity_update:
  "map row_identity (map (\<lambda>r. if it_game_id r = g then updated_row now i r else r) rows) =
   map row_identity rows"
  by simp

text \<open>One induction over the rows of a statement gives what the rest needs: the catalogue is
  overridden, rows keep their identity, the sequence advances by one a row.\<close>

lemma upsert_rows_effect:
  assumes "upsert_rows pg now touched is db = (Inr (), db')"
  shows "row_map (items_table db') = row_map (items_table db) ++ import_map is \<and>
     distinct (map imp_game_id is) \<and> imp_game_id ` set is \<inter> touched = {} \<and>
     metadata_table db' = metadata_table db \<and>
     items_id_seq db' = items_id_seq db + int (length is) \<and>
     (\<exists>new. map row_identity (items_table db') = map row_identity (items_table db) @ new)"
  using assms
proof (induction "is" arbitrary: touched db)
  case Nil
  then show ?case by (simp add: import_map_def)
next
  case (Cons i "is")
  let ?g = "imp_game_id i"
  define db1 where "db1 = (if ?g \<in> it_game_id ` set (items_table db)
      then db\<lparr>items_id_seq := items_id_seq db + 1, items_table :=
             map (\<lambda>r. if it_game_id r = ?g then updated_row now i r else r) (items_table db)\<rparr>
      else db\<lparr>items_id_seq := items_id_seq db + 1,
              items_table := items_table db @ [inserted_row now (items_id_seq db) i]\<rparr>)"
  have run: "upsert_rows pg now (insert ?g touched) is db1 = (Inr (), db')" and new: "?g \<notin> touched"
    using Cons.prems by (auto simp: Let_def db1_def split: if_splits)
  have map1: "row_map (items_table db1) = (row_map (items_table db))(?g \<mapsto> i)"
    by (simp add: db1_def row_map_update row_map_insert)
  have ids1: "\<exists>new. map row_identity (items_table db1) = map row_identity (items_table db) @ new"
    by (auto simp: db1_def row_identity_update simp del: map_map)
  have rest: "metadata_table db1 = metadata_table db" "items_id_seq db1 = items_id_seq db + 1"
    by (simp_all add: db1_def)
  note IH = Cons.IH [OF run]
  have fresh: "import_map is ?g = None"
    using IH by (auto simp: import_map_def map_of_eq_None_iff image_image)
  have "(row_map (items_table db))(?g \<mapsto> i) ++ import_map is =
      row_map (items_table db) ++ import_map (i # is)"
    using fresh by (auto simp: import_map_def map_add_def fun_eq_iff split: option.split)
  then have "row_map (items_table db') = row_map (items_table db) ++ import_map (i # is)"
    by (simp only: IH [THEN conjunct1] map1)
  moreover have "\<exists>new. map row_identity (items_table db') = map row_identity (items_table db) @ new"
  proof -
    obtain new1 where 1: "map row_identity (items_table db1) = map row_identity (items_table db) @ new1"
      using ids1 by blast
    obtain new2 where 2: "map row_identity (items_table db') = map row_identity (items_table db1) @ new2"
      using IH by blast
    have "map row_identity (items_table db') = map row_identity (items_table db) @ new1 @ new2"
      by (simp only: 1 2 append.assoc)
    then show ?thesis ..
  qed
  ultimately show ?case using IH rest new by auto
qed

lemma upsert_rows_ok:
  assumes "upsert_rows pg now touched is db = (Inr (), db')" "list_all item_binds is" "db_ok db"
  shows "db_ok db'"
  using assms
proof (induction "is" arbitrary: touched db)
  case (Cons i "is")
  let ?g = "imp_game_id i"
  have row: "item_row_ok (inserted_row now n i)" "item_row_ok (updated_row now i r)"
    if "it_game_id r = ?g" "item_row_ok r" for n r
    using Cons.prems that
    by (auto simp: Let_def item_binds_def row_storable_def item_row_ok_def inserted_row_def
        updated_row_def split: if_splits)
  have row1: "item_row_ok (inserted_row now n i)" for n
    using Cons.prems
    by (auto simp: Let_def item_binds_def row_storable_def item_row_ok_def inserted_row_def split: if_splits)
  show ?case
  proof (cases "?g \<in> it_game_id ` set (items_table db)")
    case True
    let ?db = "db\<lparr>items_id_seq := items_id_seq db + 1, items_table :=
             map (\<lambda>r. if it_game_id r = ?g then updated_row now i r else r) (items_table db)\<rparr>"
    have "upsert_rows pg now (insert ?g touched) is ?db = (Inr (), db')"
      using Cons.prems True by (auto simp: Let_def split: if_splits)
    moreover have "map it_game_id (items_table ?db) = map it_game_id (items_table db)"
      "map it_id (items_table ?db) = map it_id (items_table db)" by simp_all
    then have "db_ok ?db"
      using Cons.prems(3) unfolding db_ok_def
      by (auto simp: list_all_iff row(2) simp del: map_map)
    ultimately show ?thesis using Cons by simp
  next
    case False
    let ?db = "db\<lparr>items_id_seq := items_id_seq db + 1,
              items_table := items_table db @ [inserted_row now (items_id_seq db) i]\<rparr>"
    have "upsert_rows pg now (insert ?g touched) is ?db = (Inr (), db')"
      using Cons.prems False by (auto simp: Let_def split: if_splits)
    moreover have "db_ok ?db"
      using Cons.prems(3) False unfolding db_ok_def by (auto simp: list_all_iff row1)
    ultimately show ?thesis using Cons by simp
  qed
qed simp

text \<open>A statement on distinct storable rows within the sequence's range does not fail.\<close>

lemma upsert_rows_succeeds:
  assumes "list_all (row_storable pg) is" "distinct (map imp_game_id is)"
    "imp_game_id ` set is \<inter> touched = {}" "\<forall>r\<in>set (items_table db). it_id r < items_id_seq db"
    "items_id_seq db + int (length is) \<le> 2147483648"
  shows "\<exists>db'. upsert_rows pg now touched is db = (Inr (), db') \<and>
     (\<forall>r\<in>set (items_table db'). it_id r < items_id_seq db')"
  using assms
proof (induction "is" arbitrary: touched db)
  case (Cons i "is")
  have step: "\<exists>db'. upsert_rows pg now (insert (imp_game_id i) touched) is d = (Inr (), db') \<and>
     (\<forall>r\<in>set (items_table db'). it_id r < items_id_seq db')"
    if "items_id_seq d = items_id_seq db + 1" "\<forall>r\<in>set (items_table d). it_id r < items_id_seq d" for d
    using Cons.prems that by (intro Cons.IH) auto
  have free: "items_id_seq db \<notin> it_id ` set (items_table db)" using Cons.prems(4) by force
  have bounds: "\<not> 2147483647 < items_id_seq db" "row_storable pg i" "imp_game_id i \<notin> touched"
    using Cons.prems by auto
  show ?case
  proof (cases "imp_game_id i \<in> it_game_id ` set (items_table db)")
    case True
    then show ?thesis
      using bounds Cons.prems(4) by (simp only: upsert_rows.simps Let_def if_True if_False simp_thms)
        (intro step; fastforce)
  next
    case False
    then show ?thesis
      using bounds free Cons.prems(4) by (simp only: upsert_rows.simps Let_def if_True if_False simp_thms)
        (intro step; fastforce)
  qed
qed auto

section \<open>The effect of the statements\<close>

lemma upsert_items_stmt_effect:
  assumes "upsert_items_stmt pg is now db = (Inr (), db')"
  shows "catalogue_of db' =
     (catalogue_of db)\<lparr>cat_items := cat_items (catalogue_of db) ++ import_map is\<rparr>"
proof -
  have "upsert_rows pg now {} is db = (Inr (), db')"
    using assms by (auto simp: upsert_items_stmt_def split: if_splits prod.splits sum.splits)
  from upsert_rows_effect [OF this] show ?thesis
    by (simp add: catalogue_of_def metadata_of_def)
qed

lemma find_map_key:
  "(\<And>x. P (f x) = P x) \<Longrightarrow> find P (map f xs) = map_option f (find P xs)"
  by (induction xs) auto

lemma find_key_None: "find (\<lambda>m. k m = x) xs = None \<longleftrightarrow> x \<notin> k ` set xs"
  by (auto simp: find_None_iff)

lemma upsert_metadata_stmt_effect:
  assumes "upsert_metadata_stmt dv gv ls now db = (Inr (), db')"
    "\<And>cur. last_sync_of (catalogue_of db) = Some cur \<Longrightarrow> cur < ls"
  shows "catalogue_of db' = (catalogue_of db)\<lparr>cat_metadata :=
      Some \<lparr>dm_dataset_version = dv, dm_game_version = gv, dm_last_sync = ls\<rparr>\<rparr>"
proof (cases "find (\<lambda>m. md_id m = 1) (metadata_table db)")
  case None
  then have "1 \<notin> md_id ` set (metadata_table db)" by (simp add: find_key_None)
  then have "db' = db\<lparr>metadata_table := metadata_table db @
      [\<lparr>md_id = 1, md_dataset_version = dv, md_game_version = gv, md_last_sync = ls\<rparr>]\<rparr>"
    using assms(1) by (simp add: upsert_metadata_stmt_def Let_def split: if_splits)
  moreover have "find P (xs @ [x]) = (case find P xs of None \<Rightarrow> if P x then Some x else None | Some y \<Rightarrow> Some y)"
    for P and x :: metadata_row and xs by (induction xs) auto
  ultimately show ?thesis using None by (simp add: catalogue_of_def metadata_of_def)
next
  case (Some m)
  then have there: "1 \<in> md_id ` set (metadata_table db)" "md_id m = 1"
    by (auto simp: find_Some_iff)
  have "md_last_sync m < ls"
    using assms(2) Some by (simp add: last_sync_of_def catalogue_of_def metadata_of_def)
  then show ?thesis
    using assms(1) there Some
    by (auto simp: upsert_metadata_stmt_def Let_def catalogue_of_def metadata_of_def find_map_key
        split: if_splits)
qed

lemma upsert_items_stmt_ok:
  assumes "db_ok db"
  shows "db_ok (snd (upsert_items_stmt pg is now db))"
proof -
  have "db_ok (db\<lparr>items_id_seq := n\<rparr>)" if "items_id_seq db \<le> n" for n
    using assms that by (auto simp: db_ok_def list_all_iff)
  moreover have "items_id_seq d \<le> items_id_seq (snd (upsert_rows pg now touched is d))" for touched d
  proof (induction "is" arbitrary: touched d)
    case (Cons i "is")
    have "items_id_seq d \<le> items_id_seq (snd (upsert_rows pg now (insert (imp_game_id i) touched) is d1))"
      if "items_id_seq d1 = items_id_seq d + 1" for d1
      using Cons.IH [of d1 "insert (imp_game_id i) touched"] that by simp
    then show ?case by (simp add: Let_def)
  qed simp
  ultimately show ?thesis
    using assms
    by (auto simp: upsert_items_stmt_def split: prod.split sum.split intro: upsert_rows_ok)
       (metis snd_conv)
qed

lemma upsert_metadata_stmt_ok:
  assumes "db_ok db"
  shows "db_ok (snd (upsert_metadata_stmt dv gv ls now db))"
proof -
  have "map md_id (map (\<lambda>r. if md_id r = 1 \<and> ls > md_last_sync r
      then r\<lparr>md_dataset_version := dv, md_game_version := gv, md_last_sync := ls\<rparr> else r)
      (metadata_table db)) = map md_id (metadata_table db)" by simp
  then show ?thesis
    using assms
    by (auto simp: upsert_metadata_stmt_def Let_def db_ok_def list_all_iff metadata_row_ok_def
        simp del: map_map)
qed

end
