(* ===== verification/IngestionService.thy ===== *)
theory IngestionService
  imports IngestionRepository
begin

text \<open>
  \<open>app/ingestion/service.py\<close>: \<open>IngestionService.ingest\<close>, one transaction that takes the
  advisory lock, compares the clock with the last synchronisation and publishes the
  snapshot. What the service needs of its repository is the locale
  \<open>ingestion_store\<close>; its lemma says what the transaction's body leaves, and the
  interpretation gives it for \<open>SqlAlchemyIngestionRepository\<close>.
\<close>

section \<open>IngestionService\<close>

record ingestion_service =
  is_session_factory :: pg_server \<comment> \<open>what its sessions are connected to\<close>
  is_repository_factory :: ingestion_repository
  is_clock :: "world \<Rightarrow> datetime"

text \<open>The body of the \<open>async with\<close>: \<open>Some t\<close> is \<open>return t\<close> from inside it, \<open>None\<close> its end.\<close>

definition ingest_body :: "ingestion_repository \<Rightarrow> item_snapshot \<Rightarrow> datetime \<Rightarrow> datetime option sess" where
  "ingest_body repository snapshot last_sync =
     bindM (ir_acquire_lock repository) (\<lambda>_.
     bindM (ir_get_last_sync repository) (\<lambda>current_last_sync.
     let publish_it =
       bindM (ir_upsert_items repository (snap_items snapshot)) (\<lambda>_.
       bindM (ir_upsert_metadata repository (snap_dataset_version snapshot)
                (snap_game_version snapshot) last_sync) (\<lambda>_. ret None)) in
     case current_last_sync of
       None \<Rightarrow> publish_it
     | Some current \<Rightarrow> if last_sync \<le> current then ret (Some current) else publish_it))"

definition ingest :: "ingestion_service \<Rightarrow> item_snapshot \<Rightarrow> datetime prog" where
  "ingest service snapshot =
     bindM (getsM (is_clock service)) (\<lambda>last_sync.
     bindM (in_transaction (is_session_factory service)
              (ingest_body (is_repository_factory service) snapshot last_sync)) (\<lambda>returned.
     case returned of Some t \<Rightarrow> ret t | None \<Rightarrow> ret last_sync))"

definition ingestion_service_of :: "pg_server \<Rightarrow> (world \<Rightarrow> datetime) \<Rightarrow> ingestion_service" where
  "ingestion_service_of pg clock =
     \<lparr>is_session_factory = pg, is_repository_factory = sqlalchemy_ingestion_repository pg,
      is_clock = clock\<rparr>"

section \<open>What ingestion promises\<close>

definition publish :: "item_snapshot \<Rightarrow> datetime \<Rightarrow> catalogue \<Rightarrow> catalogue" where
  "publish snapshot t c =
     \<lparr>cat_items = cat_items c ++ import_map (snap_items snapshot),
      cat_metadata = Some \<lparr>dm_dataset_version = snap_dataset_version snapshot,
        dm_game_version = snap_game_version snapshot, dm_last_sync = t\<rparr>\<rparr>"

definition stale :: "datetime \<Rightarrow> catalogue \<Rightarrow> bool" where
  "stale t c \<longleftrightarrow> (case last_sync_of c of None \<Rightarrow> False | Some current \<Rightarrow> t \<le> current)"

definition ingested :: "item_snapshot \<Rightarrow> datetime \<Rightarrow> catalogue \<Rightarrow> catalogue" where
  "ingested snapshot t c = (if stale t c then c else publish snapshot t c)"

definition sync_time :: "datetime \<Rightarrow> catalogue \<Rightarrow> datetime" where
  "sync_time t c = (case last_sync_of c of None \<Rightarrow> t | Some current \<Rightarrow> max t current)"

lemma last_sync_ingested: "last_sync_of (ingested snapshot t c) = Some (sync_time t c)"
  by (auto simp: ingested_def stale_def publish_def sync_time_def last_sync_of_def split: option.split)

lemma ingested_idem: "ingested snapshot t (ingested snapshot t c) = ingested snapshot t c"
  by (auto simp: ingested_def stale_def publish_def last_sync_of_def split: option.splits)

section \<open>The interface to the repository\<close>

text \<open>\<open>base\<close> is the committed catalogue, \<open>view\<close> the transaction's; \<open>ready\<close> holds before the
  lock is taken and \<open>steady\<close> while it is held.\<close>

locale ingestion_store =
  fixes repository :: ingestion_repository
    and ready steady :: "world \<times> transaction \<Rightarrow> bool"
    and base view :: "world \<times> transaction \<Rightarrow> catalogue"
  assumes lock: "\<And>s r s'. ready s \<Longrightarrow> ir_acquire_lock repository s = (r, s') \<Longrightarrow>
      steady s' \<and> view s' = base s'"
    and last: "\<And>s r s'. steady s \<Longrightarrow> ir_get_last_sync repository s = (r, s') \<Longrightarrow>
      steady s' \<and> base s' = base s \<and> view s' = view s \<and> (\<forall>x. r = Inr x \<longrightarrow> x = last_sync_of (view s))"
    and items: "\<And>is s r s'. steady s \<Longrightarrow> distinct (map imp_game_id is) \<Longrightarrow>
      ir_upsert_items repository is s = (r, s') \<Longrightarrow>
      steady s' \<and> base s' = base s \<and>
      (r = Inr () \<longrightarrow> view s' = (view s)\<lparr>cat_items := cat_items (view s) ++ import_map is\<rparr>)"
    and metadata: "\<And>dv gv ls s r s'. steady s \<Longrightarrow>
      (\<And>cur. last_sync_of (view s) = Some cur \<Longrightarrow> cur < ls) \<Longrightarrow>
      ir_upsert_metadata repository dv gv ls s = (r, s') \<Longrightarrow>
      steady s' \<and> base s' = base s \<and>
      (r = Inr () \<longrightarrow> view s' = (view s)\<lparr>cat_metadata :=
         Some \<lparr>dm_dataset_version = dv, dm_game_version = gv, dm_last_sync = ls\<rparr>\<rparr>)"
begin

lemma publish_outcome:
  assumes s: "steady s" and snapshot: "distinct (map imp_game_id (snap_items snapshot))"
    and newer: "\<And>cur. last_sync_of (view s) = Some cur \<Longrightarrow> cur < t"
    and run: "bindM (ir_upsert_items repository (snap_items snapshot)) (\<lambda>_.
       bindM (ir_upsert_metadata repository (snap_dataset_version snapshot)
                (snap_game_version snapshot) t) (\<lambda>_. ret (None :: datetime option))) s = (r, s')"
  shows "steady s' \<and> base s' = base s \<and> (\<forall>x. r = Inr x \<longrightarrow> x = None \<and> view s' = publish snapshot t (view s))"
proof -
  obtain r1 s1 where 1: "ir_upsert_items repository (snap_items snapshot) s = (r1, s1)" by (rule prod.exhaust)
  note items1 = items [OF s snapshot 1]
  show ?thesis
  proof (cases r1)
    case (Inl e)
    then show ?thesis using items1 run 1 by (auto simp: bindM_def)
  next
    case (Inr u)
    obtain r2 s2 where 2: "ir_upsert_metadata repository (snap_dataset_version snapshot)
        (snap_game_version snapshot) t s1 = (r2, s2)" by (rule prod.exhaust)
    have view1: "view s1 = (view s)\<lparr>cat_items := cat_items (view s) ++ import_map (snap_items snapshot)\<rparr>"
      using items1 Inr by simp
    then have "last_sync_of (view s1) = last_sync_of (view s)" by (simp add: last_sync_of_def)
    then have meta2: "steady s2 \<and> base s2 = base s1 \<and>
      (r2 = Inr () \<longrightarrow> view s2 = (view s1)\<lparr>cat_metadata :=
         Some \<lparr>dm_dataset_version = snap_dataset_version snapshot,
           dm_game_version = snap_game_version snapshot, dm_last_sync = t\<rparr>\<rparr>)"
      using items1 newer by (intro metadata [OF _ _ 2]) auto
    show ?thesis
      using run 1 2 Inr items1 meta2 view1 by (cases r2) (auto simp: bindM_def publish_def)
  qed
qed

lemma body_outcome:
  assumes s: "ready s" and snapshot: "distinct (map imp_game_id (snap_items snapshot))"
    and run: "ingest_body repository snapshot t s = (r, s')"
  shows "steady s' \<and>
    (\<forall>x. r = Inr x \<longrightarrow> view s' = ingested snapshot t (base s') \<and>
       (case x of Some y \<Rightarrow> y | None \<Rightarrow> t) = sync_time t (base s'))"
proof -
  obtain r1 s1 where 1: "ir_acquire_lock repository s = (r1, s1)" by (rule prod.exhaust)
  note lock1 = lock [OF s 1]
  show ?thesis
  proof (cases r1)
    case (Inl e)
    then show ?thesis using run 1 lock1 by (auto simp: ingest_body_def bindM_def)
  next
    case (Inr u)
    obtain r2 s2 where 2: "ir_get_last_sync repository s1 = (r2, s2)" by (rule prod.exhaust)
    have last2: "steady s2 \<and> base s2 = base s1 \<and> view s2 = view s1 \<and>
        (\<forall>x. r2 = Inr x \<longrightarrow> x = last_sync_of (view s1))"
      using lock1 by (intro last [OF _ 2]) simp
    show ?thesis
    proof (cases r2)
      case (Inl e)
      then show ?thesis using run 1 2 \<open>r1 = Inr u\<close> last2 by (auto simp: ingest_body_def bindM_def)
    next
      case (Inr cur)
      then have cur: "cur = last_sync_of (base s2)" "view s2 = base s2" using last2 lock1 by auto
      show ?thesis
      proof (cases "stale t (base s2)")
        case True
        then show ?thesis
          using run 1 2 \<open>r1 = Inr u\<close> Inr last2 cur
          by (auto simp: ingest_body_def bindM_def stale_def ingested_def sync_time_def Let_def
              split: option.splits)
      next
        case False
        then have "bindM (ir_upsert_items repository (snap_items snapshot)) (\<lambda>_.
            bindM (ir_upsert_metadata repository (snap_dataset_version snapshot)
                (snap_game_version snapshot) t) (\<lambda>_. ret None)) s2 = (r, s')"
          using run 1 2 \<open>r1 = Inr u\<close> Inr cur
          by (simp add: ingest_body_def bindM_def stale_def Let_def split: option.splits)
        moreover have "c < t" if "last_sync_of (view s2) = Some c" for c
          using that cur False by (simp add: stale_def)
        ultimately have
          "steady s' \<and> base s' = base s2 \<and> (\<forall>x. r = Inr x \<longrightarrow> x = None \<and> view s' = publish snapshot t (base s2))"
          using publish_outcome [OF _ snapshot, of s2 t r s'] last2 cur(2) by auto
        then show ?thesis
          using False by (auto simp: ingested_def sync_time_def stale_def split: option.split)
      qed
    qed
  qed
qed

end

section \<open>The SQL repository provides it\<close>

text \<open>While the lock is held nobody else writes the tables: the discipline of every writer,
  since all of them take the lock first.\<close>

definition undisturbed :: "db_event list \<Rightarrow> bool" where
  "undisturbed es \<longleftrightarrow>
     list_all (\<lambda>e. \<forall>db. items_table (de_others e db) = items_table db \<and>
                       metadata_table (de_others e db) = metadata_table db) es"

abbreviation committed :: "world \<times> transaction \<Rightarrow> catalogue" where
  "committed s \<equiv> catalogue_of (database (fst s))"

abbreviation viewed :: "world \<times> transaction \<Rightarrow> catalogue" where
  "viewed s \<equiv> catalogue_of (tx_view (snd s))"

definition before_lock :: "world \<times> transaction \<Rightarrow> bool" where
  "before_lock s \<longleftrightarrow> undisturbed (tl (db_events (fst s))) \<and> tx_view (snd s) = database (fst s)"

definition under_lock :: "world \<times> transaction \<Rightarrow> bool" where
  "under_lock s \<longleftrightarrow> undisturbed (db_events (fst s))"

text \<open>The catalogue that other writers have left when the lock is granted.\<close>

definition when_locked :: "world \<Rightarrow> catalogue" where
  "when_locked w =
     catalogue_of (case db_events w of [] \<Rightarrow> database w | e # _ \<Rightarrow> de_others e (database w))"

lemma undisturbed_Cons [simp]:
  "undisturbed (e # es) \<longleftrightarrow> (\<forall>db. items_table (de_others e db) = items_table db \<and>
     metadata_table (de_others e db) = metadata_table db) \<and> undisturbed es"
  by (simp add: undisturbed_def)

lemma tx_call_under_lock:
  assumes "under_lock s" "tx_call stmt s = (r, s')"
  shows "under_lock s' \<and> committed s' = committed s \<and>
    (\<exists>v. items_table v = items_table (tx_view (snd s)) \<and>
         metadata_table v = metadata_table (tx_view (snd s)) \<and>
         ((\<exists>x. r = Inl x \<and> tx_view (snd s') = v) \<or> stmt (tx_now (snd s)) v = (r, tx_view (snd s'))))"
proof -
  obtain w t where s: "s = (w, t)" by (rule prod.exhaust)
  show ?thesis
  proof (cases "db_events w")
    case Nil
    then show ?thesis
      using assms s by (auto simp: tx_call_def under_lock_def undisturbed_def split: prod.splits)
  next
    case (Cons e es)
    have "under_lock s'" "committed s' = committed s"
      using assms s Cons
      by (auto simp: tx_call_def under_lock_def Let_def split: prod.splits option.splits
          intro!: catalogue_of_tables)
    moreover have "(\<exists>x. r = Inl x \<and> tx_view (snd s') = de_others e (tx_view t)) \<or>
        stmt (tx_now t) (de_others e (tx_view t)) = (r, tx_view (snd s'))"
      using assms(2) s Cons by (auto simp: tx_call_def Let_def split: prod.splits option.splits)
    ultimately show ?thesis
      using assms(1) s Cons
      by (intro conjI exI [of _ "de_others e (tx_view t)"]) (auto simp: under_lock_def)
  qed
qed

lemma ingestion_execute_run:
  assumes "ingestion_execute stmt s = (r, s')"
  obtains r0 where "tx_call stmt s = (r0, s')" "\<And>a. r = Inr a \<longleftrightarrow> r0 = Inr a"
  using assms by (cases "tx_call stmt s")
    (auto simp: ingestion_execute_def catchM_def split: sum.splits if_splits)

lemma ingestion_execute_under_lock:
  assumes "under_lock s" "ingestion_execute stmt s = (r, s')"
  shows "under_lock s'" "committed s' = committed s"
    "r = Inr a \<Longrightarrow> \<exists>v. catalogue_of v = viewed s \<and> metadata_table v = metadata_table (tx_view (snd s)) \<and>
        stmt (tx_now (snd s)) v = (Inr a, tx_view (snd s'))"
proof -
  obtain r0 where r0: "tx_call stmt s = (r0, s')" "\<And>a. r = Inr a \<longleftrightarrow> r0 = Inr a"
    using ingestion_execute_run [OF assms(2)] by blast
  note call = tx_call_under_lock [OF assms(1) r0(1)]
  show "under_lock s'" "committed s' = committed s" using call by simp_all
  assume "r = Inr a"
  then show "\<exists>v. catalogue_of v = viewed s \<and> metadata_table v = metadata_table (tx_view (snd s)) \<and>
      stmt (tx_now (snd s)) v = (Inr a, tx_view (snd s'))"
    using call r0(2) by (auto intro: catalogue_of_tables)
qed

text \<open>A statement that reads keeps the view's catalogue whatever its outcome.\<close>

lemma ingestion_execute_reads:
  assumes "under_lock s" "ingestion_execute stmt s = (r, s')" "\<And>now db. snd (stmt now db) = db"
  shows "viewed s' = viewed s"
proof -
  obtain r0 where "tx_call stmt s = (r0, s')" using ingestion_execute_run [OF assms(2)] by blast
  from tx_call_under_lock [OF assms(1) this] obtain v where
    v: "items_table v = items_table (tx_view (snd s))" "metadata_table v = metadata_table (tx_view (snd s))"
    "(\<exists>x. r0 = Inl x \<and> tx_view (snd s') = v) \<or> stmt (tx_now (snd s)) v = (r0, tx_view (snd s'))"
    by blast
  then have "tx_view (snd s') = v" using assms(3) by (metis snd_conv)
  then show ?thesis using v by (auto intro: catalogue_of_tables)
qed

lemma acquire_lock_law:
  assumes "before_lock s" "acquire_lock s = (r, s')"
  shows "under_lock s' \<and> viewed s' = committed s' \<and> committed s' = when_locked (fst s)"
proof -
  obtain r0 where "tx_call (lock_stmt INGESTION_LOCK_KEY) s = (r0, s')"
    using ingestion_execute_run [OF assms(2) [unfolded acquire_lock_def]] by blast
  then show ?thesis
    using assms(1)
    by (cases "db_events (fst s)")
       (auto simp: tx_call_def before_lock_def under_lock_def lock_stmt_def when_locked_def Let_def
         split: prod.splits option.splits)
qed

lemma get_last_sync_law:
  assumes "under_lock s" "get_last_sync s = (r, s')"
  shows "under_lock s' \<and> committed s' = committed s \<and> viewed s' = viewed s \<and>
    (\<forall>x. r = Inr x \<longrightarrow> x = last_sync_of (viewed s))"
proof -
  obtain r1 where 1: "ingestion_execute last_sync_stmt s = (r1, s')"
    and r: "r = (case r1 of Inl e \<Rightarrow> Inl e | Inr rows \<Rightarrow> scalar_one_or_none rows)"
    using assms(2) by (auto simp: get_last_sync_def bindM_def split: prod.splits sum.splits)
  have "x = last_sync_of (viewed s)" if res: "r = Inr x" for x
  proof -
    obtain rows where rows: "r1 = Inr rows" "scalar_one_or_none rows = Inr x"
      using res r by (auto split: sum.splits)
    obtain v where v: "catalogue_of v = viewed s"
      "rows = map md_last_sync (filter (\<lambda>m. md_id m = 1) (metadata_table v))"
      using ingestion_execute_under_lock(3) [OF assms(1) 1 rows(1)] by (auto simp: last_sync_stmt_def)
    have "find P ms = (case filter P ms of [] \<Rightarrow> None | m # _ \<Rightarrow> Some m)" for P and ms :: "metadata_row list"
      by (induction ms) auto
    then have "x = last_sync_of (catalogue_of v)"
      using rows(2) v(2) by (auto simp: scalar_one_or_none_def last_sync_of_def catalogue_of_def
          metadata_of_def split: list.splits)
    then show ?thesis using v(1) by simp
  qed
  then show ?thesis
    using ingestion_execute_under_lock [OF assms(1) 1] ingestion_execute_reads [OF assms(1) 1]
    by (simp add: last_sync_stmt_def)
qed

lemma batches_law:
  assumes "under_lock s" "distinct (map imp_game_id (concat bs))"
    "for_each bs (\<lambda>b. ingestion_execute (upsert_items_stmt pg b)) s = (r, s')"
  shows "under_lock s' \<and> committed s' = committed s \<and>
    (r = Inr () \<longrightarrow> viewed s' =
       (viewed s)\<lparr>cat_items := cat_items (viewed s) ++ import_map (concat bs)\<rparr>)"
  using assms
proof (induction bs arbitrary: s)
  case Nil
  then show ?case by (simp add: import_map_def)
next
  case (Cons b bs)
  obtain r1 s1 where 1: "ingestion_execute (upsert_items_stmt pg b) s = (r1, s1)" by (rule prod.exhaust)
  note exec = ingestion_execute_under_lock [OF Cons.prems(1) 1]
  show ?case
  proof (cases r1)
    case (Inl e)
    then show ?thesis using Cons.prems(3) 1 exec by (auto simp: bindM_def)
  next
    case (Inr u)
    then have rest: "for_each bs (\<lambda>b. ingestion_execute (upsert_items_stmt pg b)) s1 = (r, s')"
      using Cons.prems(3) 1 by (simp add: bindM_def)
    have view1: "viewed s1 = (viewed s)\<lparr>cat_items := cat_items (viewed s) ++ import_map b\<rparr>"
    proof -
      have "r1 = Inr ()" using Inr by simp
      from exec(3) [OF this] obtain v where v: "catalogue_of v = viewed s"
        "upsert_items_stmt pg b (tx_now (snd s)) v = (Inr (), tx_view (snd s1))" by blast
      then show ?thesis by (simp add: upsert_items_stmt_effect [OF v(2)])
    qed
    have "m ++ import_map b ++ import_map (concat bs) = m ++ import_map (b @ concat bs)" for m
    proof -
      have "dom (import_map b) \<inter> dom (import_map (concat bs)) = {}"
        using Cons.prems(2) by (auto simp: import_map_def dom_map_of_conv_image_fst image_image)
      then have "import_map b ++ import_map (concat bs) = import_map (concat bs) ++ import_map b"
        by (rule map_add_comm)
      then show ?thesis by (simp add: import_map_def map_of_append flip: map_add_assoc)
    qed
    then show ?thesis
      using Cons.IH [OF exec(1) _ rest] Cons.prems(2) exec(2) view1 by simp
  qed
qed

lemma upsert_items_law:
  assumes "under_lock s" "distinct (map imp_game_id is)" "upsert_items pg is s = (r, s')"
  shows "under_lock s' \<and> committed s' = committed s \<and>
    (r = Inr () \<longrightarrow> viewed s' = (viewed s)\<lparr>cat_items := cat_items (viewed s) ++ import_map is\<rparr>)"
proof (cases "is = []")
  case True
  then show ?thesis using assms by (simp add: upsert_items_def import_map_def)
next
  case False
  then show ?thesis
    using batches_law [OF assms(1), of "item_batches is" pg r s'] assms(2,3)
    by (simp add: upsert_items_def concat_item_batches)
qed

lemma upsert_metadata_law:
  assumes "under_lock s" "\<And>cur. last_sync_of (viewed s) = Some cur \<Longrightarrow> cur < ls"
    "upsert_metadata dv gv ls s = (r, s')"
  shows "under_lock s' \<and> committed s' = committed s \<and>
    (r = Inr () \<longrightarrow> viewed s' = (viewed s)\<lparr>cat_metadata :=
       Some \<lparr>dm_dataset_version = dv, dm_game_version = gv, dm_last_sync = ls\<rparr>\<rparr>)"
proof -
  note exec = ingestion_execute_under_lock [OF assms(1) assms(3) [unfolded upsert_metadata_def]]
  have "viewed s' = (viewed s)\<lparr>cat_metadata :=
      Some \<lparr>dm_dataset_version = dv, dm_game_version = gv, dm_last_sync = ls\<rparr>\<rparr>" if "r = Inr ()"
  proof -
    from exec(3) [OF that] obtain v where v: "catalogue_of v = viewed s"
      "upsert_metadata_stmt dv gv ls (tx_now (snd s)) v = (Inr (), tx_view (snd s'))" by blast
    then show ?thesis using upsert_metadata_stmt_effect [OF v(2)] assms(2) by simp
  qed
  then show ?thesis using exec by simp
qed

interpretation sql_store: ingestion_store "sqlalchemy_ingestion_repository pg"
  "\<lambda>s. before_lock s \<and> when_locked (fst s) = c" "\<lambda>s. under_lock s \<and> committed s = c" committed viewed
  for pg c
  by unfold_locales
     (auto simp: sqlalchemy_ingestion_repository_def dest: acquire_lock_law get_last_sync_law
       upsert_items_law upsert_metadata_law)

section \<open>The transaction as a whole\<close>

lemma tx_commit_undisturbed:
  assumes "undisturbed (db_events w)" "tx_commit t w = (r, w')"
  shows "(r = Inr () \<longrightarrow> catalogue_of (database w') = catalogue_of (tx_view t)) \<and>
    catalogue_of (database w') \<in> {catalogue_of (database w), catalogue_of (tx_view t)}"
proof -
  have same: "catalogue_of (de_others e db) = catalogue_of db" if "e \<in> set (db_events w)" for e db
    using assms(1) that by (intro catalogue_of_tables) (simp_all add: undisturbed_def list_all_iff)
  show ?thesis
    using assms(2) same
    by (cases "db_events w")
       (auto simp: tx_commit_def tx_rollback_def Let_def split: option.splits if_splits)
qed

lemma ingest_outcome:
  assumes "undisturbed (tl (db_events w))" "distinct (map imp_game_id (snap_items snapshot))"
    "ingest (ingestion_service_of pg clock) snapshot w = (r, w')"
  shows "(\<forall>t. r = Inr t \<longrightarrow> t = sync_time (clock w) (when_locked w) \<and>
      catalogue_of (database w') = ingested snapshot (clock w) (when_locked w)) \<and>
    catalogue_of (database w') \<in> {when_locked w, ingested snapshot (clock w) (when_locked w)}"
proof -
  let ?c = "when_locked w"
  let ?s = "(w, \<lparr>tx_now = pg_now pg w, tx_view = database w\<rparr>)"
  obtain rb w1 t1 where body: "ingest_body (sqlalchemy_ingestion_repository pg) snapshot (clock w) ?s =
      (rb, (w1, t1))" by (metis prod.exhaust)
  have out: "under_lock (w1, t1) \<and> committed (w1, t1) = ?c \<and>
    (\<forall>x. rb = Inr x \<longrightarrow> viewed (w1, t1) = ingested snapshot (clock w) (committed (w1, t1)) \<and>
       (case x of Some y \<Rightarrow> y | None \<Rightarrow> clock w) = sync_time (clock w) (committed (w1, t1)))"
    using sql_store.body_outcome [OF _ assms(2) body, of ?c] assms(1) by (simp add: before_lock_def)
  show ?thesis
  proof (cases rb)
    case (Inl e)
    then have "r = Inl e" "w' = tx_rollback t1 w1"
      using assms(3) body by (auto simp: ingest_def ingestion_service_of_def in_transaction_def bindM_def)
    then show ?thesis using out by (simp add: tx_rollback_def)
  next
    case (Inr x)
    obtain rc w2 where commit: "tx_commit t1 w1 = (rc, w2)" by (rule prod.exhaust)
    have "w' = w2" "r = (case rc of Inl e \<Rightarrow> Inl e | Inr _ \<Rightarrow> Inr (case x of Some y \<Rightarrow> y | None \<Rightarrow> clock w))"
      using assms(3) body Inr commit
      by (auto simp: ingest_def ingestion_service_of_def in_transaction_def bindM_def
          split: sum.splits option.splits)
    then show ?thesis
      using tx_commit_undisturbed [OF _ commit] out Inr by (auto simp: under_lock_def split: sum.splits)
  qed
qed

section \<open>What every statement of the transaction keeps\<close>

text \<open>A predicate \<open>P\<close> on the committed database and one, \<open>Q\<close>, on the view, both respected
  by the other clients.\<close>

definition tx_rely :: "(database \<Rightarrow> bool) \<Rightarrow> (database \<Rightarrow> bool) \<Rightarrow> world \<times> transaction \<Rightarrow> bool" where
  "tx_rely P Q s \<longleftrightarrow>
     P (database (fst s)) \<and> Q (tx_view (snd s)) \<and>
     list_all (\<lambda>e. \<forall>db. (P db \<longrightarrow> P (de_others e db)) \<and> (Q db \<longrightarrow> Q (de_others e db)))
       (db_events (fst s))"

lemma keeps_for_each [keeps_intros]:
  "(\<And>x. x \<in> set xs \<Longrightarrow> keeps P (f x)) \<Longrightarrow> keeps P (for_each xs f)"
  by (induction xs) (auto intro!: keeps_intros)

lemma tx_call_rely:
  assumes "\<And>now db. Q db \<Longrightarrow> Q (snd (stmt now db))"
  shows "keeps (tx_rely P Q) (tx_call stmt)"
  unfolding keeps_def
proof (intro allI impI)
  fix s assume rely: "tx_rely P Q s"
  obtain w t where s: "s = (w, t)" by (rule prod.exhaust)
  have step: "Q db'" if "stmt now db = (r, db')" "Q db" for now db r db'
    using assms [of db now] that by simp
  show "tx_rely P Q (final (tx_call stmt) s)"
    using rely s
    by (cases "db_events w")
       (auto simp: tx_rely_def tx_call_def Let_def split: prod.split option.split dest: step)
qed

lemma ingestion_execute_rely [keeps_intros]:
  "(\<And>now db. Q db \<Longrightarrow> Q (snd (stmt now db))) \<Longrightarrow> keeps (tx_rely P Q) (ingestion_execute stmt)"
  by (auto simp: ingestion_execute_def intro!: keeps_intros tx_call_rely split: if_splits)

lemma ingest_body_rely:
  assumes items: "\<And>is now db. Q db \<Longrightarrow> Q (snd (upsert_items_stmt pg is now db))"
    and metadata: "\<And>dv gv ls now db. Q db \<Longrightarrow> Q (snd (upsert_metadata_stmt dv gv ls now db))"
  shows "keeps (tx_rely P Q) (ingest_body (sqlalchemy_ingestion_repository pg) snapshot t)"
  unfolding ingest_body_def sqlalchemy_ingestion_repository_def acquire_lock_def get_last_sync_def
    upsert_items_def upsert_metadata_def ingestion_repository.simps Let_def
  by (intro keeps_intros) (auto simp: lock_stmt_def last_sync_stmt_def items metadata)

lemma ingest_rely:
  assumes "tx_rely P Q (w, \<lparr>tx_now = pg_now pg w, tx_view = database w\<rparr>)"
    and items: "\<And>is now db. Q db \<Longrightarrow> Q (snd (upsert_items_stmt pg is now db))"
    and metadata: "\<And>dv gv ls now db. Q db \<Longrightarrow> Q (snd (upsert_metadata_stmt dv gv ls now db))"
    and seq: "\<And>db n. P db \<Longrightarrow> items_id_seq db \<le> n \<Longrightarrow> P (db\<lparr>items_id_seq := n\<rparr>)"
  shows "P (database (final (ingest (ingestion_service_of pg clock) snapshot) w)) \<or>
         Q (database (final (ingest (ingestion_service_of pg clock) snapshot) w))"
proof -
  let ?s = "(w, \<lparr>tx_now = pg_now pg w, tx_view = database w\<rparr>)"
  obtain rb w1 t1 where body: "ingest_body (sqlalchemy_ingestion_repository pg) snapshot (clock w) ?s =
      (rb, (w1, t1))" by (metis prod.exhaust)
  have rely: "tx_rely P Q (w1, t1)"
    using keeps_eq [OF ingest_body_rely body assms(1)] items metadata by blast
  have undone: "P (database (tx_rollback t v))" if "P (database v)" for t v
    using seq [OF that] by (simp add: tx_rollback_def)
  have commit: "P (database w2) \<or> Q (database w2)" if "tx_commit t1 w1 = (rc, w2)" for rc w2
    using rely that undone
    by (cases "db_events w1")
       (auto simp: tx_commit_def tx_rely_def Let_def split: option.splits if_splits)
  show ?thesis
  proof (cases rb)
    case (Inl e)
    then show ?thesis
      using body rely undone
      by (simp add: ingest_def ingestion_service_of_def in_transaction_def bindM_def tx_rely_def)
  next
    case (Inr x)
    obtain rc w2 where "tx_commit t1 w1 = (rc, w2)" by (rule prod.exhaust)
    then show ?thesis
      using body Inr commit
      by (cases rc) (auto simp: ingest_def ingestion_service_of_def in_transaction_def bindM_def
          split: option.split)
  qed
qed

lemma db_ok_seq: "db_ok db \<Longrightarrow> items_id_seq db \<le> n \<Longrightarrow> db_ok (db\<lparr>items_id_seq := n\<rparr>)"
  by (auto simp: db_ok_def list_all_iff)

lemma ingest_db_ok:
  assumes "db_rely db_ok w"
  shows "db_ok (database (final (ingest (ingestion_service_of pg clock) snapshot) w))"
  using ingest_rely [of db_ok db_ok w pg clock snapshot] assms
  by (auto simp: tx_rely_def db_rely_def list_all_iff upsert_items_stmt_ok upsert_metadata_stmt_ok db_ok_seq)

text \<open>Rows are never deleted and keep their identity.\<close>

definition rows_extend :: "(int \<times> int \<times> datetime) list \<Rightarrow> database \<Rightarrow> bool" where
  "rows_extend ids db \<longleftrightarrow> (\<exists>new. map row_identity (items_table db) = ids @ new)"

lemma upsert_items_stmt_extends:
  assumes "rows_extend ids db"
  shows "rows_extend ids (snd (upsert_items_stmt pg is now db))"
proof (cases "upsert_items_stmt pg is now db")
  case (Pair r db')
  show ?thesis
  proof (cases r)
    case (Inr u)
    then have "upsert_rows pg now {} is db = (Inr (), db')"
      using Pair by (auto simp: upsert_items_stmt_def split: if_splits prod.splits sum.splits)
    then obtain new where "map row_identity (items_table db') = map row_identity (items_table db) @ new"
      using upsert_rows_effect by blast
    then show ?thesis using assms Pair by (auto simp: rows_extend_def)
  next
    case (Inl e)
    then have "items_table db' = items_table db"
      using Pair by (auto simp: upsert_items_stmt_def split: if_splits prod.splits sum.splits)
    then show ?thesis using assms Pair by (simp add: rows_extend_def)
  qed
qed

lemma upsert_metadata_stmt_extends:
  "rows_extend ids db \<Longrightarrow> rows_extend ids (snd (upsert_metadata_stmt dv gv ls now db))"
  by (simp add: rows_extend_def upsert_metadata_stmt_def Let_def)

lemma ingest_extends:
  assumes "undisturbed (db_events w)"
  shows "rows_extend (map row_identity (items_table (database w)))
    (database (final (ingest (ingestion_service_of pg clock) snapshot) w))"
proof -
  let ?Q = "rows_extend (map row_identity (items_table (database w)))"
  have "tx_rely ?Q ?Q (w, \<lparr>tx_now = pg_now pg w, tx_view = database w\<rparr>)"
    using assms by (auto simp: tx_rely_def rows_extend_def undisturbed_def list_all_iff)
  then show ?thesis
    using ingest_rely [of ?Q ?Q w pg clock snapshot] upsert_items_stmt_extends upsert_metadata_stmt_extends
    by (auto simp: rows_extend_def)
qed

section \<open>How it can fail\<close>

lemma tx_call_safe:
  assumes "\<And>now db e. fst (stmt now db) = Inl e \<Longrightarrow> P e"
  shows "safe (\<lambda>s. db_faults P (fst s)) P (tx_call stmt)"
  unfolding safe_def
proof (intro allI impI)
  fix s :: "world \<times> transaction"
  assume faults: "db_faults P (fst s)"
  obtain w t where s: "s = (w, t)" by (rule prod.exhaust)
  have step: "P e" if "stmt now db = (Inl e, db')" for now db e db'
    using assms [of now db e] that by simp
  show "db_faults P (fst (final (tx_call stmt) s)) \<and> (\<forall>e. result (tx_call stmt) s = Inl e \<longrightarrow> P e)"
    using faults s
    by (cases "db_events w")
       (auto simp: db_faults_def tx_call_def Let_def split: prod.split option.split dest: step)
qed

definition unavailable :: "exn \<Rightarrow> bool" where
  "unavailable e \<longleftrightarrow> e = SERVICE_UNAVAILABLE \<or> ingestion_failure e"

lemma ingestion_execute_safe [safe_intros]:
  assumes "\<And>now db e. fst (stmt now db) = Inl e \<Longrightarrow> ingestion_failure e"
  shows "safe (\<lambda>s. db_faults ingestion_failure (fst s)) unavailable (ingestion_execute stmt)"
  unfolding ingestion_execute_def
  by (rule safe_catchM [OF tx_call_safe [OF assms]])
     (auto simp: unavailable_def intro!: safe_intros split: if_splits)

lemma upsert_rows_failure:
  "fst (upsert_rows pg now touched is db) = Inl e \<Longrightarrow> e = SQLAlchemyError"
  by (induction "is" arbitrary: touched db) (auto simp: Let_def split: if_splits)

lemma upsert_items_stmt_failure:
  assumes "fst (upsert_items_stmt pg is now db) = Inl e"
  shows "ingestion_failure e"
proof -
  have "fst (upsert_rows pg now {} is db) = Inl e \<or> e = InterfaceError \<or> e = SQLAlchemyError"
    using assms by (auto simp: upsert_items_stmt_def split: if_splits prod.splits sum.splits)
  then show ?thesis using upsert_rows_failure by (auto simp: ingestion_failure_def)
qed

lemma safe_for_each [safe_intros]:
  "(\<And>x. safe I P (f x)) \<Longrightarrow> safe I P (for_each xs f)"
  by (induction xs) (auto intro!: safe_intros)

lemma ingest_body_safe:
  "safe (\<lambda>s. db_faults ingestion_failure (fst s)) unavailable
     (ingest_body (sqlalchemy_ingestion_repository pg) snapshot t)"
  unfolding ingest_body_def sqlalchemy_ingestion_repository_def acquire_lock_def get_last_sync_def
    upsert_items_def upsert_metadata_def ingestion_repository.simps Let_def
  by (intro safe_intros safe_liftM)
     (auto simp: lock_stmt_def last_sync_stmt_def upsert_metadata_stmt_def Let_def ingestion_failure_def
        unavailable_def scalar_one_or_none_def dest: upsert_items_stmt_failure [unfolded ingestion_failure_def]
        split: if_splits list.splits)

lemma ingest_failures:
  assumes "db_faults ingestion_failure w"
    "ingest (ingestion_service_of pg clock) snapshot w = (Inl e, w')"
  shows "unavailable e"
proof -
  let ?s = "(w, \<lparr>tx_now = pg_now pg w, tx_view = database w\<rparr>)"
  obtain rb w1 t1 where body: "ingest_body (sqlalchemy_ingestion_repository pg) snapshot (clock w) ?s =
      (rb, (w1, t1))" by (metis prod.exhaust)
  have faults: "db_faults ingestion_failure w1"
    using safe_state [OF ingest_body_safe _ body] assms(1) by simp
  show ?thesis
  proof (cases rb)
    case (Inl x)
    then have "unavailable x" using safeD [OF ingest_body_safe, of ?s] assms(1) body by simp
    then show ?thesis
      using Inl assms(2) body
      by (simp add: ingest_def ingestion_service_of_def in_transaction_def bindM_def)
  next
    case (Inr x)
    obtain rc w2 where commit: "tx_commit t1 w1 = (rc, w2)" by (rule prod.exhaust)
    then have "rc = Inl e"
      using body Inr assms(2)
      by (cases rc) (auto simp: ingest_def ingestion_service_of_def in_transaction_def bindM_def
          split: option.splits)
    then have "ingestion_failure e"
      using commit faults
      by (cases "db_events w1") (auto simp: tx_commit_def db_faults_def Let_def split: option.splits)
    then show ?thesis by (simp add: unavailable_def)
  qed
qed

section \<open>A valid snapshot is published\<close>

text \<open>Lower-casing yields storable text, and the names and types fit the indexes.\<close>

definition storable_snapshot :: "validation_lib \<Rightarrow> pg_server \<Rightarrow> item_snapshot \<Rightarrow> bool" where
  "storable_snapshot lib pg snapshot \<longleftrightarrow>
     snapshot_ok (vl_unicode lib) snapshot \<and>
     list_all (\<lambda>i. nullable pg_text (imp_item_type i) \<and> pg_index_fits pg (imp_name i) \<and>
        nullable (pg_index_fits pg) (imp_item_type i)) (snap_items snapshot)"

lemma import_text_pg: "import_text s \<Longrightarrow> pg_text s"
  by (simp add: import_text_def)

lemma import_text_btrim: "import_text s \<Longrightarrow> btrim s \<noteq> []"
  unfolding import_text_def btrim_eq_Nil_iff
  by (metis (mono_tags, lifting) list_all_iff strip_by_eq_Nil_iff white_space_def)

lemma storable_items:
  assumes "storable_snapshot lib pg snapshot"
  shows "list_all item_binds (snap_items snapshot)" "list_all (row_storable pg) (snap_items snapshot)"
  using assms
  by (auto simp: storable_snapshot_def snapshot_ok_def list_all_iff item_binds_def row_storable_def
      import_ok_def int4_def MAX_GAME_ID_def import_text_pg elim!: nullable_mono)

lemma storable_metadata:
  assumes "storable_snapshot lib pg snapshot"
  shows "metadata_row_ok \<lparr>md_id = 1, md_dataset_version = snap_dataset_version snapshot,
     md_game_version = snap_game_version snapshot, md_last_sync = t\<rparr>"
  using assms
  by (auto simp: storable_snapshot_def snapshot_ok_def metadata_row_ok_def import_text_pg
      import_text_btrim elim!: nullable_mono)

lemma ingestion_execute_calm:
  "db_events w = [] \<Longrightarrow> stmt (tx_now t) (tx_view t) = (Inr a, db) \<Longrightarrow>
   ingestion_execute stmt (w, t) = (Inr a, (w, t\<lparr>tx_view := db\<rparr>))"
  by (simp add: ingestion_execute_def catchM_def tx_call_def)

lemma batches_succeed:
  assumes "db_events w = []" "\<forall>r\<in>set (items_table (tx_view t)). it_id r < items_id_seq (tx_view t)"
    "items_id_seq (tx_view t) + int (length (concat bs)) \<le> 2147483648"
    "list_all item_binds (concat bs)" "list_all (row_storable pg) (concat bs)"
    "distinct (map imp_game_id (concat bs))" "\<forall>b\<in>set bs. length b \<le> ITEM_BATCH_SIZE"
  shows "\<exists>t'. for_each bs (\<lambda>b. ingestion_execute (upsert_items_stmt pg b)) (w, t) = (Inr (), (w, t'))"
  using assms
proof (induction bs arbitrary: t)
  case (Cons b bs)
  obtain db where db: "upsert_rows pg (tx_now t) {} b (tx_view t) = (Inr (), db)"
    "\<forall>r\<in>set (items_table db). it_id r < items_id_seq db"
    using upsert_rows_succeeds [of pg b "{}" "tx_view t" "tx_now t"] Cons.prems by auto
  then have seq: "items_id_seq db = items_id_seq (tx_view t) + int (length b)"
    using upsert_rows_effect by blast
  have run: "ingestion_execute (upsert_items_stmt pg b) (w, t) = (Inr (), (w, t\<lparr>tx_view := db\<rparr>))"
    using db Cons.prems
    by (intro ingestion_execute_calm) (simp_all add: upsert_items_stmt_def ITEM_BATCH_SIZE_def)
  have "\<exists>t'. for_each bs (\<lambda>b. ingestion_execute (upsert_items_stmt pg b)) (w, t\<lparr>tx_view := db\<rparr>) =
      (Inr (), (w, t'))"
    using Cons.prems db(2) seq by (intro Cons.IH) auto
  then show ?case using run by (simp add: bindM_def)
qed simp

lemma ingest_succeeds:
  assumes "db_events w = []" "db_ok (database w)" "storable_snapshot lib pg snapshot"
    "items_id_seq (database w) + int (length (snap_items snapshot)) \<le> 2147483648"
  shows "\<exists>t. result (ingest (ingestion_service_of pg clock) snapshot) w = Inr t"
proof -
  let ?t = "\<lparr>tx_now = pg_now pg w, tx_view = database w\<rparr>"
  let ?is = "snap_items snapshot"
  have lock: "acquire_lock (w, ?t) = (Inr (), (w, ?t))"
    unfolding acquire_lock_def using assms(1) by (subst ingestion_execute_calm) (auto simp: lock_stmt_def)
  have "ingestion_execute last_sync_stmt (w, ?t) = (Inr (map md_last_sync
      (filter (\<lambda>m. md_id m = 1) (metadata_table (database w)))), (w, ?t))"
    using assms(1) by (subst ingestion_execute_calm) (auto simp: last_sync_stmt_def)
  then have last: "\<exists>cur. get_last_sync (w, ?t) = (Inr cur, (w, ?t))"
    using metadata_singleton [OF assms(2)]
    by (auto simp: get_last_sync_def bindM_def scalar_one_or_none_def)
  have binds: "list_all item_binds ?is" "list_all (row_storable pg) ?is" "distinct (map imp_game_id ?is)"
    using storable_items [OF assms(3)] assms(3) by (simp_all add: storable_snapshot_def snapshot_ok_def)
  have "\<exists>t'. upsert_items pg ?is (w, ?t) = (Inr (), (w, t'))"
  proof (cases "?is = []")
    case False
    have "\<exists>t'. for_each (item_batches ?is) (\<lambda>b. ingestion_execute (upsert_items_stmt pg b)) (w, ?t) =
        (Inr (), (w, t'))"
      using assms binds item_batches_sizes(2) [of _ ?is]
      by (intro batches_succeed) (simp_all add: concat_item_batches db_ok_def list_all_iff)
    then show ?thesis using False by (simp add: upsert_items_def)
  qed (simp add: upsert_items_def)
  then obtain t1 where items: "upsert_items pg ?is (w, ?t) = (Inr (), (w, t1))" by blast
  obtain db where "upsert_metadata_stmt (snap_dataset_version snapshot) (snap_game_version snapshot)
      (clock w) (tx_now t1) (tx_view t1) = (Inr (), db)"
    using storable_metadata [OF assms(3)]
    by (cases "1 \<in> md_id ` set (metadata_table (tx_view t1))") (simp_all add: upsert_metadata_stmt_def Let_def)
  then have metadata: "upsert_metadata (snap_dataset_version snapshot) (snap_game_version snapshot)
      (clock w) (w, t1) = (Inr (), (w, t1\<lparr>tx_view := db\<rparr>))"
    unfolding upsert_metadata_def by (rule ingestion_execute_calm [OF assms(1)])
  have publish: "bindM (upsert_items pg ?is) (\<lambda>_. bindM (upsert_metadata (snap_dataset_version snapshot)
      (snap_game_version snapshot) (clock w)) (\<lambda>_. ret (None :: datetime option))) (w, ?t) = (Inr None, (w, t1\<lparr>tx_view := db\<rparr>))"
    by (simp add: bindM_def items metadata)
  obtain cur where cur: "get_last_sync (w, ?t) = (Inr cur, (w, ?t))" using last by blast
  have "\<exists>x t'. ingest_body (sqlalchemy_ingestion_repository pg) snapshot (clock w) (w, ?t) = (Inr x, (w, t'))"
    unfolding ingest_body_def sqlalchemy_ingestion_repository_def ingestion_repository.simps Let_def
    using publish
    by (cases cur) (simp_all add: bindM_Inr [where m = acquire_lock, OF lock]
        bindM_Inr [where m = get_last_sync, OF cur])
  then obtain x t' where
    "ingest_body (sqlalchemy_ingestion_repository pg) snapshot (clock w) (w, ?t) = (Inr x, (w, t'))"
    by blast
  then show ?thesis
    using assms(1)
    by (cases x) (simp_all add: ingest_def ingestion_service_of_def in_transaction_def bindM_def tx_commit_def)
qed

end
