(* ===== verification/IngestionConcurrency.thy ===== *)
theory IngestionConcurrency
  imports IngestionService
begin

text \<open>
  Several ingestions at once. Each worker runs the statements of
  \<open>IngestionService.ingest\<close> one at a time, any interleaving is possible, and any
  statement may fail; \<open>pg_advisory_xact_lock\<close> lets one transaction past it. The
  reachable states justify what the proofs about a single run assume of the others
  (nobody writes the tables while the lock is held), the committed catalogue is
  the one of a serial execution in commit order, and every run ends.
\<close>

section \<open>The system\<close>

text \<open>Where a worker is in \<open>ingest\<close>; the transaction's view is carried along.\<close>

datatype phase =
  Idle
| Waiting datetime
| Locked datetime database
| Writing datetime "item_import list list" database
| Committing datetime database
| Done datetime
| Failed

record system =
  sy_database :: database
  sy_holder :: "nat option"
  sy_phase :: "nat \<Rightarrow> phase"
  sy_committed :: "(nat \<times> datetime) list" \<comment> \<open>history: the commits and their clocks\<close>

definition initial_system :: "database \<Rightarrow> system" where
  "initial_system db =
     \<lparr>sy_database = db, sy_holder = None, sy_phase = (\<lambda>_. Idle), sy_committed = []\<rparr>"

definition set_phase :: "nat \<Rightarrow> phase \<Rightarrow> system \<Rightarrow> system" where
  "set_phase i p s = s\<lparr>sy_phase := (sy_phase s)(i := p)\<rparr>"

definition release :: "system \<Rightarrow> system" where
  "release s = s\<lparr>sy_holder := None\<rparr>"

text \<open>A rollback keeps the values the sequence has given out.\<close>

definition rolled_back :: "database \<Rightarrow> system \<Rightarrow> system" where
  "rolled_back v s =
     s\<lparr>sy_database := (sy_database s)\<lparr>items_id_seq :=
         max (items_id_seq (sy_database s)) (items_id_seq v)\<rparr>\<rparr>"

text \<open>The next phase after the statement that reads the last synchronisation.\<close>

definition decided :: "item_snapshot \<Rightarrow> datetime \<Rightarrow> database \<Rightarrow> phase" where
  "decided snapshot t v =
     (case last_sync_of (catalogue_of v) of
        None \<Rightarrow> Writing t (item_batches (snap_items snapshot)) v
      | Some current \<Rightarrow>
          if t \<le> current then Committing current v else Writing t (item_batches (snap_items snapshot)) v)"

definition holding_view :: "phase \<Rightarrow> database option" where
  "holding_view p =
     (case p of Locked _ v \<Rightarrow> Some v | Writing _ _ v \<Rightarrow> Some v | Committing _ v \<Rightarrow> Some v | _ \<Rightarrow> None)"

definition clock_of :: "phase \<Rightarrow> datetime" where
  "clock_of p = (case p of Waiting t \<Rightarrow> t | Locked t _ \<Rightarrow> t | Writing t _ _ \<Rightarrow> t | Committing t _ \<Rightarrow> t
     | Done t \<Rightarrow> t | _ \<Rightarrow> 0)"

text \<open>\<open>faults\<close> says whether calls to the database can fail; a \<open>COMMIT\<close> can also take effect and
  lose its acknowledgement.\<close>

inductive ingest_step ::
  "bool \<Rightarrow> pg_server \<Rightarrow> (nat \<Rightarrow> item_snapshot) \<Rightarrow> nat \<Rightarrow> system \<Rightarrow> system \<Rightarrow> bool"
  for faults :: bool and pg :: pg_server and snaps :: "nat \<Rightarrow> item_snapshot" and n :: nat where
  start: "i < n \<Longrightarrow> sy_phase s i = Idle \<Longrightarrow> ingest_step faults pg snaps n s (set_phase i (Waiting t) s)"
| lock: "i < n \<Longrightarrow> sy_phase s i = Waiting t \<Longrightarrow> sy_holder s = None \<Longrightarrow>
    ingest_step faults pg snaps n s ((set_phase i (Locked t (sy_database s)) s)\<lparr>sy_holder := Some i\<rparr>)"
| decide: "i < n \<Longrightarrow> sy_phase s i = Locked t v \<Longrightarrow>
    ingest_step faults pg snaps n s (set_phase i (decided (snaps i) t v) s)"
| upsert: "i < n \<Longrightarrow> sy_phase s i = Writing t (b # bs) v \<Longrightarrow>
    upsert_items_stmt pg b now v = (Inr (), v') \<Longrightarrow>
    ingest_step faults pg snaps n s (set_phase i (Writing t bs v') s)"
| metadata: "i < n \<Longrightarrow> sy_phase s i = Writing t [] v \<Longrightarrow>
    upsert_metadata_stmt (snap_dataset_version (snaps i)) (snap_game_version (snaps i)) t now v = (Inr (), v') \<Longrightarrow>
    ingest_step faults pg snaps n s (set_phase i (Committing t v') s)"
| commit: "i < n \<Longrightarrow> sy_phase s i = Committing t v \<Longrightarrow>
    ingest_step faults pg snaps n s
      (release (set_phase i (Done t) (s\<lparr>sy_database := v, sy_committed := sy_committed s @ [(i, t)]\<rparr>)))"
| fail_waiting: "faults \<Longrightarrow> i < n \<Longrightarrow> sy_phase s i = Waiting t \<Longrightarrow> ingest_step faults pg snaps n s (set_phase i Failed s)"
| fail_holding: "faults \<Longrightarrow> i < n \<Longrightarrow> holding_view (sy_phase s i) = Some v \<Longrightarrow> items_id_seq v \<le> items_id_seq v' \<Longrightarrow>
    ingest_step faults pg snaps n s (release (rolled_back v' (set_phase i Failed s)))"
| lose_commit: "faults \<Longrightarrow> i < n \<Longrightarrow> sy_phase s i = Committing t v \<Longrightarrow>
    ingest_step faults pg snaps n s
      (release (set_phase i Failed (s\<lparr>sy_database := v, sy_committed := sy_committed s @ [(i, t)]\<rparr>)))"

inductive_cases ingest_stepE: "ingest_step faults pg snaps n s s'"

inductive reachable ::
  "bool \<Rightarrow> pg_server \<Rightarrow> (nat \<Rightarrow> item_snapshot) \<Rightarrow> nat \<Rightarrow> database \<Rightarrow> system \<Rightarrow> bool"
  for faults :: bool and pg :: pg_server and snaps :: "nat \<Rightarrow> item_snapshot" and n :: nat and db :: database where
  init: "reachable faults pg snaps n db (initial_system db)"
| step: "reachable faults pg snaps n db s \<Longrightarrow> ingest_step faults pg snaps n s s' \<Longrightarrow> reachable faults pg snaps n db s'"

lemma phase_simps [simp]:
  "sy_phase (set_phase i p s) = (sy_phase s)(i := p)" "sy_holder (set_phase i p s) = sy_holder s"
  "sy_database (set_phase i p s) = sy_database s" "sy_committed (set_phase i p s) = sy_committed s"
  "sy_phase (release s) = sy_phase s" "sy_holder (release s) = None"
  "sy_database (release s) = sy_database s" "sy_committed (release s) = sy_committed s"
  "sy_phase (rolled_back v s) = sy_phase s" "sy_holder (rolled_back v s) = sy_holder s"
  "sy_committed (rolled_back v s) = sy_committed s"
  "catalogue_of (sy_database (rolled_back v s)) = catalogue_of (sy_database s)"
  by (simp_all add: set_phase_def release_def rolled_back_def)

lemma holding_view_simps [simp]:
  "holding_view Idle = None" "holding_view (Waiting t) = None" "holding_view (Locked t v) = Some v"
  "holding_view (Writing t bs v) = Some v" "holding_view (Committing t v) = Some v"
  "holding_view (Done t) = None" "holding_view Failed = None"
  by (simp_all add: holding_view_def)

section \<open>Mutual exclusion and what a holder has done so far\<close>

definition exclusive :: "system \<Rightarrow> bool" where
  "exclusive s \<longleftrightarrow> (\<forall>i. holding_view (sy_phase s i) \<noteq> None \<longleftrightarrow> sy_holder s = Some i)"

text \<open>The progress of a worker against the committed catalogue \<open>c\<close>.\<close>

definition progress_ok :: "item_snapshot \<Rightarrow> catalogue \<Rightarrow> phase \<Rightarrow> bool" where
  "progress_ok snapshot c p \<longleftrightarrow>
     (case p of
        Locked t v \<Rightarrow> catalogue_of v = c
      | Writing t bs v \<Rightarrow>
          \<not> stale t c \<and> cat_metadata (catalogue_of v) = cat_metadata c \<and>
          cat_items (catalogue_of v) ++ import_map (concat bs) =
            cat_items c ++ import_map (snap_items snapshot) \<and>
          distinct (map imp_game_id (concat bs))
      | Committing r v \<Rightarrow> (\<exists>t. r = sync_time t c) \<and> catalogue_of v = ingested snapshot r c
      | _ \<Rightarrow> True)"

definition system_ok :: "(nat \<Rightarrow> item_snapshot) \<Rightarrow> system \<Rightarrow> bool" where
  "system_ok snaps s \<longleftrightarrow>
     exclusive s \<and> (\<forall>i. progress_ok (snaps i) (catalogue_of (sy_database s)) (sy_phase s i))"

lemma import_map_append:
  assumes "distinct (map imp_game_id (xs @ ys))"
  shows "import_map (xs @ ys) = import_map xs ++ import_map ys"
proof -
  have "dom (import_map xs) \<inter> dom (import_map ys) = {}"
    using assms by (auto simp: import_map_def dom_map_of_conv_image_fst image_image)
  then show ?thesis
    using map_add_comm [of "import_map xs" "import_map ys"] by (simp add: import_map_def map_of_append)
qed

lemma decided_progress:
  assumes "distinct (map imp_game_id (snap_items snapshot))"
  shows "progress_ok snapshot (catalogue_of v) (decided snapshot t v)"
  using assms
  by (auto simp: decided_def progress_ok_def stale_def ingested_def sync_time_def concat_item_batches
      split: option.split intro!: exI [of _ t])

lemma decided_holds: "holding_view (decided snapshot t v) = Some v"
  by (simp add: decided_def split: option.split)

lemma exclusive_holder: "exclusive s \<Longrightarrow> holding_view (sy_phase s i) \<noteq> None \<Longrightarrow> sy_holder s = Some i"
  by (simp add: exclusive_def)

lemma exclusive_idle:
  assumes "exclusive s" "holding_view (sy_phase s i) \<noteq> None" "j \<noteq> i"
  shows "holding_view (sy_phase s j) = None"
  using assms by (metis exclusive_def option.inject)

text \<open>Steps that keep, take or release the lock.\<close>

lemma exclusive_keep:
  "exclusive s \<Longrightarrow> (holding_view p = None) = (holding_view (sy_phase s i) = None) \<Longrightarrow>
   exclusive (set_phase i p s)"
  unfolding exclusive_def by (metis fun_upd_other fun_upd_same phase_simps(1,2))

lemma exclusive_take:
  assumes "exclusive s" "sy_holder s = None" "holding_view p \<noteq> None"
  shows "exclusive ((set_phase i p s)\<lparr>sy_holder := Some i\<rparr>)"
  using assms by (auto simp: exclusive_def)

lemma exclusive_release:
  assumes "exclusive s" "holding_view (sy_phase s i) \<noteq> None" "holding_view p = None"
    "sy_phase s' = (sy_phase s)(i := p)"
  shows "exclusive (release s')"
  using exclusive_idle [OF assms(1,2)] assms(3,4) by (simp add: exclusive_def)

lemma progress_not_holding: "holding_view p = None \<Longrightarrow> progress_ok snapshot c p"
  by (cases p) (simp_all add: progress_ok_def)

lemma progress_update:
  assumes "\<forall>j. progress_ok (snaps j) c (sy_phase s j)" "progress_ok (snaps i) c p"
  shows "progress_ok (snaps j) c (((sy_phase s)(i := p)) j)"
  using assms by simp

lemma step_ok:
  assumes snapshots: "\<And>i. distinct (map imp_game_id (snap_items (snaps i)))"
    and ok: "system_ok snaps s" and stp: "ingest_step faults pg snaps n s s'"
  shows "system_ok snaps s'"
proof -
  let ?c = "catalogue_of (sy_database s)"
  have ex: "exclusive s" and prog: "\<And>i. progress_ok (snaps i) ?c (sy_phase s i)"
    using ok by (simp_all add: system_ok_def)
  from stp show ?thesis
  proof (cases rule: ingest_step.cases)
    case (start i)
    then show ?thesis using ex prog
      by (simp add: system_ok_def exclusive_keep progress_ok_def)
  next
    case (lock i t)
    then show ?thesis using ex prog
      by (auto simp: system_ok_def exclusive_take progress_ok_def)
  next
    case (decide i t v)
    then have "catalogue_of v = ?c" using prog [of i] by (simp add: progress_ok_def)
    then have "progress_ok (snaps i) ?c (decided (snaps i) t v)"
      using decided_progress [OF snapshots] by metis
    then show ?thesis using decide ex prog
      by (simp add: system_ok_def exclusive_keep decided_holds)
  next
    case (upsert i t b bs v now v')
    have w: "\<not> stale t ?c" "cat_metadata (catalogue_of v) = cat_metadata ?c"
      "cat_items (catalogue_of v) ++ import_map (concat (b # bs)) =
         cat_items ?c ++ import_map (snap_items (snaps i))" "distinct (map imp_game_id (concat (b # bs)))"
      using prog [of i] upsert by (simp_all add: progress_ok_def)
    have "progress_ok (snaps i) ?c (Writing t bs v')"
      using w upsert_items_stmt_effect [OF upsert(4)] import_map_append [of b "concat bs"]
      by (simp add: progress_ok_def)
    then show ?thesis using upsert ex prog by (simp add: system_ok_def exclusive_keep)
  next
    case (metadata i t v now v')
    have w: "\<not> stale t ?c" "cat_metadata (catalogue_of v) = cat_metadata ?c"
      "cat_items (catalogue_of v) = cat_items ?c ++ import_map (snap_items (snaps i))"
      using prog [of i] metadata by (simp_all add: progress_ok_def import_map_def)
    have "last_sync_of (catalogue_of v) = last_sync_of ?c" by (simp add: last_sync_of_def w(2))
    then have newer: "cur < t" if "last_sync_of (catalogue_of v) = Some cur" for cur
      using that w(1) by (auto simp: stale_def split: option.splits)
    have "catalogue_of v' = ingested (snaps i) t ?c"
      using upsert_metadata_stmt_effect [OF metadata(4) newer] w by (simp add: ingested_def publish_def)
    moreover have "t = sync_time t ?c" using w(1) by (auto simp: sync_time_def stale_def split: option.split)
    ultimately have "progress_ok (snaps i) ?c (Committing t v')" by (auto simp: progress_ok_def)
    then show ?thesis using metadata ex prog by (simp add: system_ok_def exclusive_keep)
  next
    case (commit i t v)
    have "progress_ok (snaps j) (catalogue_of v) (((sy_phase s)(i := Done t)) j)" for j
      using exclusive_idle [OF ex, of i j] commit(3) by (auto intro!: progress_not_holding)
    then show ?thesis
      using commit ex by (auto simp: system_ok_def intro!: exclusive_release [of s i "Done t"])
  next
    case (fail_waiting i t)
    then show ?thesis using ex prog by (simp add: system_ok_def exclusive_keep progress_ok_def)
  next
    case (fail_holding i v v')
    then show ?thesis using ex prog
      by (auto simp: system_ok_def progress_ok_def intro!: exclusive_release [of s i Failed])
  next
    case (lose_commit i t v)
    have "progress_ok (snaps j) (catalogue_of v) (((sy_phase s)(i := Failed)) j)" for j
      using exclusive_idle [OF ex, of i j] lose_commit(4) by (auto intro!: progress_not_holding)
    then show ?thesis
      using lose_commit ex by (auto simp: system_ok_def intro!: exclusive_release [of s i Failed])
  qed
qed

section \<open>Serial executions\<close>

definition serial :: "(nat \<Rightarrow> item_snapshot) \<Rightarrow> (nat \<times> datetime) list \<Rightarrow> catalogue \<Rightarrow> catalogue" where
  "serial snaps commits c = fold (\<lambda>(i, t). ingested (snaps i) t) commits c"

lemma step_serial:
  assumes "system_ok snaps s" "catalogue_of (sy_database s) = serial snaps (sy_committed s) c"
    "ingest_step faults pg snaps n s s'"
  shows "catalogue_of (sy_database s') = serial snaps (sy_committed s') c"
  using assms(3)
proof (cases rule: ingest_step.cases)
  case (commit i t v)
  then have "catalogue_of v = ingested (snaps i) t (catalogue_of (sy_database s))"
    using assms(1) by (auto simp: system_ok_def progress_ok_def split: phase.splits)
  then show ?thesis using commit assms(2) by (simp add: serial_def)
next
  case (lose_commit i t v)
  then have "catalogue_of v = ingested (snaps i) t (catalogue_of (sy_database s))"
    using assms(1) by (auto simp: system_ok_def progress_ok_def split: phase.splits)
  then show ?thesis using lose_commit assms(2) by (simp add: serial_def)
qed (use assms(2) in simp_all)

interpretation serial_runs: step_invariant "ingest_step faults pg snaps n"
  "\<lambda>s. (\<forall>i. distinct (map imp_game_id (snap_items (snaps i)))) \<and> system_ok snaps s \<and>
     catalogue_of (sy_database s) = serial snaps (sy_committed s) c"
  for faults pg snaps n c
  by unfold_locales (blast intro: step_ok step_serial)

lemma reachable_run: "reachable faults pg snaps n db s \<Longrightarrow> (ingest_step faults pg snaps n)\<^sup>*\<^sup>* (initial_system db) s"
  by (induction rule: reachable.induct) (auto intro: rtranclp.rtrancl_into_rtrancl)

lemma reachable_serial:
  assumes "reachable faults pg snaps n db s" "\<And>i. distinct (map imp_game_id (snap_items (snaps i)))"
  shows "system_ok snaps s \<and> catalogue_of (sy_database s) = serial snaps (sy_committed s) (catalogue_of db)"
proof -
  have "system_ok snaps (initial_system db)"
    by (simp add: system_ok_def exclusive_def progress_ok_def initial_system_def)
  then show ?thesis
    using serial_runs.run [OF reachable_run [OF assms(1)], of "catalogue_of db"] assms(2)
    by (simp add: serial_def initial_system_def)
qed

text \<open>The last synchronisation never goes back.\<close>

lemma step_last_sync:
  assumes "system_ok snaps s" "ingest_step faults pg snaps n s s'"
    "last_sync_of (catalogue_of (sy_database s)) = Some t"
  shows "\<exists>t'. last_sync_of (catalogue_of (sy_database s')) = Some t' \<and> t \<le> t'"
  using assms(2)
proof (cases rule: ingest_step.cases)
  case (commit i r v)
  then have "catalogue_of v = ingested (snaps i) r (catalogue_of (sy_database s))"
    using assms(1) by (auto simp: system_ok_def progress_ok_def split: phase.splits)
  then show ?thesis using commit assms(3) by (simp add: last_sync_ingested) (simp add: sync_time_def)
next
  case (lose_commit i r v)
  then have "catalogue_of v = ingested (snaps i) r (catalogue_of (sy_database s))"
    using assms(1) by (auto simp: system_ok_def progress_ok_def split: phase.splits)
  then show ?thesis using lose_commit assms(3) by (simp add: last_sync_ingested) (simp add: sync_time_def)
qed (use assms(3) in simp_all)

section \<open>Every run ends, and without faults every worker is done\<close>

definition phase_rank :: "item_snapshot \<Rightarrow> phase \<Rightarrow> nat" where
  "phase_rank snapshot p =
     (let batches = length (item_batches (snap_items snapshot)) in
      case p of Idle \<Rightarrow> batches + 5 | Waiting _ \<Rightarrow> batches + 4 | Locked _ _ \<Rightarrow> batches + 3
      | Writing _ bs _ \<Rightarrow> length bs + 2 | Committing _ _ \<Rightarrow> 1 | Done _ \<Rightarrow> 0 | Failed \<Rightarrow> 0)"

definition system_rank :: "(nat \<Rightarrow> item_snapshot) \<Rightarrow> nat \<Rightarrow> system \<Rightarrow> nat" where
  "system_rank snaps n s = (\<Sum>i<n. phase_rank (snaps i) (sy_phase s i))"

lemma sum_fun_upd:
  assumes "i < (n :: nat)"
  shows "(\<Sum>j<n. f j ((g(i := p)) j)) + f i (g i) = (\<Sum>j<n. f j (g j)) + (f i p :: nat)"
proof -
  have "(\<Sum>j<n. f j ((g(i := p)) j)) = f i p + (\<Sum>j\<in>{..<n} - {i}. f j ((g(i := p)) j))"
    using assms by (subst sum.remove [of _ i]) auto
  moreover have "(\<Sum>j\<in>{..<n} - {i}. f j ((g(i := p)) j)) = (\<Sum>j\<in>{..<n} - {i}. f j (g j))"
    by (rule sum.cong) auto
  moreover have "(\<Sum>j<n. f j (g j)) = f i (g i) + (\<Sum>j\<in>{..<n} - {i}. f j (g j))"
    using assms by (subst sum.remove [of _ i]) auto
  ultimately show ?thesis by simp
qed

lemma rank_set_phase:
  assumes "i < n" "sy_phase s' = (sy_phase s)(i := p)"
    "phase_rank (snaps i) p < phase_rank (snaps i) (sy_phase s i)"
  shows "system_rank snaps n s' < system_rank snaps n s"
  using sum_fun_upd [OF assms(1), of "\<lambda>j. phase_rank (snaps j)" "sy_phase s" p] assms(2,3)
  by (simp add: system_rank_def)

lemma decided_rank: "phase_rank snapshot (decided snapshot t v) < phase_rank snapshot (Locked t v)"
  by (simp add: decided_def phase_rank_def Let_def split: option.split)

lemma step_rank:
  assumes "ingest_step faults pg snaps n s s'"
  shows "system_rank snaps n s' < system_rank snaps n s"
  using assms
proof (cases rule: ingest_step.cases)
  case (fail_holding i v v')
  then have "0 < phase_rank (snaps i) (sy_phase s i)"
    by (auto simp: phase_rank_def holding_view_def Let_def split: phase.splits)
  then show ?thesis
    using fail_holding by (intro rank_set_phase [of i n s' s Failed]) (simp_all add: phase_rank_def Let_def)
next
  case (decide i t v)
  then show ?thesis
    using decided_rank by (intro rank_set_phase [of i n s' s "decided (snaps i) t v"]) simp_all
qed (auto simp: phase_rank_def Let_def intro!: rank_set_phase)

text \<open>What the remaining statements need: sound data, and a sequence that lasts.\<close>

definition remaining :: "item_snapshot \<Rightarrow> phase \<Rightarrow> nat" where
  "remaining snapshot p =
     (case p of Idle \<Rightarrow> length (snap_items snapshot) | Waiting _ \<Rightarrow> length (snap_items snapshot)
      | Locked _ _ \<Rightarrow> length (snap_items snapshot) | Writing _ bs _ \<Rightarrow> length (concat bs) | _ \<Rightarrow> 0)"

definition current_view :: "system \<Rightarrow> database" where
  "current_view s =
     (case sy_holder s of None \<Rightarrow> sy_database s
      | Some i \<Rightarrow> (case holding_view (sy_phase s i) of None \<Rightarrow> sy_database s | Some v \<Rightarrow> v))"

definition batches_ok :: "pg_server \<Rightarrow> phase \<Rightarrow> bool" where
  "batches_ok pg p =
     (case p of Writing _ bs _ \<Rightarrow>
        list_all item_binds (concat bs) \<and> list_all (row_storable pg) (concat bs) \<and>
        distinct (map imp_game_id (concat bs)) \<and> (\<forall>b\<in>set bs. length b \<le> ITEM_BATCH_SIZE)
      | _ \<Rightarrow> True)"

definition live :: "pg_server \<Rightarrow> (nat \<Rightarrow> item_snapshot) \<Rightarrow> nat \<Rightarrow> system \<Rightarrow> bool" where
  "live pg snaps n s \<longleftrightarrow>
     exclusive s \<and> db_ok (current_view s) \<and> (\<forall>i. sy_holder s = Some i \<longrightarrow> i < n) \<and>
     items_id_seq (current_view s) + int (\<Sum>i<n. remaining (snaps i) (sy_phase s i)) \<le> 2147483648 \<and>
     (\<forall>i. batches_ok pg (sy_phase s i) \<and> sy_phase s i \<noteq> Failed)"

lemma remaining_set_phase:
  assumes "i < n"
  shows "(\<Sum>j<n. remaining (snaps j) (((sy_phase s)(i := p)) j)) + remaining (snaps i) (sy_phase s i) =
    (\<Sum>j<n. remaining (snaps j) (sy_phase s j)) + remaining (snaps i) p"
  by (rule sum_fun_upd [OF assms])

lemma current_view_holding:
  "exclusive s \<Longrightarrow> holding_view (sy_phase s i) = Some v \<Longrightarrow> current_view s = v \<and> sy_holder s = Some i"
  using exclusive_holder [of s i] by (simp add: current_view_def)

lemma current_view_other:
  "sy_holder s \<noteq> Some i \<Longrightarrow> current_view (set_phase i p s) = current_view s"
  by (auto simp: current_view_def split: option.split)

lemma current_view_set:
  "sy_holder s = Some i \<Longrightarrow> holding_view p = Some v \<Longrightarrow> current_view (set_phase i p s) = v"
  by (simp add: current_view_def)

lemma sequence_room:
  assumes "live pg snaps n s" "holding_view (sy_phase s i) = Some v"
  shows "items_id_seq v + int (remaining (snaps i) (sy_phase s i)) \<le> 2147483648" "db_ok v"
    "i < n" "sy_holder s = Some i" "current_view s = v"
proof -
  have cur: "current_view s = v" and holder: "sy_holder s = Some i"
    using current_view_holding [of s i v] assms by (simp_all add: live_def)
  then show "db_ok v" "i < n" "sy_holder s = Some i" "current_view s = v"
    using assms(1) by (auto simp: live_def)
  then have "remaining (snaps i) (sy_phase s i) \<le> (\<Sum>j<n. remaining (snaps j) (sy_phase s j))"
    by (intro member_le_sum) auto
  moreover have "items_id_seq v + int (\<Sum>j<n. remaining (snaps j) (sy_phase s j)) \<le> 2147483648"
    using assms(1) cur unfolding live_def by blast
  ultimately show "items_id_seq v + int (remaining (snaps i) (sy_phase s i)) \<le> 2147483648" by linarith
qed

lemma decided_live:
  assumes "storable_snapshot lib pg snapshot"
  shows "batches_ok pg (decided snapshot t v)" "remaining snapshot (decided snapshot t v) \<le> length (snap_items snapshot)"
    "decided snapshot t v \<noteq> Failed"
  using storable_items [OF assms] assms item_batches_sizes(2) [of _ "snap_items snapshot"]
  by (auto simp: decided_def batches_ok_def remaining_def concat_item_batches storable_snapshot_def
      snapshot_ok_def simp del: length_concat split: option.split)

lemma upsert_items_stmt_enabled:
  assumes "db_ok v" "batches_ok pg (Writing t (b # bs) v)"
    "items_id_seq v + int (remaining snapshot (Writing t (b # bs) v)) \<le> 2147483648"
  shows "\<exists>v'. upsert_items_stmt pg b now v = (Inr (), v')"
proof -
  have "\<exists>v'. upsert_rows pg now {} b v = (Inr (), v') \<and> (\<forall>r\<in>set (items_table v'). it_id r < items_id_seq v')"
    using assms by (intro upsert_rows_succeeds) (auto simp: db_ok_def batches_ok_def remaining_def list_all_iff)
  then show ?thesis
    using assms(2) by (auto simp: upsert_items_stmt_def batches_ok_def ITEM_BATCH_SIZE_def)
qed

lemma upsert_items_stmt_seq:
  assumes "upsert_items_stmt pg b now v = (Inr (), v')"
  shows "items_id_seq v' = items_id_seq v + int (length b)"
proof -
  have "upsert_rows pg now {} b v = (Inr (), v')"
    using assms by (auto simp: upsert_items_stmt_def split: if_splits prod.splits sum.splits)
  then show ?thesis using upsert_rows_effect by blast
qed

lemma upsert_metadata_stmt_seq:
  "upsert_metadata_stmt dv gv ls now v = (Inr (), v') \<Longrightarrow> items_id_seq v' = items_id_seq v"
  by (auto simp: upsert_metadata_stmt_def Let_def split: if_splits)

lemma upsert_metadata_stmt_enabled:
  assumes "storable_snapshot lib pg snapshot"
  shows "\<exists>v'. upsert_metadata_stmt (snap_dataset_version snapshot) (snap_game_version snapshot) t now v = (Inr (), v')"
  using storable_metadata [OF assms] by (simp add: upsert_metadata_stmt_def Let_def)

text \<open>A step of worker \<open>i\<close> that keeps \<open>live\<close>: what it must do to the phase and the view.\<close>

lemma live_step:
  assumes "live pg snaps n s" "i < n" "sy_phase s' = (sy_phase s)(i := p)" "exclusive s'"
    "\<And>j. sy_holder s' = Some j \<Longrightarrow> j < n" "db_ok (current_view s')" "batches_ok pg p" "p \<noteq> Failed"
    "items_id_seq (current_view s') + int (remaining (snaps i) p) \<le>
       items_id_seq (current_view s) + int (remaining (snaps i) (sy_phase s i))"
  shows "live pg snaps n s'"
proof -
  let ?sum = "\<lambda>f. \<Sum>j<n. remaining (snaps j) (f j)"
  have "?sum ((sy_phase s)(i := p)) + remaining (snaps i) (sy_phase s i) = ?sum (sy_phase s) + remaining (snaps i) p"
    by (rule remaining_set_phase [OF assms(2)])
  moreover have "items_id_seq (current_view s) + int (?sum (sy_phase s)) \<le> 2147483648"
    using assms(1) unfolding live_def by blast
  ultimately have "items_id_seq (current_view s') + int (?sum (sy_phase s')) \<le> 2147483648"
    using assms(9) unfolding assms(3) by linarith
  moreover have "batches_ok pg (sy_phase s' j) \<and> sy_phase s' j \<noteq> Failed" for j
    using assms(1,3,7,8) by (simp add: live_def)
  ultimately show ?thesis
    using assms(4-6) unfolding live_def by blast
qed

lemma holder_not: "exclusive s \<Longrightarrow> holding_view (sy_phase s i) = None \<Longrightarrow> sy_holder s \<noteq> Some i"
  unfolding exclusive_def by metis

lemma step_live:
  assumes snapshots: "\<And>i. storable_snapshot lib pg (snaps i)"
    and live: "live pg snaps n s" and stp: "ingest_step False pg snaps n s s'"
  shows "live pg snaps n s'"
proof -
  have ex: "exclusive s" and view: "db_ok (current_view s)" and holder: "\<And>j. sy_holder s = Some j \<Longrightarrow> j < n"
    and batches: "\<And>i. batches_ok pg (sy_phase s i)"
    using live by (simp_all add: live_def)
  from stp show ?thesis
  proof (cases rule: ingest_step.cases)
    case (start i t)
    then have "sy_holder s \<noteq> Some i" using holder_not [OF ex] by simp
    then show ?thesis using start ex view holder
      by (intro live_step [OF live, of i _ "Waiting t"])
         (simp_all add: exclusive_keep batches_ok_def remaining_def current_view_other)
  next
    case (lock i t)
    then have "current_view s' = current_view s" by (simp add: current_view_def)
    then show ?thesis using lock ex view
      by (intro live_step [OF live, of i _ "Locked t (sy_database s)"])
         (simp_all add: exclusive_take batches_ok_def remaining_def)
  next
    case (decide i t v)
    note room = sequence_room [OF live, of i v]
    have "current_view s' = current_view s"
      using decide room by (simp add: current_view_set decided_holds)
    then show ?thesis using decide ex view holder decided_live [OF snapshots, of i t v]
      by (intro live_step [OF live, of i _ "decided (snaps i) t v"])
         (simp_all add: exclusive_keep decided_holds remaining_def)
  next
    case (upsert i t b bs v now v')
    note room = sequence_room [OF live, of i v]
    have v': "db_ok v'" using upsert_items_stmt_ok [of v pg b now] room(2) upsert by simp
    have "current_view s' = v'" using upsert room by (simp add: current_view_set)
    then show ?thesis
      using upsert ex v' holder batches [of i] room upsert_items_stmt_seq [OF upsert(4)]
      by (intro live_step [OF live, of i _ "Writing t bs v'"])
         (simp_all add: exclusive_keep batches_ok_def remaining_def)
  next
    case (metadata i t v now v')
    note room = sequence_room [OF live, of i v]
    have v': "db_ok v'"
      using upsert_metadata_stmt_ok [of v "snap_dataset_version (snaps i)" "snap_game_version (snaps i)" t now]
        room(2) metadata by simp
    have "current_view s' = v'" using metadata room by (simp add: current_view_set)
    then show ?thesis
      using metadata ex v' holder room upsert_metadata_stmt_seq [OF metadata(4)]
      by (intro live_step [OF live, of i _ "Committing t v'"])
         (simp_all add: exclusive_keep batches_ok_def remaining_def)
  next
    case (commit i t v)
    note room = sequence_room [OF live, of i v]
    have "current_view s' = v" using commit by (simp add: current_view_def)
    moreover have "exclusive s'"
      using commit ex by (auto intro!: exclusive_release [of s i "Done t"])
    ultimately show ?thesis
      using commit room
      by (intro live_step [OF live, of i _ "Done t"]) (simp_all add: batches_ok_def remaining_def)
  qed simp_all
qed

text \<open>A worker that is not done can be served: the holder of the lock can always go on, and
  without a holder anybody can.\<close>

lemma step_enabled:
  assumes snapshots: "\<And>i. storable_snapshot lib pg (snaps i)"
    and live: "live pg snaps n s" and i: "i < n" "\<And>t. sy_phase s i \<noteq> Done t"
  shows "\<exists>s'. ingest_step False pg snaps n s s'"
proof (cases "sy_holder s")
  case None
  then have "holding_view (sy_phase s i) = None" using live by (auto simp: live_def exclusive_def)
  moreover have "sy_phase s i \<noteq> Failed" using live by (simp add: live_def)
  ultimately consider "sy_phase s i = Idle" | t where "sy_phase s i = Waiting t"
    using i(2) by (cases "sy_phase s i") auto
  then show ?thesis using None i(1) by cases (blast intro: start lock)+
next
  case (Some j)
  then obtain v where v: "holding_view (sy_phase s j) = Some v"
    using live by (force simp: live_def exclusive_def)
  note room = sequence_room [OF live v]
  have ok: "batches_ok pg (sy_phase s j)" using live by (simp add: live_def)
  consider t where "sy_phase s j = Locked t v" | t bs where "sy_phase s j = Writing t bs v"
    | t where "sy_phase s j = Committing t v"
    using v by (cases "sy_phase s j") auto
  then consider t where "sy_phase s j = Locked t v" | t b bs where "sy_phase s j = Writing t (b # bs) v"
    | t where "sy_phase s j = Writing t [] v" | t where "sy_phase s j = Committing t v"
    by cases (metis list.exhaust)+
  then show ?thesis
  proof cases
    case (2 t b bs)
    then obtain v' where "upsert_items_stmt pg b 0 v = (Inr (), v')"
      using upsert_items_stmt_enabled [of v pg t b bs "snaps j" 0] room ok by auto
    then show ?thesis using upsert [OF room(3) 2] by blast
  next
    case (3 t)
    obtain v' where "upsert_metadata_stmt (snap_dataset_version (snaps j)) (snap_game_version (snaps j)) t 0 v =
        (Inr (), v')" using upsert_metadata_stmt_enabled [OF snapshots] by blast
    then show ?thesis using metadata [OF room(3) 3] by blast
  qed (use room(3) in \<open>blast intro: decide commit\<close>)+
qed

lemma initial_live:
  assumes "db_ok db" "items_id_seq db + int (\<Sum>i<n. length (snap_items (snaps i))) \<le> 2147483648"
  shows "live pg snaps n (initial_system db)"
  using assms by (simp add: live_def exclusive_def current_view_def initial_system_def remaining_def batches_ok_def)

interpretation live_runs: step_invariant "ingest_step False pg snaps n"
  "\<lambda>s. (\<forall>i. storable_snapshot lib pg (snaps i)) \<and> live pg snaps n s"
  for pg snaps n lib
  by unfold_locales (blast intro: step_live)

lemma reachable_live:
  assumes "reachable False pg snaps n db s" "\<And>i. storable_snapshot lib pg (snaps i)" "db_ok db"
    "items_id_seq db + int (\<Sum>i<n. length (snap_items (snaps i))) \<le> 2147483648"
  shows "live pg snaps n s"
  using live_runs.run [OF reachable_run [OF assms(1)], of lib] assms(2) initial_live [OF assms(3,4)] by blast

text \<open>Since every step lowers the rank, a live system runs until all workers are done.\<close>

lemma live_finishes:
  assumes "\<And>i. storable_snapshot lib pg (snaps i)" "live pg snaps n s"
  shows "\<exists>s'. (ingest_step False pg snaps n)\<^sup>*\<^sup>* s s' \<and> (\<forall>i<n. \<exists>t. sy_phase s' i = Done t)"
  using assms(2)
proof (induction "system_rank snaps n s" arbitrary: s rule: less_induct)
  case less
  show ?case
  proof (cases "\<forall>i<n. \<exists>t. sy_phase s i = Done t")
    case False
    then obtain s1 where s1: "ingest_step False pg snaps n s s1"
      using step_enabled [OF assms(1) less.prems] by blast
    then show ?thesis
      using less.hyps [OF step_rank [OF s1] step_live [OF assms(1) less.prems s1]]
      by (blast intro: converse_rtranclp_into_rtranclp)
  qed blast
qed

end
