(* ===== verification/Config.thy ===== *)
theory Config
  imports Complex_Main Cache IngestionSchemas
begin

text \<open>
  \<open>app/core/config.py\<close>: the validators of the service URLs, the three settings classes
  with their field constraints and model validators in the order Pydantic runs them,
  and the reading of the process environment and the \<open>.env\<close> file. Settings that are
  numbers are parsed by a parameter.
\<close>

section \<open>validate_database_url\<close>

definition DATABASE_QUERY_OPTIONS :: "pystr set" where
  "DATABASE_QUERY_OPTIONS = {lit ''prepared_statement_cache_size''}"

definition MAX_PREPARED_STATEMENT_CACHE_SIZE :: nat where "MAX_PREPARED_STATEMENT_CACHE_SIZE = 1000"
definition MAX_REDIS_DATABASE :: nat where "MAX_REDIS_DATABASE = 15"
definition DEFAULT_REDIS_MAX_CONNECTIONS :: int where "DEFAULT_REDIS_MAX_CONNECTIONS = 20"
definition MAX_REDIS_CONNECTIONS :: int where "MAX_REDIS_CONNECTIONS = 100"
definition DEFAULT_CACHE_ITEM_TTL_SECONDS :: int where "DEFAULT_CACHE_ITEM_TTL_SECONDS = 86400"
definition DEFAULT_CACHE_LIST_TTL_SECONDS :: int where "DEFAULT_CACHE_LIST_TTL_SECONDS = 900"
definition DEFAULT_CACHE_META_TTL_SECONDS :: int where "DEFAULT_CACHE_META_TTL_SECONDS = 86400"

definition INGESTION_UNIX_SOCKET_PATHS :: "pystr set" where
  "INGESTION_UNIX_SOCKET_PATHS = {lit ''/run/postgresql'', lit ''/var/run/postgresql''}"

definition DATABASE_ENVIRONMENT_OVERRIDES :: "pystr list" where
  "DATABASE_ENVIRONMENT_OVERRIDES =
     map lit [''PGHOST'', ''PGPORT'', ''PGSERVICE'', ''PGSERVICEFILE'', ''PGUSER'', ''PGPASSWORD'',
       ''PGPASSFILE'', ''PGDATABASE'', ''PGSSLMODE'', ''PGSSLROOTCERT'', ''PGSSLCERT'', ''PGSSLKEY'',
       ''PGSSLCRL'', ''PGSSLPASSWORD'', ''PGSSLNEGOTIATION'', ''PGSSLMINPROTOCOLVERSION'',
       ''PGSSLMAXPROTOCOLVERSION'', ''PGTARGETSESSIONATTRS'', ''PGKRBSRVNAME'', ''PGGSSLIB'',
       ''SSLKEYLOGFILE'', ''SSL_CERT_FILE'', ''SSL_CERT_DIR'']"

definition prepared_cache_size_valid :: "pystr list \<Rightarrow> bool" where
  "prepared_cache_size_valid values =
     (case values of
        [v] \<Rightarrow>
          (let stripped = dropWhile (\<lambda>c. c = 48) v;
               normalized = (if stripped = [] then lit ''0'' else stripped);
               maximum = str_nat MAX_PREPARED_STATEMENT_CACHE_SIZE in
           length v \<le> length maximum \<and> isascii v \<and> isdigit v \<and>
           (length normalized < length maximum \<or>
            (length normalized = length maximum \<and> normalized \<le> maximum)))
      | _ \<Rightarrow> False)"

definition host_delimiters :: "nat set" where
  "host_delimiters = {44, 64, 47, 92, 63, 35, 91, 93}" \<comment> \<open>\<open>, @ / \\ ? # [ ]\<close>\<close>

definition values_of :: "pystr \<Rightarrow> (pystr \<times> pystr list) list \<Rightarrow> pystr list" where
  "values_of k d = (case map_of d k of None \<Rightarrow> [] | Some vs \<Rightarrow> vs)"

definition is_unix_socket :: "unicode_db \<Rightarrow> split_result \<Rightarrow> bool" where
  "is_unix_socket u parsed \<longleftrightarrow>
     (let query_values = parse_qs (sp_query parsed);
          normalized = foldl (\<lambda>d kv. add_values (uc_lower u (fst kv)) (snd kv) d) [] query_values;
          query_hosts = values_of (lit ''host'') normalized;
          host_keys = filter (\<lambda>k. uc_lower u k = lit ''host'') (map fst query_values) in
      url_hostname u parsed = None \<and>
      (sp_netloc parsed = [] \<or> endswith (sp_netloc parsed) (lit ''@'')) \<and>
      (host_keys = [] \<or>
       (set host_keys = {lit ''host''} \<and>
        (case query_hosts of [h] \<Rightarrow> startswith h (lit ''/'') \<and> 44 \<notin> set h | _ \<Rightarrow> False))))"

definition database_url_rejected :: "unicode_db \<Rightarrow> pystr \<Rightarrow> split_result \<Rightarrow> int option \<Rightarrow> bool" where
  "database_url_rejected u url parsed port \<longleftrightarrow>
     (let query_values = parse_qs (sp_query parsed);
          normalized = foldl (\<lambda>d kv. add_values (uc_lower u (fst kv)) (snd kv) d) [] query_values;
          query_hosts = values_of (lit ''host'') normalized;
          host_keys = filter (\<lambda>k. uc_lower u k = lit ''host'') (map fst query_values);
          prepared = values_of (lit ''prepared_statement_cache_size'') normalized;
          hostname = url_hostname u parsed;
          decoded_hostname = (case hostname of None \<Rightarrow> [] | Some h \<Rightarrow> unquote h);
          unix_socket = is_unix_socket u parsed in
      sp_scheme parsed \<noteq> lit ''postgresql+asyncpg'' \<or>
      list_ex control_or_space url \<or>
      sp_fragment parsed \<noteq> [] \<or>
      35 \<in> set url \<or>
      (hostname = None \<and> \<not> unix_socket) \<or>
      (host_keys \<noteq> [] \<and> \<not> unix_socket) \<or>
      url_username parsed = Some [] \<or>
      url_password parsed = Some [] \<or>
      1 < count_list (sp_netloc parsed) 64 \<or>
      44 \<in> set (sp_netloc parsed) \<or>
      list_ex (\<lambda>c. control_or_space c \<or> c \<in> host_delimiters) decoded_hostname \<or>
      list_ex (list_ex control_or_space) query_hosts \<or>
      endswith (sp_netloc parsed) (lit '':'') \<or>
      (case port of None \<Rightarrow> False | Some p \<Rightarrow> \<not> (1 \<le> p \<and> p \<le> 65535)) \<or>
      sp_path parsed \<in> {[], lit ''/''} \<or>
      set (map fst query_values) - (DATABASE_QUERY_OPTIONS \<union> (if unix_socket then {lit ''host''} else {})) \<noteq> {} \<or>
      (lit ''prepared_statement_cache_size'' \<in> set (map fst normalized) \<and>
       \<not> prepared_cache_size_valid prepared))"

definition validate_database_url :: "unicode_db \<Rightarrow> pyobj \<Rightarrow> exn + pyobj" where
  "validate_database_url u value =
     (let failure = ValueError (lit ''DATABASE_URL must use postgresql+asyncpg'') in
      case value of
        PyStr url \<Rightarrow>
          (case urlsplit u url of
             Inl _ \<Rightarrow> Inl failure
           | Inr parsed \<Rightarrow>
               (case url_port parsed of
                  Inl _ \<Rightarrow> Inl failure
                | Inr port \<Rightarrow> if database_url_rejected u url parsed port then Inl failure else Inr value))
      | _ \<Rightarrow> Inl failure)"

section \<open>validate_redis_url\<close>

text \<open>\<open>int\<close> refuses a text of more than \<open>max_int_digits\<close> digits with a \<open>ValueError\<close>, leading zeros
  included.\<close>

definition redis_url_rejected :: "unicode_db \<Rightarrow> pystr \<Rightarrow> split_result \<Rightarrow> int option \<Rightarrow> bool" where
  "redis_url_rejected u url parsed port \<longleftrightarrow>
     (let text_of = (\<lambda>x. case x of None \<Rightarrow> [] | Some t \<Rightarrow> t);
          decoded_hostname = unquote (text_of (url_hostname u parsed));
          decoded_parts = map unquote [decoded_hostname, text_of (url_username parsed),
            text_of (url_password parsed), sp_path parsed];
          db_number = removeprefix (sp_path parsed) (lit ''/'') in
      sp_scheme parsed \<notin> {lit ''redis'', lit ''rediss''} \<or>
      url_hostname u parsed = None \<or>
      list_ex control_or_space url \<or>
      list_ex (list_ex control_or_space) decoded_parts \<or>
      63 \<in> set url \<or> 35 \<in> set url \<or> sp_query parsed \<noteq> [] \<or> sp_fragment parsed \<noteq> [] \<or>
      url_username parsed = Some [] \<or> url_password parsed = Some [] \<or>
      1 < count_list (sp_netloc parsed) 64 \<or>
      44 \<in> set (sp_netloc parsed) \<or>
      list_ex (\<lambda>c. c \<in> host_delimiters) decoded_hostname \<or>
      endswith (sp_netloc parsed) (lit '':'') \<or>
      (case port of None \<Rightarrow> False | Some p \<Rightarrow> \<not> (1 \<le> p \<and> p \<le> 65535)) \<or>
      (sp_path parsed \<notin> {[], lit ''/''} \<and>
       (\<not> isascii db_number \<or> \<not> isdigit db_number \<or> max_int_digits < length db_number \<or>
        MAX_REDIS_DATABASE < int_of_digits db_number)))"

definition validate_redis_url :: "unicode_db \<Rightarrow> pyobj \<Rightarrow> exn + pyobj" where
  "validate_redis_url u value =
     (let failure = ValueError (lit ''REDIS_URL must use redis or rediss'') in
      case value of
        PyStr url \<Rightarrow>
          (case urlsplit u url of
             Inl _ \<Rightarrow> Inl failure
           | Inr parsed \<Rightarrow>
               (case url_port parsed of
                  Inl _ \<Rightarrow> Inl failure
                | Inr port \<Rightarrow> if redis_url_rejected u url parsed port then Inl failure else Inr value))
      | _ \<Rightarrow> Inl failure)"

section \<open>Production Redis\<close>

definition is_loopback_host :: "pystr option \<Rightarrow> bool" where
  "is_loopback_host hostname =
     (case hostname of
        None \<Rightarrow> False
      | Some h \<Rightarrow> h = lit ''localhost'' \<or> (case ip_address h of None \<Rightarrow> False | Some a \<Rightarrow> is_loopback a))"

datatype environment = Development | Test | Production

definition validate_production_redis :: "unicode_db \<Rightarrow> environment \<Rightarrow> pystr \<Rightarrow> exn + unit" where
  "validate_production_redis u environment redis_url =
     (if environment \<noteq> Production then Inr ()
      else (case urlsplit u redis_url of
        Inl e \<Rightarrow> Inl e
      | Inr parsed \<Rightarrow>
          if is_loopback_host (url_hostname u parsed) then Inr ()
          else if sp_scheme parsed \<noteq> lit ''rediss''
          then Inl (ValueError (lit ''Production REDIS_URL must use rediss''))
          else if url_password parsed = None
          then Inl (ValueError (lit ''Production remote REDIS_URL must specify a password''))
          else Inr ()))"

section \<open>Where settings come from\<close>

text \<open>\<open>BaseSettings\<close>: the process environment before the \<open>.env\<close> file, names without case,
  empty values ignored. \<open>parse_float\<close> and \<open>parse_int\<close> are Pydantic's.\<close>

record settings_source =
  ss_unicode :: unicode_db
  ss_environ :: "(pystr \<times> pystr) list"
  ss_dotenv :: "(pystr \<times> pystr) list"
  ss_float :: "pystr \<Rightarrow> rat option"
  ss_int :: "pystr \<Rightarrow> int option"

definition variables :: "unicode_db \<Rightarrow> (pystr \<times> pystr) list \<Rightarrow> pystr \<rightharpoonup> pystr" where
  "variables u env =
     map_of (rev (map (\<lambda>kv. (uc_lower u (fst kv), snd kv)) (filter (\<lambda>kv. snd kv \<noteq> []) env)))"

definition setting :: "settings_source \<Rightarrow> string \<Rightarrow> pystr option" where
  "setting src name =
     (variables (ss_unicode src) (ss_dotenv src) ++ variables (ss_unicode src) (ss_environ src)) (lit name)"

text \<open>A \<open>ValueError\<close> of a validator is an error of the field or of the model.\<close>

definition checked :: "exn + 'a \<Rightarrow> 'a outcome" where
  "checked r =
     (case r of Inr a \<Rightarrow> Valid a | Inl (ValueError m) \<Rightarrow> issue (ValueErr m) | Inl e \<Rightarrow> Abort e)"

definition literal_field :: "string \<Rightarrow> (string \<times> 'a) list \<Rightarrow> 'a \<Rightarrow> settings_source \<Rightarrow> 'a outcome" where
  "literal_field name choices dflt src =
     located (lit name)
       (case setting src name of
          None \<Rightarrow> Valid dflt
        | Some v \<Rightarrow>
            (case map_of (map (\<lambda>c. (lit (fst c), snd c)) choices) v of
               None \<Rightarrow> issue LiteralError | Some x \<Rightarrow> Valid x))"

text \<open>The bounds of an integer; \<open>below\<close> is the error under the lower one (\<open>gt=0\<close> is \<open>1\<close>
  with its own error).\<close>

definition int_field :: "string \<Rightarrow> int \<Rightarrow> issue \<Rightarrow> int \<Rightarrow> int \<Rightarrow> settings_source \<Rightarrow> int outcome" where
  "int_field name dflt below low high src =
     located (lit name)
       (case setting src name of
          None \<Rightarrow> Valid dflt
        | Some v \<Rightarrow>
            (case ss_int src v of
               None \<Rightarrow> issue IntParsing
             | Some i \<Rightarrow> if i < low then issue below else if high < i then issue LessEqual else Valid i))"

definition url_field ::
  "string \<Rightarrow> (unicode_db \<Rightarrow> pyobj \<Rightarrow> exn + pyobj) \<Rightarrow> settings_source \<Rightarrow> pystr outcome" where
  "url_field name validate src =
     located (lit name)
       (case setting src name of
          None \<Rightarrow> issue Missing
        | Some v \<Rightarrow> after (checked (validate (ss_unicode src) (PyStr v)))
            (\<lambda>x. case x of PyStr t \<Rightarrow> Valid t | _ \<Rightarrow> issue StringType))"

section \<open>PostgresSettings\<close>

record postgres_settings =
  ps_environment :: environment
  ps_database_url :: pystr
  ps_dependency_timeout_seconds :: rat

definition environment_field :: "settings_source \<Rightarrow> environment outcome" where
  "environment_field =
     literal_field ''environment''
       [(''development'', Development), (''test'', Test), (''production'', Production)] Development"

definition timeout_field :: "settings_source \<Rightarrow> rat outcome" where
  "timeout_field src =
     located (lit ''dependency_timeout_seconds'')
       (case setting src ''dependency_timeout_seconds'' of
          None \<Rightarrow> Valid 2
        | Some v \<Rightarrow>
            (case ss_float src v of
               None \<Rightarrow> issue FloatParsing
             | Some x \<Rightarrow> if \<not> x > 0 then issue GreaterThan else if \<not> x \<le> 30 then issue LessEqual else Valid x))"

definition postgres_fields :: "settings_source \<Rightarrow> postgres_settings outcome" where
  "postgres_fields src =
     map_outcome_value
       (\<lambda>(e, d, t). \<lparr>ps_environment = e, ps_database_url = d, ps_dependency_timeout_seconds = t\<rparr>)
       (both (environment_field src)
       (both (url_field ''database_url'' validate_database_url src) (timeout_field src)))"

definition require_production_database_tls ::
  "unicode_db \<Rightarrow> 'a postgres_settings_scheme \<Rightarrow> exn + 'a postgres_settings_scheme" where
  "require_production_database_tls u s =
     (case urlsplit u (ps_database_url s) of
        Inl e \<Rightarrow> Inl e
      | Inr parsed \<Rightarrow>
          if ps_environment s \<noteq> Production then Inr s
          else if url_hostname u parsed = None \<and>
                  lit ''host'' \<notin> set (map (\<lambda>kv. uc_lower u (fst kv)) (parse_qs (sp_query parsed)))
          then Inl (ValueError (lit ''Production DATABASE_URL must specify a host or socket''))
          else Inr s)"

definition database_requires_tls :: "unicode_db \<Rightarrow> 'a postgres_settings_scheme \<Rightarrow> exn + bool" where
  "database_requires_tls u s =
     (case urlsplit u (ps_database_url s) of
        Inl e \<Rightarrow> Inl e
      | Inr parsed \<Rightarrow>
          Inr (case url_hostname u parsed of
                 None \<Rightarrow> False
               | Some h \<Rightarrow> h \<notin> {lit ''localhost'', lit ''127.0.0.1'', lit ''::1''}))"

section \<open>Settings\<close>

record app_settings = postgres_settings +
  as_app_name :: pystr
  as_app_version :: pystr
  as_log_level :: pystr
  as_redis_url :: pystr
  as_redis_max_connections :: int
  as_cache_item_ttl_seconds :: int
  as_cache_list_ttl_seconds :: int
  as_cache_meta_ttl_seconds :: int
  as_clerk_secret_key :: "pystr option"

definition string_field :: "string \<Rightarrow> pystr \<Rightarrow> settings_source \<Rightarrow> pystr outcome" where
  "string_field name dflt src = Valid (case setting src name of None \<Rightarrow> dflt | Some v \<Rightarrow> v)"

definition LOG_LEVELS :: "(string \<times> pystr) list" where
  "LOG_LEVELS = map (\<lambda>l. (l, lit l)) [''DEBUG'', ''INFO'', ''WARNING'', ''ERROR'', ''CRITICAL'']"

definition settings_fields :: "settings_source \<Rightarrow> app_settings outcome" where
  "settings_fields src =
     map_outcome_value
       (\<lambda>(p, n, v, l, r, c, ti, tl, tm). postgres_settings.extend p
          \<lparr>as_app_name = n, as_app_version = v, as_log_level = l, as_redis_url = r,
           as_redis_max_connections = c, as_cache_item_ttl_seconds = ti,
           as_cache_list_ttl_seconds = tl, as_cache_meta_ttl_seconds = tm,
           as_clerk_secret_key = setting src ''clerk_secret_key''\<rparr>)
       (both (postgres_fields src)
       (both (string_field ''app_name'' (lit ''The Binding of Isaac API'') src)
       (both (string_field ''app_version'' (lit ''0.1.0'') src)
       (both (literal_field ''log_level'' LOG_LEVELS (lit ''INFO'') src)
       (both (url_field ''redis_url'' validate_redis_url src)
       (both (int_field ''redis_max_connections'' DEFAULT_REDIS_MAX_CONNECTIONS GreaterEqual 1 MAX_REDIS_CONNECTIONS src)
       (both (int_field ''cache_item_ttl_seconds'' DEFAULT_CACHE_ITEM_TTL_SECONDS GreaterThan 1 MAX_CACHE_TTL_SECONDS src)
       (both (int_field ''cache_list_ttl_seconds'' DEFAULT_CACHE_LIST_TTL_SECONDS GreaterThan 1 MAX_CACHE_TTL_SECONDS src)
             (int_field ''cache_meta_ttl_seconds'' DEFAULT_CACHE_META_TTL_SECONDS GreaterThan 1 MAX_CACHE_TTL_SECONDS src)))))))))"

definition require_production_redis_tls :: "unicode_db \<Rightarrow> app_settings \<Rightarrow> exn + app_settings" where
  "require_production_redis_tls u s =
     (case validate_production_redis u (ps_environment s) (as_redis_url s) of
        Inl e \<Rightarrow> Inl e | Inr _ \<Rightarrow> Inr s)"

definition make_settings :: "settings_source \<Rightarrow> app_settings outcome" where
  "make_settings src =
     after (settings_fields src) (\<lambda>s0.
     after (checked (require_production_database_tls (ss_unicode src) s0)) (\<lambda>s1.
     checked (require_production_redis_tls (ss_unicode src) s1)))"

section \<open>IngestionSettings\<close>

record ingestion_settings = postgres_settings +
  ig_redis_url :: pystr
  ig_redis_max_connections :: int

definition ingestion_fields :: "settings_source \<Rightarrow> ingestion_settings outcome" where
  "ingestion_fields src =
     map_outcome_value
       (\<lambda>(p, r, c). postgres_settings.extend p \<lparr>ig_redis_url = r, ig_redis_max_connections = c\<rparr>)
       (both (postgres_fields src)
       (both (url_field ''redis_url'' validate_redis_url src)
             (int_field ''redis_max_connections'' DEFAULT_REDIS_MAX_CONNECTIONS GreaterEqual 1 MAX_REDIS_CONNECTIONS src)))"

definition require_explicit_database_target ::
  "unicode_db \<Rightarrow> ingestion_settings \<Rightarrow> exn + ingestion_settings" where
  "require_explicit_database_target u s =
     (case urlsplit u (ps_database_url s) of
        Inl e \<Rightarrow> Inl e
      | Inr parsed \<Rightarrow>
          (let socket_hosts = values_of (lit ''host'') (parse_qs (sp_query parsed)) in
           if url_hostname u parsed = None \<and>
              (length socket_hosts \<noteq> 1 \<or> hd socket_hosts \<notin> INGESTION_UNIX_SOCKET_PATHS)
           then Inl (ValueError (lit ''Ingestion DATABASE_URL must specify a hostname or approved socket''))
           else Inr s))"

definition reject_database_driver_environment ::
  "(pystr \<times> pystr) list \<Rightarrow> ingestion_settings \<Rightarrow> exn + ingestion_settings" where
  "reject_database_driver_environment environ s =
     (if list_ex (\<lambda>v. v \<in> fst ` set environ) DATABASE_ENVIRONMENT_OVERRIDES
      then Inl (ValueError (lit ''DATABASE_URL must not use driver environment overrides''))
      else Inr s)"

definition require_remote_database_credentials ::
  "unicode_db \<Rightarrow> ingestion_settings \<Rightarrow> exn + ingestion_settings" where
  "require_remote_database_credentials u s =
     (case urlsplit u (ps_database_url s) of
        Inl e \<Rightarrow> Inl e
      | Inr parsed \<Rightarrow>
          (case database_requires_tls u s of
             Inl e \<Rightarrow> Inl e
           | Inr tls \<Rightarrow>
               if tls \<and> (url_username parsed = None \<or> url_password parsed = None)
               then Inl (ValueError (lit ''Remote DATABASE_URL must specify credentials''))
               else Inr s))"

definition ingestion_redis_tls :: "unicode_db \<Rightarrow> ingestion_settings \<Rightarrow> exn + ingestion_settings" where
  "ingestion_redis_tls u s =
     (case validate_production_redis u (ps_environment s) (ig_redis_url s) of
        Inl e \<Rightarrow> Inl e | Inr _ \<Rightarrow> Inr s)"

definition make_ingestion_settings :: "settings_source \<Rightarrow> ingestion_settings outcome" where
  "make_ingestion_settings src =
     (let u = ss_unicode src in
      after (ingestion_fields src) (\<lambda>s0.
      after (checked (require_production_database_tls u s0)) (\<lambda>s1.
      after (checked (ingestion_redis_tls u s1)) (\<lambda>s2.
      after (checked (require_explicit_database_target u s2)) (\<lambda>s3.
      after (checked (reject_database_driver_environment (ss_environ src) s3)) (\<lambda>s4.
      checked (require_remote_database_credentials u s4)))))))"

text \<open>\<open>IngestionSettings()\<close>: the collected errors are one \<open>ValidationError\<close>.\<close>

definition settings_result :: "(issue \<Rightarrow> pystr) \<Rightarrow> 'a outcome \<Rightarrow> exn + 'a" where
  "settings_result message r =
     (case r of
        Valid s \<Rightarrow> Inr s
      | Issues es \<Rightarrow> Inl (ValidationError (map (\<lambda>(loc, i). (loc, message i)) es))
      | Abort e \<Rightarrow> Inl e)"

section \<open>What accepted settings satisfy\<close>

lemma checked_Valid [simp]: "checked r = Valid a \<longleftrightarrow> r = Inr a"
  by (auto simp: checked_def issue_def split: sum.splits exn.splits)

lemma located_Valid_iff [simp]: "located l r = Valid a \<longleftrightarrow> r = Valid a"
  by (cases r) auto

lemma validate_database_url_Inr:
  "validate_database_url u v = Inr x \<longleftrightarrow>
   (\<exists>url parsed port. v = PyStr url \<and> x = v \<and> urlsplit u url = Inr parsed \<and> url_port parsed = Inr port \<and>
      \<not> database_url_rejected u url parsed port)"
  by (auto simp: validate_database_url_def Let_def split: pyobj.splits sum.splits if_splits)

lemma validate_redis_url_Inr:
  "validate_redis_url u v = Inr x \<longleftrightarrow>
   (\<exists>url parsed port. v = PyStr url \<and> x = v \<and> urlsplit u url = Inr parsed \<and> url_port parsed = Inr port \<and>
      \<not> redis_url_rejected u url parsed port)"
  by (auto simp: validate_redis_url_def Let_def split: pyobj.splits sum.splits if_splits)

lemma url_field_Valid:
  assumes "url_field name validate src = Valid url" "\<And>u v x. validate u v = Inr x \<Longrightarrow> x = v"
  shows "validate (ss_unicode src) (PyStr url) = Inr (PyStr url)"
proof -
  obtain v x where v: "validate (ss_unicode src) (PyStr v) = Inr x" "x = PyStr url"
  proof -
    obtain v x where x: "validate (ss_unicode src) (PyStr v) = Inr x"
      "(case x of PyStr t \<Rightarrow> Valid t | _ \<Rightarrow> issue StringType) = Valid url"
      using assms(1) by (auto simp: url_field_def split: option.splits)
    then have "x = PyStr url" by (cases x) (simp_all add: issue_def)
    then show thesis using that x(1) by blast
  qed
  then show ?thesis using assms(2) by metis
qed

lemma int_field_Valid: "int_field name d below low high src = Valid i \<Longrightarrow> low \<le> d \<Longrightarrow> d \<le> high \<Longrightarrow> low \<le> i \<and> i \<le> high"
  by (auto simp: int_field_def issue_def split: option.splits if_splits)

definition database_url_ok :: "unicode_db \<Rightarrow> pystr \<Rightarrow> bool" where
  "database_url_ok u url \<longleftrightarrow> validate_database_url u (PyStr url) = Inr (PyStr url)"

definition redis_url_ok :: "unicode_db \<Rightarrow> pystr \<Rightarrow> bool" where
  "redis_url_ok u url \<longleftrightarrow> validate_redis_url u (PyStr url) = Inr (PyStr url)"

lemma postgres_fields_Valid:
  assumes "postgres_fields src = Valid p"
  shows "database_url_ok (ss_unicode src) (ps_database_url p)"
    "0 < ps_dependency_timeout_seconds p" "ps_dependency_timeout_seconds p \<le> 30"
proof -
  obtain e d t where p: "p = \<lparr>ps_environment = e, ps_database_url = d, ps_dependency_timeout_seconds = t\<rparr>"
    and d: "url_field ''database_url'' validate_database_url src = Valid d"
    and t: "timeout_field src = Valid t"
    using assms by (auto simp: postgres_fields_def)
  show "database_url_ok (ss_unicode src) (ps_database_url p)"
    using url_field_Valid [OF d] p by (auto simp: database_url_ok_def validate_database_url_Inr)
  show "0 < ps_dependency_timeout_seconds p" "ps_dependency_timeout_seconds p \<le> 30"
    using t p by (auto simp: timeout_field_def issue_def split: option.splits if_splits)
qed

lemma extend_simps [simp]:
  "ps_environment (postgres_settings.extend p f) = ps_environment p"
  "ps_database_url (postgres_settings.extend p f) = ps_database_url p"
  "ps_dependency_timeout_seconds (postgres_settings.extend p f) = ps_dependency_timeout_seconds p"
  by (simp_all add: postgres_settings.extend_def)

lemma production_redis_ok:
  assumes "validate_production_redis u Production url = Inr ()" "urlsplit u url = Inr r"
    "\<not> is_loopback_host (url_hostname u r)"
  shows "sp_scheme r = lit ''rediss''" "url_password r \<noteq> None"
  using assms by (auto simp: validate_production_redis_def split: if_splits)

lemma database_url_split:
  assumes "database_url_ok u url"
  obtains r port where "urlsplit u url = Inr r" "url_port r = Inr port" "\<not> database_url_rejected u url r port"
  using assms by (auto simp: database_url_ok_def validate_database_url_Inr)

lemma redis_url_split:
  assumes "redis_url_ok u url"
  obtains r port where "urlsplit u url = Inr r" "url_port r = Inr port" "\<not> redis_url_rejected u url r port"
  using assms by (auto simp: redis_url_ok_def validate_redis_url_Inr)

lemma database_tls_same: "require_production_database_tls u s = Inr s' \<Longrightarrow> s' = s"
  by (auto simp: require_production_database_tls_def split: sum.splits if_splits)

lemma make_settings_fields:
  assumes "make_settings src = Valid s"
  shows "settings_fields src = Valid s"
    "validate_production_redis (ss_unicode src) (ps_environment s) (as_redis_url s) = Inr ()"
proof -
  obtain s0 s1 where steps: "settings_fields src = Valid s0"
    "require_production_database_tls (ss_unicode src) s0 = Inr s1"
    "require_production_redis_tls (ss_unicode src) s1 = Inr s"
    using assms by (auto simp: make_settings_def)
  have "s1 = s0" by (rule database_tls_same [OF steps(2)])
  moreover have "s = s1 \<and> validate_production_redis (ss_unicode src) (ps_environment s1) (as_redis_url s1) = Inr ()"
    using steps(3) by (auto simp: require_production_redis_tls_def split: sum.splits)
  ultimately show "settings_fields src = Valid s"
    "validate_production_redis (ss_unicode src) (ps_environment s) (as_redis_url s) = Inr ()"
    using steps(1) by simp_all
qed

lemma literal_field_Valid:
  "literal_field name choices dflt src = Valid x \<Longrightarrow> x \<in> insert dflt (snd ` set choices)"
  by (auto simp: literal_field_def image_iff dest!: map_of_SomeD split: option.splits)

lemma make_settings_log_level:
  assumes "make_settings src = Valid s"
  shows "as_log_level s \<in> snd ` set LOG_LEVELS"
proof -
  have "\<exists>l. literal_field ''log_level'' LOG_LEVELS (lit ''INFO'') src = Valid l \<and> as_log_level s = l"
    using make_settings_fields(1) [OF assms] by (auto simp: settings_fields_def postgres_settings.extend_def)
  then show ?thesis using literal_field_Valid by (fastforce simp: LOG_LEVELS_def)
qed

lemma make_settings_Valid:
  assumes "make_settings src = Valid s"
  shows "database_url_ok (ss_unicode src) (ps_database_url s)" "redis_url_ok (ss_unicode src) (as_redis_url s)"
    "0 < ps_dependency_timeout_seconds s \<and> ps_dependency_timeout_seconds s \<le> 30"
    "1 \<le> as_redis_max_connections s \<and> as_redis_max_connections s \<le> MAX_REDIS_CONNECTIONS"
    "\<And>t. t \<in> {as_cache_item_ttl_seconds s, as_cache_list_ttl_seconds s, as_cache_meta_ttl_seconds s} \<Longrightarrow>
       1 \<le> t \<and> t \<le> MAX_CACHE_TTL_SECONDS"
    "validate_production_redis (ss_unicode src) (ps_environment s) (as_redis_url s) = Inr ()"
proof -
  note fields = make_settings_fields(1) [OF assms] and redis = make_settings_fields(2) [OF assms]
  obtain p n v l r c ti tl tm where f: "postgres_fields src = Valid p"
    "url_field ''redis_url'' validate_redis_url src = Valid r"
    "int_field ''redis_max_connections'' DEFAULT_REDIS_MAX_CONNECTIONS GreaterEqual 1 MAX_REDIS_CONNECTIONS src = Valid c"
    "int_field ''cache_item_ttl_seconds'' DEFAULT_CACHE_ITEM_TTL_SECONDS GreaterThan 1 MAX_CACHE_TTL_SECONDS src = Valid ti"
    "int_field ''cache_list_ttl_seconds'' DEFAULT_CACHE_LIST_TTL_SECONDS GreaterThan 1 MAX_CACHE_TTL_SECONDS src = Valid tl"
    "int_field ''cache_meta_ttl_seconds'' DEFAULT_CACHE_META_TTL_SECONDS GreaterThan 1 MAX_CACHE_TTL_SECONDS src = Valid tm"
    and s: "s = postgres_settings.extend p
          \<lparr>as_app_name = n, as_app_version = v, as_log_level = l, as_redis_url = r,
           as_redis_max_connections = c, as_cache_item_ttl_seconds = ti,
           as_cache_list_ttl_seconds = tl, as_cache_meta_ttl_seconds = tm,
           as_clerk_secret_key = setting src ''clerk_secret_key''\<rparr>"
    using fields by (auto simp: settings_fields_def)
  have sel: "as_redis_url s = r" "as_redis_max_connections s = c" "as_cache_item_ttl_seconds s = ti"
    "as_cache_list_ttl_seconds s = tl" "as_cache_meta_ttl_seconds s = tm"
    by (simp_all add: s postgres_settings.extend_def)
  show "database_url_ok (ss_unicode src) (ps_database_url s)"
    "0 < ps_dependency_timeout_seconds s \<and> ps_dependency_timeout_seconds s \<le> 30"
    using postgres_fields_Valid [OF f(1)] by (simp_all add: s)
  show "redis_url_ok (ss_unicode src) (as_redis_url s)"
    using url_field_Valid [OF f(2)] sel(1) by (auto simp: redis_url_ok_def validate_redis_url_Inr)
  show "1 \<le> as_redis_max_connections s \<and> as_redis_max_connections s \<le> MAX_REDIS_CONNECTIONS"
    using int_field_Valid [OF f(3)] sel by (simp add: DEFAULT_REDIS_MAX_CONNECTIONS_def MAX_REDIS_CONNECTIONS_def)
  show "1 \<le> t \<and> t \<le> MAX_CACHE_TTL_SECONDS"
    if "t \<in> {as_cache_item_ttl_seconds s, as_cache_list_ttl_seconds s, as_cache_meta_ttl_seconds s}" for t
    using that int_field_Valid [OF f(4)] int_field_Valid [OF f(5)] int_field_Valid [OF f(6)] sel
    by (auto simp: DEFAULT_CACHE_ITEM_TTL_SECONDS_def DEFAULT_CACHE_LIST_TTL_SECONDS_def
        DEFAULT_CACHE_META_TTL_SECONDS_def MAX_CACHE_TTL_SECONDS_def)
  show "validate_production_redis (ss_unicode src) (ps_environment s) (as_redis_url s) = Inr ()" by (rule redis)
qed

lemma make_ingestion_settings_Valid:
  assumes "make_ingestion_settings src = Valid s"
  shows "database_url_ok (ss_unicode src) (ps_database_url s)" "redis_url_ok (ss_unicode src) (ig_redis_url s)"
    "validate_production_redis (ss_unicode src) (ps_environment s) (ig_redis_url s) = Inr ()"
    "require_explicit_database_target (ss_unicode src) s = Inr s"
    "reject_database_driver_environment (ss_environ src) s = Inr s"
    "require_remote_database_credentials (ss_unicode src) s = Inr s"
proof -
  obtain s0 s1 s2 s3 s4 where steps: "ingestion_fields src = Valid s0"
    "require_production_database_tls (ss_unicode src) s0 = Inr s1"
    "ingestion_redis_tls (ss_unicode src) s1 = Inr s2"
    "require_explicit_database_target (ss_unicode src) s2 = Inr s3"
    "reject_database_driver_environment (ss_environ src) s3 = Inr s4"
    "require_remote_database_credentials (ss_unicode src) s4 = Inr s"
    using assms by (auto simp: make_ingestion_settings_def Let_def)
  have "s1 = s0" by (rule database_tls_same [OF steps(2)])
  moreover have "s2 = s1" "validate_production_redis (ss_unicode src) (ps_environment s1) (ig_redis_url s1) = Inr ()"
    using steps(3) by (auto simp: ingestion_redis_tls_def split: sum.splits)
  moreover have "s3 = s2"
    using steps(4) by (auto simp: require_explicit_database_target_def Let_def split: sum.splits if_splits)
  moreover have "s4 = s3"
    using steps(5) by (auto simp: reject_database_driver_environment_def split: if_splits)
  moreover have "s = s4"
    using steps(6) by (auto simp: require_remote_database_credentials_def split: sum.splits if_splits)
  ultimately have same: "s0 = s" "s1 = s" "s2 = s" "s3 = s" "s4 = s"
    "validate_production_redis (ss_unicode src) (ps_environment s) (ig_redis_url s) = Inr ()" by simp_all
  then show "validate_production_redis (ss_unicode src) (ps_environment s) (ig_redis_url s) = Inr ()"
    "require_explicit_database_target (ss_unicode src) s = Inr s"
    "reject_database_driver_environment (ss_environ src) s = Inr s"
    "require_remote_database_credentials (ss_unicode src) s = Inr s"
    using steps by simp_all
  obtain p r c where f: "postgres_fields src = Valid p"
    "url_field ''redis_url'' validate_redis_url src = Valid r"
    "s = postgres_settings.extend p \<lparr>ig_redis_url = r, ig_redis_max_connections = c\<rparr>"
    using steps(1) same(1) by (auto simp: ingestion_fields_def)
  show "database_url_ok (ss_unicode src) (ps_database_url s)"
    using postgres_fields_Valid [OF f(1)] f(3) by simp
  show "redis_url_ok (ss_unicode src) (ig_redis_url s)"
    using url_field_Valid [OF f(2)] f(3)
    by (auto simp: redis_url_ok_def validate_redis_url_Inr postgres_settings.extend_def)
qed

end
