(* ===== verification/Logging.thy ===== *)
theory Logging
  imports World Url "HOL-Library.Sublist"
begin

text \<open>
  \<open>app/core/logging.py\<close>: the request identifier, the redaction of API keys in a path, the
  JSON form of a log record, and the middleware around the application, which gives
  every response an identifier and every request its record in the log. An ASGI
  application is a coroutine that returns the messages it has sent and the exception
  it ended with, if any.
\<close>

section \<open>Request identifiers\<close>

definition key_char :: "nat \<Rightarrow> bool" where
  "key_char c \<longleftrightarrow> alpha_char c \<or> digit_char c \<or> c = 45 \<or> c = 95" \<comment> \<open>\<open>[A-Za-z0-9_-]\<close>\<close>

text \<open>\<open>^[A-Za-z0-9][A-Za-z0-9._-]{0,63}$\<close>, matched in full.\<close>

definition request_id_pattern :: "pystr \<Rightarrow> bool" where
  "request_id_pattern s \<longleftrightarrow>
     (case s of [] \<Rightarrow> False
      | c # r \<Rightarrow> (alpha_char c \<or> digit_char c) \<and> list_all (\<lambda>d. key_char d \<or> d = 46) r \<and> length r \<le> 63)"

text \<open>\<open>str(uuid4())\<close> from 128 random bits: version 4, the RFC 4122 variant.\<close>

definition uuid4_text :: "nat \<Rightarrow> pystr" where
  "uuid4_text n =
     (let d = hex_digits 32 n; variant = [hex_char (8 + n div 16 ^ 15 mod 4)] in
      take 8 d @ [45] @ take 4 (drop 8 d) @ [45] @ lit ''4'' @ take 3 (drop 13 d) @ [45] @
      variant @ take 3 (drop 17 d) @ [45] @ drop 20 d)"

definition uuid4 :: "pystr prog" where
  "uuid4 = with_entropy (\<lambda>es. case randbelow (2 ^ 128) es of (n, es') \<Rightarrow> (Inr (uuid4_text n), es'))"

definition request_id_of :: "pystr option \<Rightarrow> pystr prog" where
  "request_id_of header =
     (let candidate = (case header of None \<Rightarrow> [] | Some h \<Rightarrow> h) in
      if request_id_pattern candidate then ret candidate else uuid4)"

section \<open>Redaction\<close>

text \<open>\<open>API_KEY_PATTERN.sub("ak_[REDACTED]", path)\<close> for \<open>ak_[A-Za-z0-9_-]+\<close>.\<close>

definition key_at :: "pystr \<Rightarrow> bool" where
  "key_at s \<longleftrightarrow> (case s of a # k # u # c # _ \<Rightarrow> a = 97 \<and> k = 107 \<and> u = 95 \<and> key_char c | _ \<Rightarrow> False)"

function redact :: "pystr \<Rightarrow> pystr" where
  "redact s =
     (case s of [] \<Rightarrow> []
      | c # r \<Rightarrow>
          if key_at s then lit ''ak_[REDACTED]'' @ redact (dropWhile key_char (drop 3 s))
          else c # redact r)"
  by auto
termination
proof (relation "measure length")
  fix s c r
  assume "s = c # r" "key_at s"
  have "length (dropWhile key_char (drop 3 s)) \<le> length (drop 3 s)" by (rule length_dropWhile_le)
  then show "(dropWhile key_char (drop 3 s), s) \<in> measure length" using \<open>s = c # r\<close> by simp
qed auto

declare redact.simps [simp del]

section \<open>JsonFormatter\<close>

definition LOG_FIELDS :: "pystr list" where
  "LOG_FIELDS =
     map lit [''request_id'', ''method'', ''path'', ''status'', ''duration_ms'', ''dependency'',
       ''cache_resource'', ''cache_operation'', ''exception_type'', ''exception_file'',
       ''exception_function'', ''exception_line'']"

definition log_payload :: "pystr \<Rightarrow> log_entry \<Rightarrow> (pystr \<times> json) list" where
  "log_payload timestamp l =
     [(lit ''timestamp'', JStr timestamp), (lit ''level'', JStr (le_level l)),
      (lit ''event'', JStr (le_event l))] @
     List.map_filter
       (\<lambda>field. case map_of (le_extra l) field of
          None \<Rightarrow> None | Some JNull \<Rightarrow> None | Some v \<Rightarrow> Some (field, v)) LOG_FIELDS"

definition format_record :: "pystr \<Rightarrow> log_entry \<Rightarrow> pystr" where
  "format_record timestamp l = json_dumps (JObj (log_payload timestamp l))"

section \<open>configure_logging\<close>

text \<open>The loggers of the standard library: one per dotted name, the root being the empty name.
  A logger without a level of its own (0) takes that of the nearest ancestor that has
  one, and a record goes to the handlers of the logger and of its ancestors, up to the
  first one that does not propagate.\<close>

datatype log_handler = StdoutJson | OtherHandler nat

record logger =
  lg_handlers :: "log_handler list"
  lg_level :: nat
  lg_propagate :: bool

type_synonym loggers = "pystr \<Rightarrow> logger"

definition fresh_logger :: logger where
  "fresh_logger = \<lparr>lg_handlers = [], lg_level = 0, lg_propagate = True\<rparr>"

definition LEVEL_NUMBERS :: "(pystr \<times> nat) list" where
  "LEVEL_NUMBERS =
     map (\<lambda>(l, n). (lit l, n))
       [(''CRITICAL'', 50), (''FATAL'', 50), (''ERROR'', 40), (''WARN'', 30), (''WARNING'', 30),
        (''INFO'', 20), (''DEBUG'', 10), (''NOTSET'', 0)]"

definition configure_logging :: "pystr \<Rightarrow> (loggers, exn, unit) io" where
  "configure_logging level ls =
     (let name = lit ''app''; handled = ls(name := (ls name)\<lparr>lg_handlers := [StdoutJson]\<rparr>) in
      case map_of LEVEL_NUMBERS level of
        None \<Rightarrow> (Inl (ValueError (lit ''Unknown level: '' @ [39] @ level @ [39])), handled)
      | Some n \<Rightarrow> (Inr (), handled(name := (handled name)\<lparr>lg_level := n, lg_propagate := False\<rparr>)))"

definition logger_chain :: "pystr \<Rightarrow> pystr list" where
  "logger_chain name = map (join_with 46) (rev (prefixes (split_on 46 name)))"

primrec called_handlers :: "loggers \<Rightarrow> pystr list \<Rightarrow> log_handler list" where
  "called_handlers ls [] = []"
| "called_handlers ls (n # ns) =
     lg_handlers (ls n) @ (if lg_propagate (ls n) then called_handlers ls ns else [])"

primrec effective_level :: "loggers \<Rightarrow> pystr list \<Rightarrow> nat" where
  "effective_level ls [] = 0"
| "effective_level ls (n # ns) = (if lg_level (ls n) \<noteq> 0 then lg_level (ls n) else effective_level ls ns)"

definition handlers_for :: "loggers \<Rightarrow> pystr \<Rightarrow> nat \<Rightarrow> log_handler list" where
  "handlers_for ls name level =
     (if effective_level ls (logger_chain name) \<le> level then called_handlers ls (logger_chain name) else [])"

text \<open>The loggers of the program are \<open>app.request\<close>, \<open>app.cache\<close> and \<open>app.health\<close>. Once logging is
  configured, however often and whatever the root logger has, each of their records from
  the level on is written once, by the JSON formatter.\<close>

lemma logger_chain_app:
  "name \<in> {lit ''app.request'', lit ''app.cache'', lit ''app.health''} \<Longrightarrow>
   logger_chain name = [name, lit ''app'', []] \<and> name \<noteq> lit ''app''"
  by (auto simp: logger_chain_def lit_def)

lemma configure_logging_once:
  assumes "map_of LEVEL_NUMBERS level = Some n" "n \<noteq> 0"
    "name \<in> {lit ''app.request'', lit ''app.cache'', lit ''app.health''}"
    "ls name = fresh_logger" "configure_logging level ls = (r, ls')"
  shows "r = Inr () \<and> handlers_for ls' name k = (if n \<le> k then [StdoutJson] else []) \<and>
    configure_logging level ls' = (r, ls')"
proof -
  have "r = Inr ()"
    "ls' = ls(lit ''app'' := (ls (lit ''app''))\<lparr>lg_handlers := [StdoutJson], lg_level := n, lg_propagate := False\<rparr>)"
    using assms(1,5) by (auto simp: configure_logging_def Let_def)
  moreover have "logger_chain name = [name, lit ''app'', []]" "name \<noteq> lit ''app''"
    using logger_chain_app [OF assms(3)] by simp_all
  ultimately show ?thesis
    using assms(1,2,4) by (simp add: handlers_for_def fresh_logger_def configure_logging_def Let_def)
qed

section \<open>RequestLoggingMiddleware\<close>

datatype message =
  ResponseStart nat "(pystr \<times> pystr) list"
| ResponseBody json

text \<open>The frame of a traceback.\<close>

record frame_summary =
  fr_filename :: pystr
  fr_name :: pystr
  fr_lineno :: int

record asgi_outcome =
  ao_sent :: "message list"
  ao_failure :: "(exn \<times> frame_summary option) option"

type_synonym asgi_app = "world \<Rightarrow> asgi_outcome \<times> world"

definition is_start :: "message \<Rightarrow> bool" where
  "is_start m = (case m of ResponseStart _ _ \<Rightarrow> True | _ \<Rightarrow> False)"

text \<open>\<open>MutableHeaders(...)[name] = value\<close>: the first header of that name is replaced, further
  ones are removed, a new one goes last.\<close>

definition set_header :: "pystr \<Rightarrow> pystr \<Rightarrow> (pystr \<times> pystr) list \<Rightarrow> (pystr \<times> pystr) list" where
  "set_header name value hs =
     (let same = (\<lambda>h. map ascii_lower (fst h) = map ascii_lower name) in
      if list_ex same hs
      then takeWhile (\<lambda>h. \<not> same h) hs @ (map ascii_lower name, value) #
             filter (\<lambda>h. \<not> same h) (dropWhile (\<lambda>h. \<not> same h) hs)
      else hs @ [(map ascii_lower name, value)])"

definition with_request_id :: "pystr \<Rightarrow> message \<Rightarrow> message" where
  "with_request_id request_id m =
     (case m of
        ResponseStart status hs \<Rightarrow> ResponseStart status (set_header (lit ''X-Request-ID'') request_id hs)
      | ResponseBody j \<Rightarrow> ResponseBody j)"

definition last_status :: "nat \<Rightarrow> message list \<Rightarrow> nat" where
  "last_status status ms =
     foldl (\<lambda>s m. case m of ResponseStart c _ \<Rightarrow> c | _ \<Rightarrow> s) status ms"

definition unhandled_entry :: "pystr \<Rightarrow> exn \<Rightarrow> frame_summary option \<Rightarrow> log_entry" where
  "unhandled_entry request_id e fr =
     log_entry_of (lit ''app.request'') (lit ''ERROR'') (lit ''unhandled_request_error'')
       [(lit ''event'', JStr (lit ''unhandled_request_error'')), (lit ''request_id'', JStr request_id),
        (lit ''exception_type'', JStr (type_name e)),
        (lit ''exception_file'', (case fr of None \<Rightarrow> JNull | Some f \<Rightarrow> JStr (fr_filename f))),
        (lit ''exception_function'', (case fr of None \<Rightarrow> JNull | Some f \<Rightarrow> JStr (fr_name f))),
        (lit ''exception_line'', (case fr of None \<Rightarrow> JNull | Some f \<Rightarrow> JInt (fr_lineno f)))]"

definition completed_entry :: "pystr \<Rightarrow> pystr \<Rightarrow> pystr \<Rightarrow> nat \<Rightarrow> json \<Rightarrow> log_entry" where
  "completed_entry request_id meth path status duration =
     log_entry_of (lit ''app.request'') (lit ''INFO'') (lit ''request_completed'')
       [(lit ''event'', JStr (lit ''request_completed'')), (lit ''request_id'', JStr request_id),
        (lit ''method'', JStr meth), (lit ''path'', JStr (redact path)),
        (lit ''status'', JInt (int status)), (lit ''duration_ms'', duration)]"

text \<open>\<open>JSONResponse\<close> as its two messages; the server adds the headers of the body.\<close>

definition response_messages :: "response \<Rightarrow> message list" where
  "response_messages r = [ResponseStart (status_code r) (headers r), ResponseBody (content r)]"

definition INTERNAL_ERROR :: response where
  "INTERNAL_ERROR = error_response 500 (lit ''INTERNAL_ERROR'') (lit ''An internal error occurred'')"

record scope =
  sc_type :: pystr
  sc_method :: pystr
  sc_path :: pystr
  sc_request_id :: "pystr option"

text \<open>\<open>elapsed\<close> is the rounded duration between two worlds.\<close>

definition request_middleware :: "(world \<Rightarrow> world \<Rightarrow> json) \<Rightarrow> asgi_app \<Rightarrow> scope \<Rightarrow> asgi_app" where
  "request_middleware elapsed app sc w =
     (if sc_type sc \<noteq> lit ''http'' then app w
      else (case request_id_of (sc_request_id sc) w of
        (Inl e, w0) \<Rightarrow> (\<lparr>ao_sent = [], ao_failure = Some (e, None)\<rparr>, w0)
      | (Inr request_id, w0) \<Rightarrow>
          (case app w0 of (out, w1) \<Rightarrow>
             (let response_started = list_ex is_start (ao_sent out);
                  (sent, failure, w2) =
                    (case ao_failure out of
                       None \<Rightarrow> (ao_sent out, None, w1)
                     | Some (e, fr) \<Rightarrow>
                         (let w2 = final (emit (unhandled_entry request_id e fr)) w1 in
                          if response_started then (ao_sent out, Some (e, fr), w2)
                          else (ao_sent out @ response_messages INTERNAL_ERROR, None, w2)))
              in (\<lparr>ao_sent = map (with_request_id request_id) sent, ao_failure = failure\<rparr>,
                  final (emit (completed_entry request_id (sc_method sc) (sc_path sc)
                    (last_status 500 sent) (elapsed w0 w2))) w2)))))"

section \<open>Properties\<close>

lemma uuid4_text_pattern: "request_id_pattern (uuid4_text n)"
proof -
  have hexd: "alpha_char c \<or> digit_char c" if "digit_char c \<or> (97 \<le> c \<and> c \<le> 102)" for c
    using that by (auto simp: alpha_char_def)
  have "hd (take 8 (hex_digits 32 n)) \<in> set (hex_digits 32 n)"
    by (metis hd_in_set hd_take length_0_conv length_hex_digits zero_less_numeral zero_neq_numeral)
  then have first: "alpha_char (hd (hex_digits 32 n)) \<or> digit_char (hd (hex_digits 32 n))"
    using hexd hex_digits_chars by (metis hd_take zero_less_numeral)
  have split: "\<exists>c r. take 8 (hex_digits 32 n) = c # r \<and> c = hd (hex_digits 32 n) \<and> length r = 7"
    by (cases "hex_digits 32 n") (use length_hex_digits [of 32 n] in auto)
  have variant: "digit_char (hex_char (8 + n div 16 ^ 15 mod 4)) \<or>
      (97 \<le> hex_char (8 + n div 16 ^ 15 mod 4) \<and> hex_char (8 + n div 16 ^ 15 mod 4) \<le> 102)"
    by (rule hex_char_cases) (use mod_less_divisor [of 4 "n div 16 ^ 15"] in linarith)
  have member: "key_char c" if "c \<in> set (hex_digits 32 n)" for c
    using hexd [OF hex_digits_chars [OF that]] by (auto simp: key_char_def)
  have "\<forall>c\<in>set (uuid4_text n). key_char c \<or> c = 46"
    using member hexd [OF variant]
    by (auto simp: uuid4_text_def Let_def key_char_def lit_def digit_char_def
        dest!: in_set_takeD in_set_dropD)
  moreover have "length (uuid4_text n) = 36"
    by (simp add: uuid4_text_def Let_def lit_def)
  moreover have "uuid4_text n \<noteq> []" "hd (uuid4_text n) = hd (hex_digits 32 n)"
    using split by (auto simp: uuid4_text_def Let_def)
  ultimately show ?thesis
    using first by (cases "uuid4_text n") (auto simp: request_id_pattern_def list_all_iff)
qed

lemma request_id_of_pattern:
  "\<exists>rid. result (request_id_of header) w = Inr rid \<and> request_id_pattern rid"
  by (auto simp: request_id_of_def uuid4_def with_entropy_def Let_def uuid4_text_pattern
      split: option.split prod.split)

text \<open>After redaction no key is left.\<close>

fun contains_key :: "pystr \<Rightarrow> bool" where
  "contains_key [] = False"
| "contains_key (c # r) = (key_at (c # r) \<or> contains_key r)"

lemma redact_simps [simp]:
  "redact [] = []"
  "redact (c # r) =
     (if key_at (c # r) then lit ''ak_[REDACTED]'' @ redact (dropWhile key_char (drop 2 r))
      else c # redact r)"
  by (subst redact.simps; simp add: numeral_eq_Suc)+

lemma not_key_at [simp]: "c \<noteq> 97 \<Longrightarrow> \<not> key_at (c # s)" "\<not> key_at []"
  by (simp_all add: key_at_def split: list.split)

lemma redacted_lit: "lit ''ak_[REDACTED]'' = [97, 107, 95, 91, 82, 69, 68, 65, 67, 84, 69, 68, 93]"
  by (simp add: lit_def)

lemma redact_eq_Nil [simp]: "redact s = [] \<longleftrightarrow> s = []"
  by (cases s) (simp_all add: redacted_lit)

lemma redact_hd: "s \<noteq> [] \<Longrightarrow> hd (redact s) = hd s"
  by (cases s) (auto simp: redacted_lit key_at_def split: list.splits)

lemma contains_key_redacted: "contains_key (lit ''ak_[REDACTED]'' @ t) = contains_key t"
  by (simp add: redacted_lit) (simp add: key_at_def key_char_def alpha_char_def digit_char_def)

text \<open>A character copied in front of redacted text does not complete a key.\<close>

lemma key_at_redact:
  assumes "key_at (c # redact r)"
  shows "key_at (c # r)"
proof -
  obtain k u x t where red: "c = 97" "redact r = k # u # x # t" "k = 107" "u = 95" "key_char x"
    using assms by (auto simp: key_at_def split: list.splits)
  obtain r1 where r1: "r = k # r1" using red redact_hd [of r] by (cases r) auto
  then have "redact r1 = u # x # t" using red by simp
  moreover then obtain r2 where r2: "r1 = u # r2" using redact_hd [of r1] by (cases r1) auto
  ultimately have "redact r2 = x # t" using red by simp
  then obtain r3 where "r2 = x # r3" using redact_hd [of r2] by (cases r2) auto
  then show ?thesis using red r1 r2 by (simp add: key_at_def)
qed

lemma redact_no_key: "\<not> contains_key (redact s)"
proof (induction s rule: redact.induct)
  case (1 s)
  show ?case
  proof (cases s)
    case (Cons c r)
    show ?thesis
    proof (cases "key_at s")
      case True
      then show ?thesis using 1(1) [OF Cons True] Cons by (simp add: contains_key_redacted numeral_eq_Suc)
    next
      case False
      then show ?thesis using 1(2) [OF Cons False] Cons key_at_redact [of c r] by auto
    qed
  qed simp
qed

text \<open>Of a key, only its place shows: the longest run of its characters is replaced.\<close>

lemma ak_lit: "lit ''ak_'' = [97, 107, 95]"
  by (simp add: lit_def)

lemma dropWhile_key: "list_all key_char k \<Longrightarrow> dropWhile key_char (k @ v) = dropWhile key_char v"
  by (induction k) auto

lemma key_prefix_chars: "list_all key_char (lit ''ak_'')"
  by (simp add: ak_lit key_char_def alpha_char_def)

lemma redact_key:
  assumes "k \<noteq> []" "list_all key_char k"
  shows "redact (lit ''ak_'' @ k @ v) = lit ''ak_[REDACTED]'' @ redact (dropWhile key_char v)"
  using assms dropWhile_key [of k v] by (cases k) (simp_all add: ak_lit key_at_def)

text \<open>Whether a key starts within \<open>u\<close> does not depend on the characters of the key after it.\<close>

lemma key_at_before:
  assumes "u \<noteq> []"
  shows "key_at (u @ lit ''ak_'' @ s) = key_at (u @ lit ''ak_'' @ t)"
proof -
  obtain a r where u: "u = a # r" using assms by (cases u) auto
  show ?thesis
  proof (cases r)
    case (Cons b r2)
    then show ?thesis
      by (cases r2; cases "tl r2") (auto simp: u ak_lit key_at_def)
  qed (simp add: u ak_lit key_at_def)
qed

lemma redact_hides:
  assumes k: "k \<noteq> []" "list_all key_char k" and k': "k' \<noteq> []" "list_all key_char k'"
  shows "redact (u @ lit ''ak_'' @ k @ v) = redact (u @ lit ''ak_'' @ k' @ v)"
proof (induction "length u" arbitrary: u rule: less_induct)
  case less
  show ?case
  proof (cases u)
    case Nil
    then show ?thesis using redact_key [OF k, of v] redact_key [OF k', of v] by simp
  next
    case (Cons c r)
    have same: "key_at (u @ lit ''ak_'' @ k @ v) = key_at (u @ lit ''ak_'' @ k' @ v)"
      by (rule key_at_before) (simp add: Cons)
    show ?thesis
    proof (cases "key_at (u @ lit ''ak_'' @ k @ v)")
      case True
      have "3 \<le> length u"
      proof (rule ccontr)
        assume "\<not> 3 \<le> length u"
        then have "length r < 2" using Cons by simp
        then have "length r = 0 \<or> length r = 1" by linarith
        then show False using True Cons by (auto simp: length_Suc_conv ak_lit key_at_def)
      qed
      then obtain b d w where w: "u = c # b # d # w" using Cons by (auto simp: numeral_eq_Suc Suc_le_length_iff)
      have "redact (dropWhile key_char (w @ lit ''ak_'' @ k @ v)) = redact (dropWhile key_char (w @ lit ''ak_'' @ k' @ v))"
      proof (cases "list_all key_char w")
        case True
        then show ?thesis using key_prefix_chars k(2) k'(2) by (simp add: dropWhile_key)
      next
        case False
        then obtain x where "x \<in> set w" "\<not> key_char x" by (auto simp: list_all_iff)
        then have drop: "dropWhile key_char (w @ y) = dropWhile key_char w @ y" for y by (rule dropWhile_append1)
        have "length (dropWhile key_char w) < length u"
          using length_dropWhile_le [of key_char w] w by simp
        from less [OF this] show ?thesis unfolding drop .
      qed
      then show ?thesis using True same by (simp add: w)
    next
      case False
      have "redact (r @ lit ''ak_'' @ k @ v) = redact (r @ lit ''ak_'' @ k' @ v)" by (rule less) (simp add: Cons)
      then show ?thesis using False same by (simp add: Cons)
    qed
  qed
qed

lemma redact_first_key:
  assumes "k \<noteq> []" "list_all key_char k"
  shows "\<not> contains_key (u @ lit ''ak_'') \<Longrightarrow>
    redact (u @ lit ''ak_'' @ k @ v) = u @ lit ''ak_[REDACTED]'' @ redact (dropWhile key_char v)"
proof (induction u)
  case (Cons c r)
  have "key_at ((c # r) @ lit ''ak_'' @ k @ v) = key_at ((c # r) @ lit ''ak_'')"
    using key_at_before [of "c # r" "k @ v" "[]"] by simp
  then show ?case using Cons by simp
qed (simp add: redact_key [OF assms])

text \<open>What a key is, from the pattern alone: \<open>ak_\<close> and at least one of \<open>A-Z\<close>, \<open>a-z\<close>, \<open>0-9\<close>, \<open>_\<close>, \<open>-\<close>.\<close>

definition secret_char :: "nat \<Rightarrow> bool" where
  "secret_char c \<longleftrightarrow> 65 \<le> c \<and> c \<le> 90 \<or> 97 \<le> c \<and> c \<le> 122 \<or> 48 \<le> c \<and> c \<le> 57 \<or> c = 95 \<or> c = 45"

definition holds_key :: "pystr \<Rightarrow> bool" where
  "holds_key s \<longleftrightarrow> (\<exists>u c v. s = u @ lit ''ak_'' @ c # v \<and> secret_char c)"

lemma secret_char_key: "secret_char = key_char"
  by (auto simp: fun_eq_iff secret_char_def key_char_def alpha_char_def digit_char_def)

lemma key_at_iff: "key_at s \<longleftrightarrow> (\<exists>c v. s = lit ''ak_'' @ c # v \<and> key_char c)"
  by (auto simp: key_at_def ak_lit split: list.split)

lemma holds_key_iff: "holds_key s \<longleftrightarrow> contains_key s"
proof (induction s)
  case (Cons a s)
  have "holds_key (a # s) \<longleftrightarrow> key_at (a # s) \<or> holds_key s"
  proof
    assume "holds_key (a # s)"
    then obtain u c v where "a # s = u @ lit ''ak_'' @ c # v" "key_char c"
      by (auto simp: holds_key_def secret_char_key)
    then show "key_at (a # s) \<or> holds_key s"
      by (cases u) (simp_all add: key_at_iff holds_key_def secret_char_key, blast+)
  next
    assume "key_at (a # s) \<or> holds_key s"
    then show "holds_key (a # s)"
      unfolding holds_key_def key_at_iff secret_char_key by (metis append_Cons append_Nil)
  qed
  then show ?case using Cons by simp
qed (simp add: holds_key_def)

text \<open>Every response to an HTTP request carries one valid identifier, exactly once.\<close>

definition header_values :: "pystr \<Rightarrow> (pystr \<times> pystr) list \<Rightarrow> pystr list" where
  "header_values name hs =
     map snd (filter (\<lambda>h. map ascii_lower (fst h) = map ascii_lower name) hs)"

lemma ascii_lower_idem [simp]: "ascii_lower (ascii_lower c) = ascii_lower c"
  by (simp add: ascii_lower_def)

lemma set_header_values: "header_values name (set_header name value hs) = [value]"
  by (auto simp: header_values_def set_header_def Let_def comp_def filter_empty_conv list_ex_iff
      dest!: set_takeWhileD)

text \<open>The outcome of the middleware, whatever the application does: one identifier for the
  whole response, an unhandled exception answered when nothing was sent, and the log
  completed last.\<close>

lemma request_middleware_outcome:
  assumes "sc_type sc = lit ''http''" "request_middleware elapsed app sc w = (out, w')"
  shows "\<exists>rid w0 inner w1. request_id_pattern rid \<and> request_id_of (sc_request_id sc) w = (Inr rid, w0) \<and>
     app w0 = (inner, w1) \<and>
     ao_sent out = map (with_request_id rid)
       (ao_sent inner @ (if ao_failure inner \<noteq> None \<and> \<not> list_ex is_start (ao_sent inner)
          then response_messages INTERNAL_ERROR else [])) \<and>
     ao_failure out = (if list_ex is_start (ao_sent inner) then ao_failure inner else None) \<and>
     redis w' = redis w1 \<and> database w' = database w1 \<and>
     (\<exists>duration. last (logs w') = completed_entry rid (sc_method sc) (sc_path sc)
        (last_status 500 (ao_sent out)) duration)"
proof -
  obtain rid where rid: "result (request_id_of (sc_request_id sc)) w = Inr rid" "request_id_pattern rid"
    using request_id_of_pattern by blast
  obtain w0 where w0: "request_id_of (sc_request_id sc) w = (Inr rid, w0)"
    using rid(1) by (metis prod.collapse)
  obtain inner w1 where app: "app w0 = (inner, w1)" by fastforce
  have status_append: "last_status st (ms @ ns) = last_status (last_status st ms) ns" for st ms ns
    by (simp add: last_status_def)
  have foldl_status: "last_status st (map (with_request_id rid) ms) = last_status st ms" for st ms
    by (induction ms arbitrary: st) (auto simp: last_status_def with_request_id_def split: message.split)
  have sent: "ao_sent out = map (with_request_id rid)
       (ao_sent inner @ (if ao_failure inner \<noteq> None \<and> \<not> list_ex is_start (ao_sent inner)
          then response_messages INTERNAL_ERROR else []))"
    and failure: "ao_failure out = (if list_ex is_start (ao_sent inner) then ao_failure inner else None)"
    and same: "redis w' = redis w1" "database w' = database w1"
    using assms w0 app
    by (auto simp: request_middleware_def Let_def emit_def split: option.splits if_splits)
  have log: "\<exists>duration. last (logs w') = completed_entry rid (sc_method sc) (sc_path sc)
        (last_status 500 (ao_sent out)) duration"
    using assms w0 app
    by (auto simp: request_middleware_def Let_def emit_def foldl_status status_append
        intro!: exI split: option.splits if_splits)
  show ?thesis using rid(2) w0 app sent failure same log by blast
qed

end
