(* ===== verification/Connections.thy ===== *)
theory Connections
  imports Config IngestionRepository Logging
begin

text \<open>
  \<open>app/core/database.py\<close> and \<open>app/core/redis.py\<close>: how the clients of the two services are
  configured from the settings. The constructors of SQLAlchemy and redis-py are
  parameters; what the program asks of them is the value it passes. Then the clients that
  are open: constructing one and closing it are recorded apart, and an \<open>AsyncExitStack\<close> runs
  only the callbacks that were pushed on it.
\<close>

section \<open>PostgreSQL\<close>

record tls_context =
  tls_verify_required :: bool
  tls_check_hostname :: bool
  tls_partial_chain :: bool
  tls_x509_strict :: bool
  tls_default_certs :: bool

record connect_args =
  ca_timeout :: rat
  ca_command_timeout :: rat
  ca_ssl :: "tls_context option"

text \<open>\<open>ssl.SSLContext(ssl.PROTOCOL_TLS_CLIENT)\<close> with the settings the code makes on it.\<close>

definition client_tls_context :: tls_context where
  "client_tls_context =
     \<lparr>tls_verify_required = True, tls_check_hostname = True, tls_partial_chain = True,
      tls_x509_strict = True, tls_default_certs = True\<rparr>"

definition database_connect_args :: "unicode_db \<Rightarrow> 'a postgres_settings_scheme \<Rightarrow> exn + connect_args" where
  "database_connect_args u settings =
     (case database_requires_tls u settings of
        Inl e \<Rightarrow> Inl e
      | Inr tls \<Rightarrow>
          Inr \<lparr>ca_timeout = ps_dependency_timeout_seconds settings,
               ca_command_timeout = ps_dependency_timeout_seconds settings,
               ca_ssl = (if tls then Some client_tls_context else None)\<rparr>)"

text \<open>\<open>create_async_engine(url, connect_args=..., pool_pre_ping=True)\<close> is \<open>make_engine\<close>; the
  session factory over the engine is what its sessions are connected to.\<close>

definition create_database ::
  "(pystr \<Rightarrow> connect_args \<Rightarrow> exn + 'engine) \<Rightarrow> unicode_db \<Rightarrow> 'a postgres_settings_scheme \<Rightarrow> exn + 'engine"
where
  "create_database make_engine u settings =
     (case database_connect_args u settings of
        Inl e \<Rightarrow> Inl e
      | Inr connect_args \<Rightarrow> make_engine (ps_database_url settings) connect_args)"

text \<open>\<open>get_session\<close>: without a session factory the request is answered with 503.\<close>

definition get_session :: "'f option \<Rightarrow> exn + 'f" where
  "get_session session_factory =
     (case session_factory of None \<Rightarrow> Inl SERVICE_UNAVAILABLE | Some f \<Rightarrow> Inr f)"

section \<open>Redis\<close>

record redis_options =
  ro_decode_responses :: bool
  ro_socket_connect_timeout :: rat
  ro_socket_timeout :: rat
  ro_max_connections :: int
  ro_ssl_cert_required :: bool
  ro_ssl_check_hostname :: bool

record redis_settings =
  rs_redis_url :: pystr
  rs_dependency_timeout_seconds :: rat
  rs_redis_max_connections :: int

definition redis_client_options :: "unicode_db \<Rightarrow> redis_settings \<Rightarrow> exn + redis_options" where
  "redis_client_options u settings =
     (case urlsplit u (rs_redis_url settings) of
        Inl e \<Rightarrow> Inl e
      | Inr parsed \<Rightarrow>
          (let tls = (sp_scheme parsed = lit ''rediss'') in
           Inr \<lparr>ro_decode_responses = True,
                ro_socket_connect_timeout = rs_dependency_timeout_seconds settings,
                ro_socket_timeout = rs_dependency_timeout_seconds settings,
                ro_max_connections = rs_redis_max_connections settings,
                ro_ssl_cert_required = tls, ro_ssl_check_hostname = tls\<rparr>))"

definition create_redis ::
  "(pystr \<Rightarrow> redis_options \<Rightarrow> exn + 'client) \<Rightarrow> unicode_db \<Rightarrow> redis_settings \<Rightarrow> exn + 'client" where
  "create_redis from_url u settings =
     (case redis_client_options u settings of
        Inl e \<Rightarrow> Inl e
      | Inr options \<Rightarrow> from_url (rs_redis_url settings) options)"

text \<open>Of the client, what the readiness check asks: what \<open>ping\<close> returns.\<close>

record redis_health_client =
  rh_ping :: "redis_store \<Rightarrow> bool"

definition app_redis_settings :: "app_settings \<Rightarrow> redis_settings" where
  "app_redis_settings s =
     \<lparr>rs_redis_url = as_redis_url s, rs_dependency_timeout_seconds = ps_dependency_timeout_seconds s,
      rs_redis_max_connections = as_redis_max_connections s\<rparr>"

definition ingestion_redis_settings :: "ingestion_settings \<Rightarrow> redis_settings" where
  "ingestion_redis_settings s =
     \<lparr>rs_redis_url = ig_redis_url s, rs_dependency_timeout_seconds = ps_dependency_timeout_seconds s,
      rs_redis_max_connections = ig_redis_max_connections s\<rparr>"

text \<open>A validated URL splits, so the clients' configuration is always defined, and a
  remote service is never spoken to without a verified certificate.\<close>

lemma database_connect_args_total:
  assumes "database_url_ok u (ps_database_url settings)"
  obtains args where "database_connect_args u settings = Inr args"
  by (rule database_url_split [OF assms]) (auto simp: database_connect_args_def database_requires_tls_def)

lemma redis_client_options_total:
  assumes "redis_url_ok u (rs_redis_url settings)"
  obtains options where "redis_client_options u settings = Inr options"
  by (rule redis_url_split [OF assms]) (auto simp: redis_client_options_def Let_def)

section \<open>AsyncExitStack\<close>

text \<open>The clients of a process: what it opened and what it closed, in this order, and the
  callbacks of the exit stack that it is in, the latest first. A callback closes a client;
  the exception, if any, is what closing it raises.\<close>

datatype resource = DatabaseEngine | RedisClient | ClerkClient

record clients =
  cl_opened :: "resource list"
  cl_closed :: "resource list"
  cl_callbacks :: "(resource \<times> exn option) list"

record server =
  sv_world :: world
  sv_clients :: clients
  sv_loggers :: loggers

definition no_clients :: clients where
  "no_clients = \<lparr>cl_opened = [], cl_closed = [], cl_callbacks = []\<rparr>"

definition on_world :: "'a prog \<Rightarrow> ('b server_scheme, exn, 'a) io" where
  "on_world m p = (case m (sv_world p) of (r, w) \<Rightarrow> (r, p\<lparr>sv_world := w\<rparr>))"

definition on_loggers :: "(loggers, exn, 'a) io \<Rightarrow> ('b server_scheme, exn, 'a) io" where
  "on_loggers m p = (case m (sv_loggers p) of (r, ls) \<Rightarrow> (r, p\<lparr>sv_loggers := ls\<rparr>))"

definition on_clients :: "(clients \<Rightarrow> clients) \<Rightarrow> ('b server_scheme, exn, unit) io" where
  "on_clients f = modifyM (\<lambda>p. p\<lparr>sv_clients := f (sv_clients p)\<rparr>)"

text \<open>A constructor that returns has opened its client, whatever happens to it afterwards.\<close>

definition open_client :: "resource \<Rightarrow> exn + 'a \<Rightarrow> ('b server_scheme, exn, 'a) io" where
  "open_client r made =
     bindM (liftM made) (\<lambda>client.
     bindM (on_clients (\<lambda>c. c\<lparr>cl_opened := cl_opened c @ [r]\<rparr>)) (\<lambda>_. ret client))"

definition close_client :: "resource \<Rightarrow> exn option \<Rightarrow> ('b server_scheme, exn, unit) io" where
  "close_client r failure =
     bindM (on_clients (\<lambda>c. c\<lparr>cl_closed := cl_closed c @ [r]\<rparr>)) (\<lambda>_.
       case failure of None \<Rightarrow> ret () | Some e \<Rightarrow> raise e)"

definition push_async_callback :: "resource \<Rightarrow> exn option \<Rightarrow> ('b server_scheme, exn, unit) io" where
  "push_async_callback r failure = on_clients (\<lambda>c. c\<lparr>cl_callbacks := (r, failure) # cl_callbacks c\<rparr>)"

text \<open>\<open>enter_async_context\<close> enters the context manager and pushes its exit.\<close>

definition enter_async_context :: "resource \<Rightarrow> exn option \<Rightarrow> ('b server_scheme, exn, unit) io" where
  "enter_async_context r failure =
     bindM (open_client r (Inr ())) (\<lambda>_. push_async_callback r failure)"

text \<open>The callbacks run from the latest to the first, each whatever the others raised; what is
  raised last stands.\<close>

fun unwind :: "(resource \<times> exn option) list \<Rightarrow> ('b server_scheme, exn, unit) io" where
  "unwind [] = ret ()"
| "unwind ((r, failure) # callbacks) = finallyM (close_client r failure) (unwind callbacks)"

definition set_callbacks :: "(resource \<times> exn option) list \<Rightarrow> ('b server_scheme, exn, unit) io" where
  "set_callbacks callbacks = on_clients (\<lambda>c. c\<lparr>cl_callbacks := callbacks\<rparr>)"

text \<open>\<open>async with AsyncExitStack() as stack\<close>\<close>

definition stack_exit :: "(resource \<times> exn option) list \<Rightarrow> ('b server_scheme, exn, unit) io" where
  "stack_exit outer =
     bindM (getsM (\<lambda>p. cl_callbacks (sv_clients p))) (\<lambda>callbacks.
     bindM (set_callbacks outer) (\<lambda>_. unwind callbacks))"

definition async_exit_stack :: "('b server_scheme, exn, 'a) io \<Rightarrow> ('b server_scheme, exn, 'a) io" where
  "async_exit_stack body =
     bindM (getsM (\<lambda>p. cl_callbacks (sv_clients p))) (\<lambda>outer.
     bindM (set_callbacks []) (\<lambda>_. finallyM body (stack_exit outer)))"

subsection \<open>What an exit stack closes\<close>

lemma on_clients_run [simp]: "on_clients f p = (Inr (), p\<lparr>sv_clients := f (sv_clients p)\<rparr>)"
  by (simp add: on_clients_def)

lemma open_client_run:
  "open_client r (Inl e) p = (Inl e, p)"
  "open_client r (Inr a) p = (Inr a, p\<lparr>sv_clients := (sv_clients p)\<lparr>cl_opened := cl_opened (sv_clients p) @ [r]\<rparr>\<rparr>)"
  by (simp_all add: open_client_def bindM_def)

lemma open_push_bind:
  "bindM (open_client r (Inl e)) f p = (Inl e, p)"
  "bindM (open_client r (Inr a)) f p =
     f a (p\<lparr>sv_clients := (sv_clients p)\<lparr>cl_opened := cl_opened (sv_clients p) @ [r]\<rparr>\<rparr>)"
  "bindM (push_async_callback r failure) g p =
     g () (p\<lparr>sv_clients := (sv_clients p)\<lparr>cl_callbacks := (r, failure) # cl_callbacks (sv_clients p)\<rparr>\<rparr>)"
  by (simp_all add: bindM_def open_client_run push_async_callback_def)

lemma frame_on_clients [frame_intros]:
  "frame sv_clients (on_world m)" "frame sv_clients (on_loggers ml)" "frame sv_world (on_loggers ml)"
  "frame sv_world (on_clients f)" "frame sv_world (set_callbacks cs)" "frame sv_world (push_async_callback r failure)"
  by (auto simp: frame_def on_world_def on_loggers_def set_callbacks_def push_async_callback_def split: prod.split)

lemma frame_case_prod [frame_intros]:
  "(\<And>a b. frame sel (f a b)) \<Longrightarrow> frame sel (case x of (a, b) \<Rightarrow> f a b)"
  by (cases x) simp

lemma final_finallyM: "final (finallyM m f) s = final f (final m s)"
  by (simp add: finallyM_def split: prod.split sum.split)

lemma finallyM_InrD: "finallyM m f s = (Inr a, t) \<Longrightarrow> \<exists>u. m s = (Inr a, u) \<and> t = final f u"
  by (auto simp: finallyM_def split: prod.splits sum.splits)

text \<open>Closing touches nothing but the record of what is closed, and reaches every callback.\<close>

lemma close_client_final:
  "final (close_client r failure) p = p\<lparr>sv_clients := (sv_clients p)\<lparr>cl_closed := cl_closed (sv_clients p) @ [r]\<rparr>\<rparr>"
  by (cases failure) (simp_all add: close_client_def bindM_def)

lemma unwind_closes:
  "final (unwind cs) p =
     p\<lparr>sv_clients := (sv_clients p)\<lparr>cl_closed := cl_closed (sv_clients p) @ map fst cs\<rparr>\<rparr>"
  by (induction cs arbitrary: p rule: unwind.induct) (simp_all add: final_finallyM close_client_final)

text \<open>Inside a stack that was entered with \<open>os\<close> opened and \<open>cs\<close> closed: everything opened since then has
  its callback, nothing is closed yet.\<close>

definition stacked :: "resource list \<Rightarrow> resource list \<Rightarrow> 'b server_scheme \<Rightarrow> bool" where
  "stacked os cs p \<longleftrightarrow>
     cl_opened (sv_clients p) = os @ rev (map fst (cl_callbacks (sv_clients p))) \<and>
     cl_closed (sv_clients p) = cs"

lemma stacked_frame: "frame sv_clients m \<Longrightarrow> keeps (stacked os cs) m"
  by (simp add: keeps_def stacked_def frame_def)

text \<open>A client that is opened and pushed before anything can fail keeps the stack complete.\<close>

lemma stacked_open_push [keeps_intros]:
  assumes "\<And>a. keeps (stacked os cs) (k a)"
  shows "keeps (stacked os cs) (bindM (open_client r made) (\<lambda>a. bindM (push_async_callback r failure) (\<lambda>_. k a)))"
proof (cases made)
  case (Inr a)
  have "stacked os cs (final (k a) (p\<lparr>sv_clients := (sv_clients p)\<lparr>cl_opened := cl_opened (sv_clients p) @ [r],
      cl_callbacks := (r, failure) # cl_callbacks (sv_clients p)\<rparr>\<rparr>))" if "stacked os cs p" for p
    using that by (intro keepsD [OF assms]) (simp add: stacked_def)
  then show ?thesis using Inr by (simp add: keeps_def bindM_def open_client_run push_async_callback_def)
qed (simp add: keeps_def bindM_def open_client_run)

lemma stacked_enter [keeps_intros]: "keeps (stacked os cs) (enter_async_context r failure)"
  by (simp add: keeps_def stacked_def enter_async_context_def bindM_def open_client_run push_async_callback_def)

text \<open>A process that has closed, in reverse order, what it opened, and has left its stacks.\<close>

definition all_closed :: "clients \<Rightarrow> clients \<Rightarrow> bool" where
  "all_closed c c' \<longleftrightarrow> cl_callbacks c' = cl_callbacks c \<and>
     (\<exists>rs. cl_opened c' = cl_opened c @ rs \<and> cl_closed c' = cl_closed c @ rev rs)"

lemma all_closed_refl [simp]: "all_closed c c"
  by (simp add: all_closed_def)

lemma stack_exit_final:
  "final (stack_exit outer) q = q\<lparr>sv_clients := (sv_clients q)\<lparr>cl_callbacks := outer,
     cl_closed := cl_closed (sv_clients q) @ map fst (cl_callbacks (sv_clients q))\<rparr>\<rparr>"
  by (simp add: stack_exit_def bindM_def set_callbacks_def unwind_closes)

lemma async_exit_stack_run:
  "async_exit_stack body p =
     finallyM body (stack_exit (cl_callbacks (sv_clients p))) (p\<lparr>sv_clients := (sv_clients p)\<lparr>cl_callbacks := []\<rparr>\<rparr>)"
  by (simp add: async_exit_stack_def bindM_def set_callbacks_def)

lemma async_exit_stack_final:
  assumes "stacked (cl_opened c) (cl_closed c) (final body (p\<lparr>sv_clients := (sv_clients p)\<lparr>cl_callbacks := []\<rparr>\<rparr>))"
    "cl_callbacks (sv_clients p) = cl_callbacks c"
  shows "all_closed c (sv_clients (final (async_exit_stack body) p))"
  using assms unfolding async_exit_stack_run final_finallyM stack_exit_final all_closed_def stacked_def
  by (auto intro!: exI [of _ "rev (map fst (cl_callbacks (sv_clients
      (final body (p\<lparr>sv_clients := (sv_clients p)\<lparr>cl_callbacks := []\<rparr>\<rparr>)))))"])

lemma async_exit_stack_closes:
  assumes "\<And>os cs. keeps (stacked os cs) body"
  shows "all_closed (sv_clients p) (sv_clients (final (async_exit_stack body) p))"
  by (rule async_exit_stack_final, rule keepsD [OF assms]) (simp_all add: stacked_def)

text \<open>What was done before the clients are opened does not matter.\<close>

lemma all_closed_bindM:
  assumes "frame sv_clients m" "\<And>a q. all_closed (sv_clients q) (sv_clients (final (f a) q))"
  shows "all_closed (sv_clients p) (sv_clients (final (bindM m f) p))"
proof (cases "m p")
  case (Pair r q)
  then have "sv_clients q = sv_clients p" using frame_eq [OF assms(1)] by simp
  then show ?thesis using Pair assms(2) [of q] by (cases r) (simp_all add: bindM_def)
qed

text \<open>One client between \<open>try\<close> and \<open>finally\<close>.\<close>

lemma open_finally_closes:
  assumes "\<And>a. frame sv_clients (m a)"
  shows "all_closed (sv_clients p) (sv_clients (final (bindM (open_client r made) (\<lambda>a. finallyM (m a) (close_client r failure))) p))"
proof (cases made)
  case (Inr a)
  then show ?thesis
    using frameD [OF assms]
    by (simp add: bindM_def open_client_run final_finallyM close_client_final all_closed_def)
qed (simp add: bindM_def open_client_run)

text \<open>A stack returns what its body returned, and leaves the world as the body did.\<close>

lemma async_exit_stack_Inr:
  assumes "async_exit_stack body p = (Inr a, p')"
  obtains q where "body (p\<lparr>sv_clients := (sv_clients p)\<lparr>cl_callbacks := []\<rparr>\<rparr>) = (Inr a, q)" "sv_world p' = sv_world q"
  using finallyM_InrD [OF assms [unfolded async_exit_stack_run]] that by (auto simp: stack_exit_final)

end
