(* ===== verification/IngestionLoader.thy ===== *)
theory IngestionLoader
  imports IngestionSchemas
begin

text \<open>
  \<open>app/ingestion/loader.py\<close>: opening the snapshot component by component without
  following a symbolic link, reading at most one byte more than the limit, decoding
  and validating it. The state is the file system with the table of open
  descriptors; the calls of the operating system can fail by schedule.
\<close>

section \<open>The file system\<close>

datatype inode_kind =
  RegularFile pybytes
| Directory "pystr \<rightharpoonup> nat"
| SymbolicLink
| Special \<comment> \<open>FIFOs and devices\<close>

record file_system =
  fs_inodes :: "nat \<rightharpoonup> inode_kind"
  fs_root :: nat
  fs_cwd :: nat
  fs_descriptors :: "(nat \<times> nat) list" \<comment> \<open>open descriptors and their inodes\<close>
  fs_faults :: "exn option list" \<comment> \<open>of \<open>open\<close>, \<open>fstat\<close> and \<open>read\<close>\<close>
  fs_close_faults :: "exn option list"

type_synonym 'a fsio = "(file_system, exn, 'a) io"

definition os_call :: "'a fsio \<Rightarrow> 'a fsio" where
  "os_call k s =
     (case fs_faults s of
        [] \<Rightarrow> k s
      | None # fs \<Rightarrow> k (s\<lparr>fs_faults := fs\<rparr>)
      | Some e # fs \<Rightarrow> (Inl e, s\<lparr>fs_faults := fs\<rparr>))"

definition fresh_descriptor :: "file_system \<Rightarrow> nat" where
  "fresh_descriptor s = Suc (foldr max (map fst (fs_descriptors s)) 2)"

definition inode_kind_of :: "file_system \<Rightarrow> nat \<Rightarrow> inode_kind option" where
  "inode_kind_of s fd =
     (case map_of (fs_descriptors s) fd of None \<Rightarrow> None | Some n \<Rightarrow> fs_inodes s n)"

text \<open>\<open>os.open\<close> of an inode with \<open>O_NOFOLLOW\<close>, and \<open>O_DIRECTORY\<close> when a directory is asked
  for.\<close>

definition is_directory :: "inode_kind \<Rightarrow> bool" where
  "is_directory k = (case k of Directory _ \<Rightarrow> True | _ \<Rightarrow> False)"

definition open_inode :: "bool \<Rightarrow> nat option \<Rightarrow> nat fsio" where
  "open_inode directory n s =
     (case n of
        None \<Rightarrow> (Inl OSError, s)
      | Some i \<Rightarrow>
          (case fs_inodes s i of
             None \<Rightarrow> (Inl OSError, s)
           | Some k \<Rightarrow>
               if k = SymbolicLink \<or> (directory \<and> \<not> is_directory k) then (Inl OSError, s)
               else (let fd = fresh_descriptor s in
                     (Inr fd, s\<lparr>fs_descriptors := (fd, i) # fs_descriptors s\<rparr>))))"

text \<open>A name that the file system encoding cannot express is refused by Python itself.\<close>

definition name_error :: "pystr \<Rightarrow> exn option" where
  "name_error part =
     (if \<not> list_all (\<lambda>c. scalar c \<or> (56448 \<le> c \<and> c \<le> 56575)) part then Some UnicodeEncodeError
      else if 0 \<in> set part then Some (ValueError (lit ''embedded null byte'')) else None)"

definition os_open_at :: "bool \<Rightarrow> nat \<Rightarrow> pystr \<Rightarrow> nat fsio" where
  "os_open_at directory dir_fd part s =
     (case name_error part of
        Some e \<Rightarrow> (Inl e, s)
      | None \<Rightarrow>
          os_call (\<lambda>s. open_inode directory
            (case inode_kind_of s dir_fd of Some (Directory entries) \<Rightarrow> entries part | _ \<Rightarrow> None) s) s)"

definition os_close :: "nat \<Rightarrow> unit fsio" where
  "os_close fd s =
     (if fd \<notin> fst ` set (fs_descriptors s) then (Inl OSError, s)
      else (let s' = s\<lparr>fs_descriptors := filter (\<lambda>d. fst d \<noteq> fd) (fs_descriptors s)\<rparr> in
            case fs_close_faults s of
              [] \<Rightarrow> (Inr (), s')
            | None # fs \<Rightarrow> (Inr (), s'\<lparr>fs_close_faults := fs\<rparr>)
            | Some e # fs \<Rightarrow> (Inl e, s'\<lparr>fs_close_faults := fs\<rparr>)))"

section \<open>Opening the snapshot\<close>

text \<open>\<open>pathlib.Path\<close>: of an absolute path, the first of the parts is the anchor.\<close>

record path =
  path_absolute :: bool
  path_parts :: "pystr list"

definition MAX_SNAPSHOT_BYTES :: nat where "MAX_SNAPSHOT_BYTES = 5242880"

definition not_regular :: exn where
  "not_regular = SnapshotLoadError (lit ''Snapshot path is not a regular file'')"

text \<open>The loop over the directories. The local variable \<open>directory_descriptor\<close>, which the
  \<open>finally\<close> clause closes, is returned in every case.\<close>

primrec open_directories :: "nat \<Rightarrow> pystr list \<Rightarrow> file_system \<Rightarrow> (exn + unit) \<times> nat \<times> file_system" where
  "open_directories directory_descriptor [] s = (Inr (), directory_descriptor, s)"
| "open_directories directory_descriptor (part # parts) s =
     (case os_open_at True directory_descriptor part s of
        (Inl e, s1) \<Rightarrow> (Inl e, directory_descriptor, s1)
      | (Inr next_descriptor, s1) \<Rightarrow>
          (case os_close directory_descriptor s1 of
             (Inl e, s2) \<Rightarrow> (Inl e, directory_descriptor, s2)
           | (Inr _, s2) \<Rightarrow> open_directories next_descriptor parts s2))"

definition open_parts :: "nat \<Rightarrow> pystr list \<Rightarrow> file_system \<Rightarrow> (exn + nat) \<times> nat \<times> file_system" where
  "open_parts directory_descriptor parts s =
     (if parts = [] then (Inl not_regular, directory_descriptor, s)
      else (case open_directories directory_descriptor (butlast parts) s of
              (Inl e, d, s1) \<Rightarrow> (Inl e, d, s1)
            | (Inr _, d, s1) \<Rightarrow>
                (case os_open_at False d (last parts) s1 of (r, s2) \<Rightarrow> (r, d, s2))))"

definition open_snapshot_descriptor :: "bool \<Rightarrow> path \<Rightarrow> nat fsio" where
  "open_snapshot_descriptor supported path =
     (if supported then
        bindM (\<lambda>s. os_call (open_inode True (Some (if path_absolute path then fs_root s else fs_cwd s))) s)
          (\<lambda>directory_descriptor s.
             case open_parts directory_descriptor
                    (if path_absolute path then tl (path_parts path) else path_parts path) s of
               (r, d, s') \<Rightarrow> finallyM (liftM r) (os_close d) s')
      else raise (SnapshotLoadError (lit ''Secure snapshot opening is unavailable'')))"

section \<open>Reading it\<close>

definition os_fstat :: "nat \<Rightarrow> inode_kind fsio" where
  "os_fstat fd = os_call (\<lambda>s. (case inode_kind_of s fd of None \<Rightarrow> Inl OSError | Some k \<Rightarrow> Inr k, s))"

text \<open>\<open>snapshot_file.read(n)\<close>\<close>

definition file_read :: "nat \<Rightarrow> nat \<Rightarrow> pybytes fsio" where
  "file_read fd n =
     os_call (\<lambda>s. (case inode_kind_of s fd of
                     Some (RegularFile bytes) \<Rightarrow> Inr (take n bytes) | _ \<Rightarrow> Inl OSError, s))"

text \<open>Until \<open>os.fdopen\<close> the descriptor is closed by the \<open>finally\<close> clause, from then on by the
  file object's \<open>with\<close>.\<close>

definition read_snapshot_bytes :: "bool \<Rightarrow> path \<Rightarrow> pybytes fsio" where
  "read_snapshot_bytes supported path =
     bindM (open_snapshot_descriptor supported path) (\<lambda>descriptor.
       bindM (\<lambda>s. case os_fstat descriptor s of
                    (Inr (RegularFile _), s') \<Rightarrow> (Inr (), s')
                  | (Inr _, s') \<Rightarrow> finallyM (raise not_regular) (os_close descriptor) s'
                  | (Inl e, s') \<Rightarrow> finallyM (raise e) (os_close descriptor) s')
         (\<lambda>_. finallyM (file_read descriptor (MAX_SNAPSHOT_BYTES + 1)) (os_close descriptor)))"

definition load_snapshot :: "validation_lib \<Rightarrow> nat \<Rightarrow> bool \<Rightarrow> path \<Rightarrow> item_snapshot fsio" where
  "load_snapshot lib recursion supported path =
     bindM (catchM (read_snapshot_bytes supported path)
              (\<lambda>e. if is_OSError e \<or> is_UnicodeError e
                   then Some (raise (SnapshotLoadError (lit ''Unable to read snapshot''))) else None))
       (\<lambda>raw_content.
        if MAX_SNAPSHOT_BYTES < length raw_content
        then raise (SnapshotLoadError (lit ''Snapshot is too large''))
        else (case (case utf8_decode raw_content of
                      None \<Rightarrow> None | Some txt \<Rightarrow> json_loads recursion txt) of
                None \<Rightarrow> raise (SnapshotLoadError (lit ''Snapshot contains invalid JSON''))
              | Some payload \<Rightarrow> liftM (model_validate_snapshot lib payload)))"

section \<open>Every descriptor is closed\<close>

definition closes_succeed :: "file_system \<Rightarrow> bool" where
  "closes_succeed s \<longleftrightarrow> list_all (\<lambda>f. f = None) (fs_close_faults s)"

text \<open>The open descriptors are those of \<open>D\<close> and, when given, one more.\<close>

definition holding :: "(nat \<times> nat) list \<Rightarrow> nat option \<Rightarrow> file_system \<Rightarrow> bool" where
  "holding D fd s \<longleftrightarrow>
     closes_succeed s \<and>
     (case fd of None \<Rightarrow> fs_descriptors s = D
      | Some d \<Rightarrow> d \<notin> fst ` set D \<and> (\<exists>i. fs_descriptors s = (d, i) # D))"

lemma fresh_descriptor_notin: "fresh_descriptor s \<notin> fst ` set (fs_descriptors s)"
proof -
  have le: "x \<in> set xs \<Longrightarrow> x \<le> foldr max xs (b :: nat)" for x xs b
    by (induction xs) (auto simp: le_max_iff_disj)
  show ?thesis
  proof
    assume "fresh_descriptor s \<in> fst ` set (fs_descriptors s)"
    then have "fresh_descriptor s \<in> set (map fst (fs_descriptors s))" by simp
    from le [OF this, of 2] show False by (simp add: fresh_descriptor_def)
  qed
qed

lemma holding_faults [simp]: "holding D fd (s\<lparr>fs_faults := f\<rparr>) = holding D fd s"
  by (simp add: holding_def closes_succeed_def split: option.split)

lemma os_call_holding:
  assumes "\<And>s r s'. holding D fd s \<Longrightarrow> k s = (r, s') \<Longrightarrow> Q r s'"
    "holding D fd s" "os_call k s = (r, s')" "\<And>e s'. holding D fd s' \<Longrightarrow> Q (Inl e) s'"
  shows "Q r s'"
proof (cases "fs_faults s")
  case Nil
  then show ?thesis using assms by (simp add: os_call_def)
next
  case (Cons f fs)
  have held: "holding D fd (s\<lparr>fs_faults := fs\<rparr>)" using assms(2) by simp
  show ?thesis
  proof (cases f)
    case None
    then show ?thesis using assms(1) [OF held] assms(3) Cons by (simp add: os_call_def)
  next
    case (Some e)
    then show ?thesis using assms(4) [OF held, of e] assms(3) Cons by (simp add: os_call_def)
  qed
qed

lemma fresh_descriptor_pair [simp]: "(fresh_descriptor s, i) \<notin> set (fs_descriptors s)"
  using fresh_descriptor_notin [of s] by force

lemma open_inode_holding:
  assumes "holding D None s" "open_inode directory n s = (r, s')"
  shows "holding D (case r of Inl _ \<Rightarrow> None | Inr fd \<Rightarrow> Some fd) s'"
  using assms fresh_descriptor_notin [of s]
  by (auto simp: open_inode_def holding_def closes_succeed_def Let_def split: option.splits if_splits)

lemma open_at_holding:
  assumes "holding D (Some d) s" "os_open_at directory d part s = (r, s')"
  shows "case r of Inl _ \<Rightarrow> holding D (Some d) s'
    | Inr n \<Rightarrow> \<exists>i j. closes_succeed s' \<and> d \<notin> fst ` set D \<and> n \<noteq> d \<and> n \<notin> fst ` set D \<and>
        fs_descriptors s' = (n, j) # (d, i) # D"
proof -
  have "case r of Inl _ \<Rightarrow> holding D (Some d) s'
      | Inr n \<Rightarrow> \<exists>i j. closes_succeed s' \<and> d \<notin> fst ` set D \<and> n \<noteq> d \<and> n \<notin> fst ` set D \<and>
        fs_descriptors s' = (n, j) # (d, i) # D"
    if "holding D (Some d) s" "open_inode directory m s = (r, s')" for m s r s'
    using that fresh_descriptor_notin [of s]
    by (auto simp: open_inode_def holding_def closes_succeed_def Let_def split: option.splits if_splits)
  then have "os_call (\<lambda>s. open_inode directory (m s) s) s = (r, s') \<Longrightarrow> ?thesis" for m
    by (rule os_call_holding [where k = "\<lambda>s. open_inode directory (m s) s", OF _ assms(1)]) auto
  then show ?thesis
    using assms by (auto simp: os_open_at_def split: option.splits)
qed

lemma close_holding:
  assumes "holding D (Some d) s"
  shows "result (os_close d) s = Inr ()" "holding D None (final (os_close d) s)"
proof -
  obtain i where i: "fs_descriptors s = (d, i) # D" "d \<notin> fst ` set D"
    using assms by (auto simp: holding_def)
  have "filter (\<lambda>x. fst x \<noteq> d) D = D" using i(2) by (auto simp: filter_id_conv)
  then show "result (os_close d) s = Inr ()" "holding D None (final (os_close d) s)"
    using assms i by (auto simp: os_close_def holding_def closes_succeed_def Let_def
        split: list.splits option.splits)
qed

lemma close_other_holding:
  assumes "closes_succeed s" "d \<notin> fst ` set D" "n \<noteq> d" "n \<notin> fst ` set D"
    "fs_descriptors s = (n, j) # (d, i) # D"
  shows "result (os_close d) s = Inr ()" "holding D (Some n) (final (os_close d) s)"
proof -
  have "filter (\<lambda>x. fst x \<noteq> d) D = D" using assms(2) by (auto simp: filter_id_conv)
  then show "result (os_close d) s = Inr ()" "holding D (Some n) (final (os_close d) s)"
    using assms by (auto simp: os_close_def holding_def closes_succeed_def Let_def
        split: list.splits option.splits)
qed

lemma open_directories_holding:
  assumes "holding D (Some d) s" "open_directories d parts s = (r, d', s')"
  shows "holding D (Some d') s'"
  using assms
proof (induction parts arbitrary: d s)
  case (Cons part parts)
  obtain r1 s1 where 1: "os_open_at True d part s = (r1, s1)" by fastforce
  note open1 = open_at_holding [OF Cons.prems(1) 1]
  show ?case
  proof (cases r1)
    case (Inl e)
    then show ?thesis using Cons.prems(2) 1 open1 by simp
  next
    case (Inr n)
    then obtain i j where "closes_succeed s1" "d \<notin> fst ` set D" "n \<noteq> d" "n \<notin> fst ` set D"
      "fs_descriptors s1 = (n, j) # (d, i) # D" using open1 by auto
    note close1 = close_other_holding [OF this]
    obtain r2 s2 where 2: "os_close d s1 = (r2, s2)" by fastforce
    have "open_directories n parts s2 = (r, d', s')" "holding D (Some n) s2"
      using Cons.prems(2) 1 2 Inr close1 by auto
    then show ?thesis using Cons.IH by blast
  qed
qed simp

lemma open_parts_holding:
  assumes "holding D (Some d) s" "open_parts d parts s = (r, d', s')"
  shows "case r of Inl _ \<Rightarrow> holding D (Some d') s'
    | Inr n \<Rightarrow> \<exists>i j. closes_succeed s' \<and> d' \<notin> fst ` set D \<and> n \<noteq> d' \<and> n \<notin> fst ` set D \<and>
        fs_descriptors s' = (n, j) # (d', i) # D"
proof (cases "parts = []")
  case True
  then show ?thesis using assms by (auto simp: open_parts_def)
next
  case False
  obtain r1 d1 s1 where 1: "open_directories d (butlast parts) s = (r1, d1, s1)" by (metis prod.exhaust)
  note dirs = open_directories_holding [OF assms(1) 1]
  show ?thesis
  proof (cases r1)
    case (Inl e)
    then show ?thesis using assms(2) False 1 dirs by (auto simp: open_parts_def)
  next
    case (Inr u)
    obtain r2 s2 where 2: "os_open_at False d1 (last parts) s1 = (r2, s2)" by fastforce
    have "r = r2" "d' = d1" "s' = s2"
      using assms(2) False 1 2 Inr by (auto simp: open_parts_def)
    then show ?thesis using open_at_holding [OF dirs 2] by (cases r2) auto
  qed
qed

lemma open_snapshot_descriptor_holding:
  assumes "holding D None s" "open_snapshot_descriptor supported path s = (r, s')"
  shows "holding D (case r of Inl _ \<Rightarrow> None | Inr fd \<Rightarrow> Some fd) s'"
proof (cases supported)
  case False
  then show ?thesis using assms by (auto simp: open_snapshot_descriptor_def)
next
  case True
  define m where "m = (\<lambda>s :: file_system. Some (if path_absolute path then fs_root s else fs_cwd s))"
  obtain r1 s1 where 1: "os_call (open_inode True (m s)) s = (r1, s1)" by fastforce
  have first: "holding D (case r1 of Inl _ \<Rightarrow> None | Inr fd \<Rightarrow> Some fd) s1"
    by (rule os_call_holding [OF open_inode_holding assms(1) 1]) auto
  show ?thesis
  proof (cases r1)
    case (Inl e)
    then show ?thesis
      using assms(2) True 1 first by (auto simp: open_snapshot_descriptor_def bindM_def m_def)
  next
    case (Inr d)
    let ?parts = "if path_absolute path then tl (path_parts path) else path_parts path"
    obtain r2 d2 s2 where 2: "open_parts d ?parts s1 = (r2, d2, s2)" by (metis prod.exhaust)
    have run: "finallyM (liftM r2) (os_close d2) s2 = (r, s')"
      using assms(2) True 1 2 Inr by (simp add: open_snapshot_descriptor_def bindM_def m_def)
    have held: "holding D (Some d) s1" using first Inr by simp
    note parts = open_parts_holding [OF held 2]
    obtain r3 s3 where 3: "os_close d2 s2 = (r3, s3)" by fastforce
    show ?thesis
    proof (cases r2)
      case (Inl e)
      then show ?thesis using run parts 3 close_holding [of D d2 s2] by (auto simp: finallyM_def)
    next
      case (Inr n)
      then obtain i j where "closes_succeed s2" "d2 \<notin> fst ` set D" "n \<noteq> d2" "n \<notin> fst ` set D"
        "fs_descriptors s2 = (n, j) # (d2, i) # D" using parts by auto
      from close_other_holding [OF this] show ?thesis using run 3 Inr by (auto simp: finallyM_def)
    qed
  qed
qed

lemma finally_close_holding:
  assumes "holding D (Some d) (final m s)" "finallyM m (os_close d) s = (r, s')"
  shows "holding D None s'"
  using assms close_holding [OF assms(1)]
  by (auto simp: finallyM_def split: prod.splits sum.splits)

lemma read_snapshot_bytes_holding:
  assumes "holding D None s" "read_snapshot_bytes supported path s = (r, s')"
  shows "holding D None s'"
proof -
  obtain r1 s1 where 1: "open_snapshot_descriptor supported path s = (r1, s1)" by fastforce
  note opened = open_snapshot_descriptor_holding [OF assms(1) 1]
  show ?thesis
  proof (cases r1)
    case (Inl e)
    then show ?thesis using assms(2) 1 opened by (auto simp: read_snapshot_bytes_def bindM_def)
  next
    case (Inr d)
    then have held: "holding D (Some d) s1" using opened by simp
    obtain r2 s2 where 2: "os_fstat d s1 = (r2, s2)" by fastforce
    have held2: "holding D (Some d) s2"
      by (rule os_call_holding [OF _ held 2 [unfolded os_fstat_def]]) auto
    have held3: "holding D (Some d) (final (file_read d n) s2)" for n
    proof -
      obtain r3 s3 where 3: "file_read d n s2 = (r3, s3)" by fastforce
      have "holding D (Some d) s3"
        by (rule os_call_holding [OF _ held2 3 [unfolded file_read_def]]) auto
      then show ?thesis using 3 by simp
    qed
    have "(\<exists>m. finallyM m (os_close d) s2 = (r, s') \<and> holding D (Some d) (final m s2))"
    proof (cases "\<exists>bytes. r2 = Inr (RegularFile bytes)")
      case True
      then have "finallyM (file_read d (MAX_SNAPSHOT_BYTES + 1)) (os_close d) s2 = (r, s')"
        using assms(2) 1 2 Inr by (auto simp: read_snapshot_bytes_def bindM_def)
      then show ?thesis using held3 by blast
    next
      case False
      define x where "x = (case r2 of Inl e \<Rightarrow> e | Inr _ \<Rightarrow> not_regular)"
      have "finallyM (raise x) (os_close d) s2 = (r, s')"
        using assms(2) 1 2 Inr False
        by (auto simp: read_snapshot_bytes_def bindM_def x_def finallyM_def
            split: sum.splits inode_kind.splits prod.splits)
      moreover have "holding D (Some d) (final (raise x :: pybytes fsio) s2)" using held2 by simp
      ultimately show ?thesis by blast
    qed
    then show ?thesis using finally_close_holding by blast
  qed
qed

lemma load_snapshot_holding:
  assumes "holding D None s" "load_snapshot lib recursion supported path s = (r, s')"
  shows "holding D None s'"
proof -
  obtain r1 s1 where 1: "read_snapshot_bytes supported path s = (r1, s1)" by fastforce
  have "s' = s1"
    using assms(2) 1
    by (auto simp: load_snapshot_def bindM_def catchM_def
        split: sum.splits if_splits option.splits)
  then show ?thesis using read_snapshot_bytes_holding [OF assms(1) 1] by simp
qed

section \<open>What is loaded\<close>

text \<open>The reference meaning: the path is resolved through directories only, so no symbolic
  link is ever followed, and what it names must be a regular file within the limit.\<close>

primrec resolve :: "(nat \<rightharpoonup> inode_kind) \<Rightarrow> nat \<Rightarrow> pystr list \<Rightarrow> nat option" where
  "resolve inodes n [] = Some n"
| "resolve inodes n (part # parts) =
     (case inodes n of
        Some (Directory entries) \<Rightarrow>
          (case entries part of None \<Rightarrow> None | Some m \<Rightarrow> resolve inodes m parts)
      | _ \<Rightarrow> None)"

definition unreadable :: exn where
  "unreadable = SnapshotLoadError (lit ''Unable to read snapshot'')"

definition parse_snapshot :: "validation_lib \<Rightarrow> nat \<Rightarrow> pybytes \<Rightarrow> exn + item_snapshot" where
  "parse_snapshot lib recursion bytes =
     (if MAX_SNAPSHOT_BYTES < length bytes then Inl (SnapshotLoadError (lit ''Snapshot is too large''))
      else (case Option.bind (utf8_decode bytes) (json_loads recursion) of
              None \<Rightarrow> Inl (SnapshotLoadError (lit ''Snapshot contains invalid JSON''))
            | Some payload \<Rightarrow> model_validate_snapshot lib payload))"

definition snapshot_at ::
  "validation_lib \<Rightarrow> nat \<Rightarrow> (nat \<rightharpoonup> inode_kind) \<Rightarrow> nat \<Rightarrow> pystr list \<Rightarrow> exn + item_snapshot" where
  "snapshot_at lib recursion inodes start parts =
     (if parts = [] then Inl not_regular
      else (case Option.bind (resolve inodes start parts) inodes of
              None \<Rightarrow> Inl unreadable
            | Some SymbolicLink \<Rightarrow> Inl unreadable
            | Some (RegularFile bytes) \<Rightarrow> parse_snapshot lib recursion bytes
            | Some _ \<Rightarrow> Inl not_regular))"

definition quiet_files :: "(nat \<rightharpoonup> inode_kind) \<Rightarrow> file_system \<Rightarrow> bool" where
  "quiet_files inodes s \<longleftrightarrow> fs_faults s = [] \<and> closes_succeed s \<and> fs_inodes s = inodes"

definition names_ok :: "pystr list \<Rightarrow> bool" where
  "names_ok parts \<longleftrightarrow> list_all (\<lambda>part. name_error part = None) parts"

lemma resolve_snoc:
  "resolve inodes n (parts @ [part]) =
     Option.bind (resolve inodes n parts) (\<lambda>m. resolve inodes m [part])"
  by (induction parts arbitrary: n) (auto split: option.split inode_kind.split)

lemma quiet_open_at:
  assumes "quiet_files inodes s" "name_error part = None" "fs_descriptors s = (d, n) # D"
  shows "os_open_at directory d part s =
    (case resolve inodes n [part] of
       None \<Rightarrow> (Inl OSError, s)
     | Some m \<Rightarrow> open_inode directory (Some m) s)"
  using assms
  by (auto simp: os_open_at_def os_call_def quiet_files_def inode_kind_of_def open_inode_def
      split: option.split inode_kind.split)

lemma quiet_close:
  assumes "quiet_files inodes s" "d \<in> fst ` set (fs_descriptors s)"
  shows "\<exists>s'. os_close d s = (Inr (), s') \<and> quiet_files inodes s' \<and>
    fs_descriptors s' = filter (\<lambda>x. fst x \<noteq> d) (fs_descriptors s)"
  using assms
  by (auto simp: os_close_def quiet_files_def closes_succeed_def Let_def split: list.split option.split)

lemma quiet_open_inode:
  assumes "quiet_files inodes s"
  shows "open_inode directory (Some m) s =
    (case inodes m of
       None \<Rightarrow> (Inl OSError, s)
     | Some k \<Rightarrow> if k = SymbolicLink \<or> (directory \<and> \<not> is_directory k) then (Inl OSError, s)
         else (Inr (fresh_descriptor s),
               s\<lparr>fs_descriptors := (fresh_descriptor s, m) # fs_descriptors s\<rparr>))"
  using assms by (auto simp: open_inode_def quiet_files_def Let_def split: option.split)

lemma quiet_descriptors [simp]:
  "quiet_files inodes (s\<lparr>fs_descriptors := ds\<rparr>) = quiet_files inodes s"
  by (simp add: quiet_files_def closes_succeed_def)

lemma quiet_directories:
  assumes "quiet_files inodes s" "names_ok parts" "fs_descriptors s = (d, n) # D" "d \<notin> fst ` set D"
  shows "\<exists>r d' m s'. open_directories d parts s = (r, d', s') \<and> quiet_files inodes s' \<and>
    fs_descriptors s' = (d', m) # D \<and> d' \<notin> fst ` set D \<and>
    (if r = Inr () then resolve inodes n parts = Some m
     else r = Inl OSError \<and> (\<forall>part. resolve inodes n (parts @ [part]) = None))"
  using assms
proof (induction parts arbitrary: d n s)
  case (Cons part parts)
  have name: "name_error part = None" "names_ok parts" using Cons.prems(2) by (simp_all add: names_ok_def)
  note opened = quiet_open_at [OF Cons.prems(1) name(1) Cons.prems(3), of True]
  consider "resolve inodes n [part] = None"
    | m where "resolve inodes n [part] = Some m" "\<exists>es. inodes m = Some (Directory es)"
    | m where "resolve inodes n [part] = Some m" "\<nexists>es. inodes m = Some (Directory es)"
    by fastforce
  then show ?case
  proof cases
    case 1
    then have "resolve inodes n (part # parts @ [q]) = None" for q
      by (auto split: option.splits inode_kind.splits)
    then show ?thesis using Cons.prems opened 1 by auto
  next
    case (2 m)
    let ?fd = "fresh_descriptor s"
    let ?s1 = "s\<lparr>fs_descriptors := (?fd, m) # (d, n) # D\<rparr>"
    have open1: "os_open_at True d part s = (Inr ?fd, ?s1)"
      using opened 2 Cons.prems(3) by (auto simp: quiet_open_inode [OF Cons.prems(1)] is_directory_def)
    have fd: "?fd \<noteq> d" "?fd \<notin> fst ` set D"
      using fresh_descriptor_notin [of s] Cons.prems(3) by auto
    have "filter (\<lambda>x. fst x \<noteq> d) D = D" using Cons.prems(4) by (auto simp: filter_id_conv)
    then obtain s2 where close1: "os_close d ?s1 = (Inr (), s2)" "quiet_files inodes s2"
      "fs_descriptors s2 = (?fd, m) # D"
      using quiet_close [of inodes ?s1 d] Cons.prems(1) fd by auto
    have step: "resolve inodes n (part # ps) = resolve inodes m ps" for ps
      using 2 by (auto split: option.splits inode_kind.splits)
    have "open_directories d (part # parts) s = open_directories ?fd parts s2"
      using open1 close1(1) by simp
    then show ?thesis
      using Cons.IH [OF close1(2) name(2) close1(3) fd(2)] by (simp only: step append_Cons)
  next
    case (3 m)
    then have "resolve inodes n (part # parts @ [q]) = None" for q
      by (cases parts) (auto split: option.splits inode_kind.splits)
    moreover have "os_open_at True d part s = (Inl OSError, s)"
      using opened 3 by (auto simp: quiet_open_inode [OF Cons.prems(1)] is_directory_def
          split: option.split inode_kind.splits)
    ultimately show ?thesis using Cons.prems by auto
  qed
qed auto

lemma quiet_parts:
  assumes "quiet_files inodes s" "names_ok parts" "fs_descriptors s = (d, n) # D" "d \<notin> fst ` set D"
    "parts \<noteq> []"
  shows "\<exists>r d' s'. open_parts d parts s = (r, d', s') \<and> quiet_files inodes s' \<and>
    d' \<in> fst ` set (fs_descriptors s') \<and>
    (case r of
       Inl e \<Rightarrow> e = OSError \<and> Option.bind (resolve inodes n parts) inodes \<in> {None, Some SymbolicLink}
     | Inr fd \<Rightarrow> fd \<noteq> d' \<and> (\<exists>m. map_of (fs_descriptors s') fd = Some m \<and> resolve inodes n parts = Some m \<and>
         inodes m \<notin> {None, Some SymbolicLink}))"
proof -
  have names: "names_ok (butlast parts)" "name_error (last parts) = None"
    using assms(2,5) by (auto simp: names_ok_def list_all_iff dest: in_set_butlastD)
  obtain r d' m s' where dirs: "open_directories d (butlast parts) s = (r, d', s')"
    "quiet_files inodes s'" "fs_descriptors s' = (d', m) # D" "d' \<notin> fst ` set D"
    "if r = Inr () then resolve inodes n (butlast parts) = Some m
     else r = Inl OSError \<and> (\<forall>part. resolve inodes n (butlast parts @ [part]) = None)"
    using quiet_directories [OF assms(1) names(1) assms(3,4)] by blast
  show ?thesis
  proof (cases "r = Inr ()")
    case False
    then have "resolve inodes n parts = None" using dirs(5) assms(5) by (metis append_butlast_last_id)
    then show ?thesis using False dirs assms(5) by (auto simp: open_parts_def)
  next
    case True
    have res: "resolve inodes n parts = resolve inodes m [last parts]"
      using True dirs(5) assms(5) resolve_snoc [of inodes n "butlast parts" "last parts"] by simp
    have fd: "fresh_descriptor s' \<noteq> d'"
      using fresh_descriptor_notin [of s'] dirs(3) by auto
    show ?thesis
      using True dirs assms(5) res fd
      by (auto simp: open_parts_def quiet_open_at [OF dirs(2) names(2) dirs(3)] quiet_open_inode [OF dirs(2)]
          simp del: resolve.simps split: option.split)
  qed
qed

theorem load_snapshot_at:
  assumes "quiet_files inodes s" "parts = (if path_absolute path then tl (path_parts path) else path_parts path)"
    "names_ok parts" "start = (if path_absolute path then fs_root s else fs_cwd s)"
    "inodes start = Some (Directory entries)"
  shows "result (load_snapshot lib recursion True path) s = snapshot_at lib recursion inodes start parts"
proof -
  let ?fd = "fresh_descriptor s"
  let ?s1 = "s\<lparr>fs_descriptors := (?fd, start) # fs_descriptors s\<rparr>"
  have open1: "os_call (open_inode True (Some start)) s = (Inr ?fd, ?s1)"
    using assms(1,5) by (simp add: os_call_def quiet_files_def open_inode_def is_directory_def Let_def)
  have quiet1: "quiet_files inodes ?s1" using assms(1) by simp
  have descriptor: "open_snapshot_descriptor True path s =
      (case open_parts ?fd parts ?s1 of (r, d, s') \<Rightarrow> finallyM (liftM r) (os_close d) s')"
    using open1 assms(2,4) by (simp add: open_snapshot_descriptor_def bindM_def cong: if_cong)
  have fresh: "?fd \<notin> fst ` set (fs_descriptors s)" by (rule fresh_descriptor_notin)
  show ?thesis
  proof (cases "parts = []")
    case True
    then have "open_parts ?fd parts ?s1 = (Inl not_regular, ?fd, ?s1)" by (simp add: open_parts_def)
    then have "result (open_snapshot_descriptor True path) s = Inl not_regular"
      using descriptor quiet_close [OF quiet1, of ?fd] by (auto simp: finallyM_def)
    then show ?thesis
      using True
      by (auto simp: load_snapshot_def read_snapshot_bytes_def snapshot_at_def bindM_def catchM_def
          not_regular_def is_OSError_def is_UnicodeError_def split: prod.splits sum.splits)
  next
    case False
    obtain r d s2 where parts: "open_parts ?fd parts ?s1 = (r, d, s2)" "quiet_files inodes s2"
      "d \<in> fst ` set (fs_descriptors s2)"
      "case r of
         Inl e \<Rightarrow> e = OSError \<and> Option.bind (resolve inodes start parts) inodes \<in> {None, Some SymbolicLink}
       | Inr fd \<Rightarrow> fd \<noteq> d \<and> (\<exists>m. map_of (fs_descriptors s2) fd = Some m \<and> resolve inodes start parts = Some m \<and>
           inodes m \<notin> {None, Some SymbolicLink})"
      using quiet_parts [OF quiet1 assms(3) _ fresh False] by fastforce
    obtain s3 where close: "os_close d s2 = (Inr (), s3)" "quiet_files inodes s3"
      "fs_descriptors s3 = filter (\<lambda>x. fst x \<noteq> d) (fs_descriptors s2)"
      using quiet_close [OF parts(2,3)] by blast
    have opened: "open_snapshot_descriptor True path s = (r, s3)"
      using descriptor parts(1) close(1) by (simp add: finallyM_def)
    show ?thesis
    proof (cases r)
      case (Inl e)
      then show ?thesis
        using opened parts(4) False
        by (auto simp: load_snapshot_def read_snapshot_bytes_def snapshot_at_def bindM_def catchM_def
            unreadable_def is_OSError_def)
    next
      case (Inr fd)
      then obtain m k where m: "map_of (fs_descriptors s2) fd = Some m" "resolve inodes start parts = Some m"
        "inodes m = Some k" "k \<noteq> SymbolicLink" "fd \<noteq> d" using parts(4) by auto
      have "map_of (filter (\<lambda>x. fst x \<noteq> d) ds) fd = map_of ds fd" for ds :: "(nat \<times> nat) list"
        using m(5) by (induction ds) auto
      then have kind: "inode_kind_of s3 fd = Some k"
        using m close by (simp add: inode_kind_of_def quiet_files_def)
      have fd3: "fd \<in> fst ` set (fs_descriptors s3)"
        using kind by (auto simp: inode_kind_of_def split: option.splits dest!: map_of_SomeD) force
      have fstat: "os_fstat fd s3 = (Inr k, s3)"
        using close(2) kind by (simp add: os_fstat_def os_call_def quiet_files_def)
      obtain s4 where close3: "os_close fd s3 = (Inr (), s4)" using quiet_close [OF close(2) fd3] by blast
      show ?thesis
      proof (cases "\<exists>bytes. k = RegularFile bytes")
        case True
        then obtain bytes where bytes: "k = RegularFile bytes" by blast
        then have "file_read fd (MAX_SNAPSHOT_BYTES + 1) s3 = (Inr (take (MAX_SNAPSHOT_BYTES + 1) bytes), s3)"
          using close(2) kind by (simp add: file_read_def os_call_def quiet_files_def)
        then have read: "read_snapshot_bytes True path s = (Inr (take (MAX_SNAPSHOT_BYTES + 1) bytes), s4)"
          using opened Inr fstat bytes close3 by (simp add: read_snapshot_bytes_def bindM_def finallyM_def)
        have "result (load_snapshot lib recursion True path) s = parse_snapshot lib recursion bytes"
          by (auto simp: load_snapshot_def bindM_def catchM_def read parse_snapshot_def
              split: option.split)
        then show ?thesis using m bytes False by (simp add: snapshot_at_def)
      next
        case False
        then have "result (read_snapshot_bytes True path) s = Inl not_regular"
          using opened Inr fstat close3 m(4)
          by (cases k) (auto simp: read_snapshot_bytes_def bindM_def finallyM_def)
        then have "result (load_snapshot lib recursion True path) s = Inl not_regular"
          by (auto simp: load_snapshot_def bindM_def catchM_def not_regular_def is_OSError_def
              is_UnicodeError_def split: prod.splits sum.splits)
        then show ?thesis
          using m False \<open>parts \<noteq> []\<close> by (cases k) (auto simp: snapshot_at_def)
      qed
    qed
  qed
qed

end
