(* ===== verification/IngestCommand.thy ===== *)
theory IngestCommand
  imports Connections IngestionLoader IngestionService
begin

text \<open>
  \<open>scripts/ingest.py\<close>: the command line, the messages, the run of an ingestion (load,
  configure, publish, invalidate) with the exit stack that closes the clients, and the
  exit code of every outcome. The state of the process is its file system, the world of
  the services, what it has printed on the error stream and the clients it opened and closed.
\<close>

section \<open>The command line\<close>

text \<open>\<open>argparse\<close> on a parser with \<open>-h\<close>, \<open>--help\<close> and the required \<open>--input\<close>: what an argument
  is, abbreviations of long options included.\<close>

datatype argument_kind =
  Positional | InputOption "pystr option" | HelpOption bool | UnknownOption | AmbiguousOption

definition negative_number :: "pystr \<Rightarrow> bool" where
  "negative_number a \<longleftrightarrow>
     (let (whole, dot, fraction) = partition_at 46 (drop 1 a) in
      if dot then list_all digit_char whole \<and> isdigit fraction else isdigit whole)"

definition kind_of_argument :: "pystr \<Rightarrow> argument_kind" where
  "kind_of_argument a =
     (if \<not> startswith a (lit ''-'') \<or> length a = 1 then Positional
      else if startswith a (lit ''--'') then
        (let (name, has_value, value) = partition_at 61 a in
         case filter (\<lambda>opt. startswith opt name) [lit ''--help'', lit ''--input''] of
           [opt] \<Rightarrow> if opt = lit ''--input'' then InputOption (if has_value then Some value else None)
                    else HelpOption (\<not> has_value)
         | [] \<Rightarrow> if 32 \<in> set a then Positional else UnknownOption
         | _ \<Rightarrow> AmbiguousOption)
      else if startswith a (lit ''-h'') then HelpOption (list_all (\<lambda>c. c = 104) (drop 1 a))
      else if negative_number a \<or> 32 \<in> set a then Positional
      else UnknownOption)"

text \<open>\<open>Inl\<close> is the code of the \<open>SystemExit\<close>: 0 after the help, and 2 from
  \<open>IngestionArgumentParser.error\<close>. \<open>rest\<close> says that an unrecognised argument was seen.\<close>

fun parse_args :: "pystr list \<Rightarrow> pystr option \<Rightarrow> bool \<Rightarrow> nat + pystr" where
  "parse_args [] input rest =
     (case input of Some p \<Rightarrow> if rest then Inl 2 else Inr p | None \<Rightarrow> Inl 2)"
| "parse_args (a # as) input rest =
     (if a = lit ''--'' then parse_args [] input (rest \<or> as \<noteq> [])
      else (case kind_of_argument a of
         HelpOption ok \<Rightarrow> if ok then Inl 0 else Inl 2
       | InputOption (Some v) \<Rightarrow> parse_args as (Some v) rest
       | InputOption None \<Rightarrow>
           (case as of
              [] \<Rightarrow> Inl 2
            | v # vs \<Rightarrow>
                if v = lit ''--'' then
                  (case vs of [] \<Rightarrow> Inl 2 | u # us \<Rightarrow> parse_args [] (Some u) (rest \<or> us \<noteq> []))
                else if kind_of_argument v = Positional then parse_args vs (Some v) rest
                else Inl 2)
       | AmbiguousOption \<Rightarrow> Inl 2
       | Positional \<Rightarrow> parse_args as input True
       | UnknownOption \<Rightarrow> parse_args as input True))"

text \<open>\<open>type=Path\<close>\<close>

definition path_of :: "pystr \<Rightarrow> path" where
  "path_of s =
     (let absolute = startswith s (lit ''/''); names = filter (\<lambda>w. w \<notin> {[], lit ''.''}) (split_on 47 s) in
      \<lparr>path_absolute = absolute,
       path_parts = (if absolute
         then (if startswith s (lit ''//'') \<and> \<not> startswith s (lit ''///'') then lit ''//'' else lit ''/'') # names
         else names)\<rparr>)"

section \<open>Messages\<close>

definition MAX_VALIDATION_ERRORS :: nat where "MAX_VALIDATION_ERRORS = 20"
definition MAX_VALIDATION_TEXT :: nat where "MAX_VALIDATION_TEXT = 160"

text \<open>The codec \<open>unicode_escape\<close>.\<close>

definition unicode_escape :: "nat \<Rightarrow> pystr" where
  "unicode_escape c =
     (if c = 92 then [92, 92] else if c = 9 then [92, 116] else if c = 10 then [92, 110]
      else if c = 13 then [92, 114]
      else if 32 \<le> c \<and> c < 127 then [c]
      else if c < 256 then [92, 120] @ hex_digits 2 c
      else if c < 65536 then [92, 117] @ hex_digits 4 c
      else [92, 85] @ hex_digits 8 c)"

definition safe_validation_text :: "pystr \<Rightarrow> pystr" where
  "safe_validation_text t =
     (let escaped = concat (map unicode_escape t) in
      if MAX_VALIDATION_TEXT < length escaped then take MAX_VALIDATION_TEXT escaped @ lit ''...''
      else escaped)"

definition validation_message :: "pystr list \<times> pystr \<Rightarrow> pystr" where
  "validation_message detail =
     safe_validation_text (join_with 46 (fst detail)) @ lit '': '' @ safe_validation_text (snd detail)"

definition format_validation_error :: "(pystr list \<times> pystr) list \<Rightarrow> pystr" where
  "format_validation_error details =
     (let messages = map validation_message (take MAX_VALIDATION_ERRORS details) @
            (if MAX_VALIDATION_ERRORS < length details
             then [lit ''additional validation errors omitted''] else []) in
      case messages of [] \<Rightarrow> [] | m # ms \<Rightarrow> m @ concat (map (\<lambda>n. lit ''; '' @ n) ms))"

section \<open>run_ingestion\<close>

record process = server +
  pr_files :: file_system
  pr_stderr :: "pystr list"

type_synonym 'a proc = "(process, exn, 'a) io"

definition on_files :: "'a fsio \<Rightarrow> 'a proc" where
  "on_files m p = (case m (pr_files p) of (r, f) \<Rightarrow> (r, p\<lparr>pr_files := f\<rparr>))"

text \<open>What the command takes from outside: the sources of its settings, the constructors of
  the clients, the file system's and interpreter's capabilities, and the exceptions that
  closing a client raises.\<close>

record ingest_environment =
  ie_validation :: validation_lib
  ie_recursion :: nat
  ie_secure_open :: bool
  ie_settings :: settings_source
  ie_make_engine :: "pystr \<Rightarrow> connect_args \<Rightarrow> exn + pg_server"
  ie_from_url :: "pystr \<Rightarrow> redis_options \<Rightarrow> exn + unit"
  ie_pydantic :: pydantic
  ie_sha256 :: "pystr \<Rightarrow> pystr"
  ie_clock :: "world \<Rightarrow> datetime"
  ie_dispose :: "exn option"
  ie_aclose :: "exn option"

definition ingestion_configuration :: "ingest_environment \<Rightarrow> exn + ingestion_settings \<times> pg_server" where
  "ingestion_configuration env =
     (let failure = (\<lambda>e. if is_ValueError e then Inl ConfigurationError else Inl e) in
      case settings_result (vl_message (ie_validation env)) (make_ingestion_settings (ie_settings env)) of
        Inl e \<Rightarrow> failure e
      | Inr settings \<Rightarrow>
          (case create_database (ie_make_engine env) (ss_unicode (ie_settings env)) settings of
             Inl e \<Rightarrow> failure e
           | Inr pg \<Rightarrow> Inr (settings, pg)))"

definition ingestion_cache :: "ingest_environment \<Rightarrow> exn + redis_item_cache" where
  "ingestion_cache env =
     make_redis_item_cache (ie_pydantic env) (ie_sha256 env) (ie_recursion env) True None
       (PyInt ITEM_TTL_SECONDS) (PyInt LIST_TTL_SECONDS) (PyInt META_TTL_SECONDS)"

definition invalidation_failure :: "exn \<Rightarrow> bool" where
  "invalidation_failure e \<longleftrightarrow> is_OSError e \<or> e = TimeoutError \<or> is_RedisError e \<or> is_ValueError e"

definition publish_and_invalidate ::
  "ingest_environment \<Rightarrow> pg_server \<Rightarrow> item_snapshot \<Rightarrow> unit proc" where
  "publish_and_invalidate env pg snapshot =
     bindM (liftM (ingestion_cache env)) (\<lambda>cache.
     bindM (on_world (ingest (ingestion_service_of pg (ie_clock env)) snapshot)) (\<lambda>_.
     catchM (bindM (on_world (invalidate cache)) (\<lambda>_. ret ()))
       (\<lambda>e. if invalidation_failure e then Some (raise CacheInvalidationError) else None)))"

text \<open>The engine is opened before the exit stack is entered, with nothing between that could fail.\<close>

definition run_ingestion :: "ingest_environment \<Rightarrow> path \<Rightarrow> unit proc" where
  "run_ingestion env input_path =
     bindM (on_files (load_snapshot (ie_validation env) (ie_recursion env) (ie_secure_open env) input_path))
       (\<lambda>snapshot.
     bindM (open_client DatabaseEngine (ingestion_configuration env)) (\<lambda>(settings, pg).
     async_exit_stack
       (bindM (push_async_callback DatabaseEngine (ie_dispose env)) (\<lambda>_.
        bindM (open_client RedisClient (create_redis (ie_from_url env) (ss_unicode (ie_settings env))
                 (ingestion_redis_settings settings))) (\<lambda>_.
        bindM (push_async_callback RedisClient (ie_aclose env)) (\<lambda>_.
        publish_and_invalidate env pg snapshot))))))"

section \<open>main\<close>

definition service_failure :: "exn \<Rightarrow> bool" where
  "service_failure e \<longleftrightarrow>
     (case e of AppError _ _ _ \<Rightarrow> True
      | _ \<Rightarrow> e = InterfaceError \<or> is_OSError e \<or> e = PostgresError \<or> e = SQLAlchemyError \<or> e = TimeoutError)"

definition exit_message :: "exn \<Rightarrow> nat \<times> pystr" where
  "exit_message e =
     (case e of
        SnapshotLoadError m \<Rightarrow> (2, m)
      | ValidationError details \<Rightarrow> (2, lit ''Invalid snapshot: '' @ format_validation_error details)
      | ConfigurationError \<Rightarrow> (2, lit ''Ingestion failed: configuration is invalid'')
      | CacheInvalidationError \<Rightarrow>
          (1, lit ''Ingestion failed: data was published but cache invalidation failed; repeat ingestion to retry'')
      | _ \<Rightarrow>
          if service_failure e then (1, lit ''Ingestion failed: required service is unavailable'')
          else (1, lit ''Ingestion failed: unexpected internal error''))"

definition ingest_main :: "ingest_environment \<Rightarrow> pystr list \<Rightarrow> process \<Rightarrow> nat \<times> process" where
  "ingest_main env argv p =
     (case parse_args argv None False of
        Inl code \<Rightarrow>
          (code, if code = 0 then p
                 else p\<lparr>pr_stderr := pr_stderr p @ [lit ''Invalid command-line arguments'']\<rparr>)
      | Inr input \<Rightarrow>
          (case run_ingestion env (path_of input) p of
             (Inr _, p') \<Rightarrow> (0, p')
           | (Inl e, p') \<Rightarrow>
               (fst (exit_message e), p'\<lparr>pr_stderr := pr_stderr p' @ [snd (exit_message e)]\<rparr>)))"

section \<open>Messages are bounded and printable\<close>

definition printable :: "pystr \<Rightarrow> bool" where
  "printable t \<longleftrightarrow> list_all (\<lambda>c. 32 \<le> c \<and> c < 127) t"

lemma printable_simps [simp]:
  "printable []" "printable (c # t) \<longleftrightarrow> 32 \<le> c \<and> c < 127 \<and> printable t"
  "printable (s @ t) \<longleftrightarrow> printable s \<and> printable t"
  by (auto simp: printable_def)

lemma printable_take: "printable t \<Longrightarrow> printable (take n t)"
  by (auto simp: printable_def list_all_iff dest: in_set_takeD)

lemma printable_hex: "printable (hex_digits k n)"
  using hex_digits_chars [of _ k n] by (fastforce simp: printable_def list_all_iff digit_char_def)

lemma printable_escape: "printable (unicode_escape c)"
  by (auto simp: unicode_escape_def printable_hex)

lemma printable_concat: "(\<And>t. t \<in> set ts \<Longrightarrow> printable t) \<Longrightarrow> printable (concat ts)"
  by (induction ts) auto

lemma safe_validation_text_bounds:
  "printable (safe_validation_text t)" "length (safe_validation_text t) \<le> MAX_VALIDATION_TEXT + 3"
  using printable_concat [of "map unicode_escape t"] printable_escape
  by (auto simp: safe_validation_text_def Let_def lit_def intro: printable_take)

lemma validation_message_bounds:
  "printable (validation_message d)" "length (validation_message d) \<le> 2 * (MAX_VALIDATION_TEXT + 3) + 2"
proof -
  have "length (validation_message d) =
      length (safe_validation_text (join_with 46 (fst d))) + 2 + length (safe_validation_text (snd d))"
    by (simp add: validation_message_def lit_def)
  then show "length (validation_message d) \<le> 2 * (MAX_VALIDATION_TEXT + 3) + 2"
    using safe_validation_text_bounds(2) [of "join_with 46 (fst d)"]
      safe_validation_text_bounds(2) [of "snd d"] by simp
qed (simp add: validation_message_def safe_validation_text_bounds lit_def)

lemma concat_bound: "(\<And>t. t \<in> set ts \<Longrightarrow> length t \<le> b) \<Longrightarrow> length (concat ts) \<le> length ts * b"
  by (induction ts) (auto simp: add_mono)

section \<open>The clients are closed on every path\<close>

lemma frame_on_files [frame_intros]: "frame sv_clients (on_files m)" "frame sv_world (on_files m)"
  by (auto simp: frame_def on_files_def split: prod.split)

lemma frame_publish [frame_intros]: "frame sv_clients (publish_and_invalidate env pg snapshot)"
  unfolding publish_and_invalidate_def by (auto intro!: frame_intros split: if_splits)

lemma run_ingestion_closes:
  "all_closed (sv_clients p) (sv_clients (final (run_ingestion env input_path) p))"
  unfolding run_ingestion_def
proof (rule all_closed_bindM [OF frame_on_files(1)])
  fix snapshot and q :: process
  let ?stack = "\<lambda>(settings, pg). async_exit_stack
       (bindM (push_async_callback DatabaseEngine (ie_dispose env)) (\<lambda>_.
        bindM (open_client RedisClient (create_redis (ie_from_url env) (ss_unicode (ie_settings env))
                 (ingestion_redis_settings settings))) (\<lambda>_.
        bindM (push_async_callback RedisClient (ie_aclose env)) (\<lambda>_.
        publish_and_invalidate env pg snapshot))))"
  show "all_closed (sv_clients q)
     (sv_clients (final (bindM (open_client DatabaseEngine (ingestion_configuration env)) ?stack) q))"
  proof (cases "ingestion_configuration env")
    case (Inr sp)
    obtain settings pg where sp: "sp = (settings, pg)" by fastforce
    let ?rest = "bindM (open_client RedisClient (create_redis (ie_from_url env) (ss_unicode (ie_settings env))
                 (ingestion_redis_settings settings))) (\<lambda>_.
        bindM (push_async_callback RedisClient (ie_aclose env)) (\<lambda>_. publish_and_invalidate env pg snapshot))"
    let ?q = "q\<lparr>sv_clients := (sv_clients q)\<lparr>cl_opened := cl_opened (sv_clients q) @ [DatabaseEngine]\<rparr>\<rparr>"
    have rest: "keeps (stacked os cs) ?rest" for os cs
      by (intro stacked_open_push stacked_frame frame_publish)
    have "stacked (cl_opened (sv_clients q)) (cl_closed (sv_clients q))
        (final (bindM (push_async_callback DatabaseEngine (ie_dispose env)) (\<lambda>_. ?rest))
          (?q\<lparr>sv_clients := (sv_clients ?q)\<lparr>cl_callbacks := []\<rparr>\<rparr>))"
      using keepsD [OF rest, of "cl_opened (sv_clients q)" "cl_closed (sv_clients q)"
          "?q\<lparr>sv_clients := (sv_clients ?q)\<lparr>cl_callbacks := [(DatabaseEngine, ie_dispose env)]\<rparr>\<rparr>"]
      by (simp add: open_push_bind) (simp add: stacked_def)
    from async_exit_stack_final [where p = ?q and c = "sv_clients q" and
        body = "bindM (push_async_callback DatabaseEngine (ie_dispose env)) (\<lambda>_. ?rest)", OF this] show ?thesis
      using Inr sp by (simp add: open_push_bind)
  qed (simp add: open_push_bind)
qed

section \<open>What a successful run has done\<close>

lemma catch_raise_Inr:
  assumes "catchM m (\<lambda>e. if P e then Some (raise x) else None) s = (Inr a, s')"
  shows "m s = (Inr a, s')"
  using assms by (auto simp: catchM_def split: prod.splits sum.splits if_splits)

lemma bindM_liftM_Inr:
  assumes "bindM (liftM r) f s = (Inr b, t)"
  obtains a where "r = Inr a" "f a s = (Inr b, t)"
  using assms by (cases r) (auto simp: bindM_def)

lemma on_world_run: "on_world m p = (r, p') \<Longrightarrow> m (sv_world p) = (r, sv_world p')"
  by (auto simp: on_world_def split: prod.splits)

lemma publish_and_invalidate_success:
  assumes "publish_and_invalidate env pg snapshot p = (Inr u, p')"
  obtains cache t g w1 where "ingestion_cache env = Inr cache"
    "ingest (ingestion_service_of pg (ie_clock env)) snapshot (sv_world p) = (Inr t, w1)"
    "invalidate cache w1 = (Inr g, sv_world p')"
proof -
  obtain cache where cache: "ingestion_cache env = Inr cache"
    "bindM (on_world (ingest (ingestion_service_of pg (ie_clock env)) snapshot)) (\<lambda>_.
       catchM (bindM (on_world (invalidate cache)) (\<lambda>_. ret ()))
       (\<lambda>e. if invalidation_failure e then Some (raise CacheInvalidationError) else None)) p = (Inr u, p')"
    by (rule bindM_liftM_Inr [OF assms [unfolded publish_and_invalidate_def]])
  from cache(2) obtain t p1 where 1: "on_world (ingest (ingestion_service_of pg (ie_clock env)) snapshot) p = (Inr t, p1)"
    "catchM (bindM (on_world (invalidate cache)) (\<lambda>_. ret ()))
       (\<lambda>e. if invalidation_failure e then Some (raise CacheInvalidationError) else None) p1 = (Inr u, p')"
    by (rule bindM_eq_InrE)
  obtain g where "on_world (invalidate cache) p1 = (Inr g, p')"
    using catch_raise_Inr [OF 1(2)] by (auto elim!: bindM_eq_InrE)
  then show thesis using that cache(1) on_world_run [OF 1(1)] on_world_run by blast
qed

lemma open_client_bind_Inr:
  assumes "bindM (open_client r made) f p = (Inr b, p')"
  obtains a q where "made = Inr a" "f a q = (Inr b, p')" "sv_world q = sv_world p"
  using assms by (cases made) (auto simp: bindM_def open_client_run)

lemma push_bind_Inr:
  assumes "bindM (push_async_callback r failure) f p = (Inr b, p')"
  obtains q where "f () q = (Inr b, p')" "sv_world q = sv_world p"
  using assms by (auto simp: bindM_def push_async_callback_def)

lemma run_ingestion_success:
  assumes "run_ingestion env input_path p = (Inr u, p')"
  obtains snapshot settings pg cache t g w1 where
    "result (load_snapshot (ie_validation env) (ie_recursion env) (ie_secure_open env) input_path) (pr_files p) =
      Inr snapshot"
    "ingestion_configuration env = Inr (settings, pg)" "ingestion_cache env = Inr cache"
    "ingest (ingestion_service_of pg (ie_clock env)) snapshot (sv_world p) = (Inr t, w1)"
    "invalidate cache w1 = (Inr g, sv_world p')"
proof -
  obtain snapshot p1 where 1: "on_files (load_snapshot (ie_validation env) (ie_recursion env)
      (ie_secure_open env) input_path) p = (Inr snapshot, p1)"
    and rest1: "bindM (open_client DatabaseEngine (ingestion_configuration env)) (\<lambda>(settings, pg).
     async_exit_stack
       (bindM (push_async_callback DatabaseEngine (ie_dispose env)) (\<lambda>_.
        bindM (open_client RedisClient (create_redis (ie_from_url env) (ss_unicode (ie_settings env))
                 (ingestion_redis_settings settings))) (\<lambda>_.
        bindM (push_async_callback RedisClient (ie_aclose env)) (\<lambda>_.
        publish_and_invalidate env pg snapshot))))) p1 = (Inr u, p')"
    by (rule bindM_eq_InrE [OF assms [unfolded run_ingestion_def]])
  obtain sp p2 where sp: "ingestion_configuration env = Inr sp" "sv_world p2 = sv_world p1"
    and rest2: "(case sp of (settings, pg) \<Rightarrow> async_exit_stack
       (bindM (push_async_callback DatabaseEngine (ie_dispose env)) (\<lambda>_.
        bindM (open_client RedisClient (create_redis (ie_from_url env) (ss_unicode (ie_settings env))
                 (ingestion_redis_settings settings))) (\<lambda>_.
        bindM (push_async_callback RedisClient (ie_aclose env)) (\<lambda>_.
        publish_and_invalidate env pg snapshot))))) p2 = (Inr u, p')"
    by (rule open_client_bind_Inr [OF rest1]) blast
  obtain settings pg where sp2: "sp = (settings, pg)" by fastforce
  obtain q where q: "bindM (push_async_callback DatabaseEngine (ie_dispose env)) (\<lambda>_.
        bindM (open_client RedisClient (create_redis (ie_from_url env) (ss_unicode (ie_settings env))
                 (ingestion_redis_settings settings))) (\<lambda>_.
        bindM (push_async_callback RedisClient (ie_aclose env)) (\<lambda>_.
        publish_and_invalidate env pg snapshot)))
      (p2\<lparr>sv_clients := (sv_clients p2)\<lparr>cl_callbacks := []\<rparr>\<rparr>) = (Inr u, q)" "sv_world p' = sv_world q"
    using rest2 sp2 by (auto elim: async_exit_stack_Inr)
  obtain q4 where q4: "publish_and_invalidate env pg snapshot q4 = (Inr u, q)" "sv_world q4 = sv_world p2"
    using q(1) by (auto elim!: push_bind_Inr open_client_bind_Inr)
  obtain cache t g w1 where pub: "ingestion_cache env = Inr cache"
    "ingest (ingestion_service_of pg (ie_clock env)) snapshot (sv_world p2) = (Inr t, w1)"
    "invalidate cache w1 = (Inr g, sv_world q)"
    by (rule publish_and_invalidate_success [OF q4(1)]) (simp add: q4(2))
  have "sv_world p1 = sv_world p" using frame_eq [OF frame_on_files(2) 1] .
  moreover have "result (load_snapshot (ie_validation env) (ie_recursion env) (ie_secure_open env) input_path)
      (pr_files p) = Inr snapshot" using 1 by (auto simp: on_files_def split: prod.splits)
  ultimately show thesis using that [of snapshot settings pg cache t w1 g] sp sp2 pub q(2) by simp
qed

end
