(* ===== verification/IngestionSamples.thy ===== *)
theory IngestionSamples
  imports IngestionConcurrency IngestCommand ItemsTheorems
begin

text \<open>
  Concrete instances for the theorems about ingestion: a snapshot of one item, a server,
  a world without interference, a file system that holds the snapshot's file.
\<close>

definition sample_lib :: validation_lib where
  "sample_lib = \<lparr>vl_unicode = ascii_unicode, vl_message = (\<lambda>_. lit ''invalid'')\<rparr>"

definition sample_pg :: pg_server where
  "sample_pg = \<lparr>pg_now = (\<lambda>_. 9), pg_index_fits = (\<lambda>s. length s \<le> 2704)\<rparr>"

definition sample_import :: item_import where
  "sample_import =
     \<lparr>imp_game_id = 7, imp_name = lit ''Guppy'', imp_description = lit ''A cat'', imp_quality = Some 4,
      imp_item_type = Some (lit ''passive''), imp_recharge_time = None,
      imp_image_url = lit ''https://x.io/7'', imp_introduced_in_version = None\<rparr>"

definition sample_snapshot :: item_snapshot where
  "sample_snapshot =
     \<lparr>snap_dataset_version = lit ''2.0'', snap_game_version = Some (lit ''1.7''), snap_items = [sample_import]\<rparr>"

text \<open>The definitions that evaluate \<open>urlsplit\<close> on a literal.\<close>

lemmas split_defs = urlsplit_def split_scheme_def partition_at_def netloc_ok_def lit_def scheme_char_def
  alpha_char_def digit_char_def ascii_lower_def isascii_def

lemmas result_defs = url_hostname_def url_username_def url_password_def url_port_def hostinfo_def
  partition_at_def rpartition_at_def lit_def endswith_def control_or_space_def space_char_def

lemma sample_split:
  "urlsplit u (lit ''https://x.io/7'') =
     Inr \<lparr>sp_scheme = lit ''https'', sp_netloc = lit ''x.io'', sp_path = lit ''/7'', sp_query = [], sp_fragment = []\<rparr>"
  by (simp add: split_defs)

lemma sample_url: "image_url_ok ascii_unicode (lit ''https://x.io/7'')"
  unfolding image_url_ok_def sample_split by (simp add: result_defs)

lemmas import_text_defs = import_text_def pg_text_def strip_by_def white_space_def lit_def scalar_def
  MAX_SNAPSHOT_STRING_LENGTH_def

lemma sample_texts [simp]:
  "import_text (lit ''2.0'')" "import_text (lit ''1.7'')" "import_text (lit ''Guppy'')"
  "import_text (lit ''A cat'')" "import_text (lit ''https://x.io/7'')" "import_text (lit ''passive'')"
  by (simp_all add: import_text_defs)

lemma sample_lower: "uc_lower ascii_unicode (lit ''passive'') = lit ''passive''"
  by (simp add: ascii_unicode_def ascii_lower_def lit_def)

lemma sample_import_ok: "import_ok ascii_unicode sample_import"
  using sample_lower [symmetric]
  by (auto simp: import_ok_def sample_import_def MAX_GAME_ID_def sample_url lowered_text_def
      intro!: exI [of _ "lit ''passive''"])

lemma sample_snapshot_ok: "snapshot_ok (vl_unicode sample_lib) sample_snapshot"
  using sample_import_ok
  by (simp add: snapshot_ok_def sample_snapshot_def sample_lib_def MAX_SNAPSHOT_ITEMS_def)

lemma sample_types: "types_published (vl_unicode sample_lib) sample_snapshot"
  by (simp add: types_published_def sample_snapshot_def sample_lib_def sample_import_def sample_lower)

lemma sample_storable_snapshot: "storable_snapshot sample_lib sample_pg sample_snapshot"
  using sample_snapshot_ok
  by (simp add: storable_snapshot_def sample_snapshot_def sample_import_def sample_pg_def pg_text_def
      lit_def scalar_def)

lemma sample_distinct: "distinct (map imp_game_id (snap_items sample_snapshot))"
  by (simp add: sample_snapshot_def)

section \<open>The snapshot's file\<close>

definition sample_bytes :: pybytes where
  "sample_bytes = json_dumps (snapshot_json sample_snapshot)"

definition sample_files :: file_system where
  "sample_files =
     \<lparr>fs_inodes = [0 \<mapsto> Directory [lit ''s.json'' \<mapsto> 1, lit ''link'' \<mapsto> 2],
        1 \<mapsto> RegularFile sample_bytes, 2 \<mapsto> SymbolicLink],
      fs_root = 0, fs_cwd = 0, fs_descriptors = [], fs_faults = [], fs_close_faults = []\<rparr>"

definition sample_path :: path where
  "sample_path = \<lparr>path_absolute = False, path_parts = [lit ''s.json'']\<rparr>"

lemmas sample_json_defs = snapshot_json_def import_json_def sample_snapshot_def sample_import_def optional_member_def

lemma sample_fits: "json_fits (Suc (Suc (Suc n))) (snapshot_json sample_snapshot)"
  by (simp add: sample_json_defs) (simp add: lit_def scalar_def str_nat.simps max_int_digits_def)

lemma sample_size: "length sample_bytes \<le> MAX_SNAPSHOT_BYTES"
  by (simp add: sample_bytes_def sample_json_defs MAX_SNAPSHOT_BYTES_def)
    (simp add: lit_def dumps_str_def escape_char_def str_int_def str_nat.simps)

lemma sample_parse: "parse_snapshot sample_lib (Suc (Suc (Suc n))) sample_bytes = Inr sample_snapshot"
  using sample_size json_loads_dumps [OF sample_fits] json_dumps_ascii [OF sample_fits]
    validate_snapshot_json [OF sample_snapshot_ok sample_types]
  by (simp add: parse_snapshot_def utf8_decode_ascii model_validate_snapshot_def sample_bytes_def)

lemma sample_quiet_files: "quiet_files (fs_inodes sample_files) sample_files"
  by (simp add: quiet_files_def closes_succeed_def sample_files_def)

end
