(* ===== verification/IngestionSteps.thy ===== *)
theory IngestionSteps
  imports IngestionConcurrency
begin

text \<open>
  \<open>IngestionService.ingest\<close> as an execution of the steps of IngestionConcurrency. While
  nobody else acts, every run of the coroutine, whichever calls fail and however its COMMIT ends,
  is an execution of the steps of one worker from the same database to the same database: the
  step relation forgets nothing that the coroutine does.
\<close>

section \<open>Statements when nobody else acts\<close>

definition alone :: "world \<Rightarrow> bool" where
  "alone w \<longleftrightarrow> list_all (\<lambda>e. de_others e = id) (db_events w)"

lemma tx_call_alone:
  assumes "alone w" "tx_call stmt (w, t) = (r, (w', t'))"
  shows "alone w' \<and> database w' = database w \<and> tx_now t' = tx_now t \<and>
    ((\<exists>e. r = Inl e) \<and> tx_view t' = tx_view t \<or> stmt (tx_now t) (tx_view t) = (r, tx_view t'))"
  using assms
  by (cases "db_events w") (auto simp: tx_call_def alone_def Let_def split: prod.splits option.splits)

lemma execute_alone:
  assumes "alone w" "ingestion_execute stmt (w, t) = (r, (w', t'))"
  shows "alone w'" "database w' = database w" "tx_now t' = tx_now t"
    "r = Inr a \<Longrightarrow> stmt (tx_now t) (tx_view t) = (Inr a, tx_view t')"
    "tx_view t' = tx_view t \<or> tx_view t' = snd (stmt (tx_now t) (tx_view t))"
proof -
  obtain r0 where r0: "tx_call stmt (w, t) = (r0, (w', t'))" "\<And>a. r = Inr a \<longleftrightarrow> r0 = Inr a"
    using ingestion_execute_run [OF assms(2)] by blast
  note call = tx_call_alone [OF assms(1) r0(1)]
  show "alone w'" "database w' = database w" "tx_now t' = tx_now t" using call by simp_all
  show "stmt (tx_now t) (tx_view t) = (Inr a, tx_view t')" if "r = Inr a"
    using call that r0(2) [of a] by auto
  show "tx_view t' = tx_view t \<or> tx_view t' = snd (stmt (tx_now t) (tx_view t))" using call by auto
qed

lemma upsert_rows_seq_le: "items_id_seq db \<le> items_id_seq (snd (upsert_rows pg now touched is db))"
proof (induction "is" arbitrary: touched db)
  case (Cons i "is")
  have "items_id_seq db \<le> items_id_seq (snd (upsert_rows pg now t is d))" if "items_id_seq d = items_id_seq db + 1" for t d
    using Cons.IH [of d t] that by linarith
  then show ?case by (simp add: Let_def)
qed simp

lemma upsert_items_stmt_seq_le: "items_id_seq db \<le> items_id_seq (snd (upsert_items_stmt pg is now db))"
  using upsert_rows_seq_le [of db pg now "{}" "is"]
  by (auto simp: upsert_items_stmt_def split: prod.split sum.split)

lemma upsert_metadata_stmt_seq_le: "items_id_seq (snd (upsert_metadata_stmt dv gv ls now db)) = items_id_seq db"
  by (simp add: upsert_metadata_stmt_def Let_def)

section \<open>The worker that holds the lock\<close>

definition held :: "nat \<Rightarrow> phase \<Rightarrow> system \<Rightarrow> system" where
  "held i p s = (set_phase i p s)\<lparr>sy_holder := Some i\<rparr>"

lemma held_simps [simp]:
  "sy_phase (held i p s) = (sy_phase s)(i := p)" "sy_database (held i p s) = sy_database s"
  "sy_committed (held i p s) = sy_committed s" "set_phase i q (held i p s) = held i q s"
  by (simp_all add: held_def set_phase_def)

lemma held_start:
  assumes "i < n" "sy_phase s i = Idle" "sy_holder s = None"
  shows "(ingest_step faults pg snaps n)\<^sup>*\<^sup>* s (held i (Locked t (sy_database s)) s)"
proof -
  let ?s1 = "set_phase i (Waiting t) s"
  have 1: "ingest_step faults pg snaps n s ?s1" using assms by (intro start) simp_all
  have 2: "ingest_step faults pg snaps n ?s1 ((set_phase i (Locked t (sy_database ?s1)) ?s1)\<lparr>sy_holder := Some i\<rparr>)"
    using assms by (intro lock) simp_all
  moreover have "(set_phase i (Locked t (sy_database ?s1)) ?s1)\<lparr>sy_holder := Some i\<rparr> = held i (Locked t (sy_database s)) s"
    by (simp add: held_def set_phase_def)
  ultimately show ?thesis using 1 by (simp add: converse_rtranclp_into_rtranclp [OF _ r_into_rtranclp])
qed

lemma held_waiting_fails:
  assumes "i < n" "sy_phase s i = Idle"
  shows "(ingest_step True pg snaps n)\<^sup>*\<^sup>* s (set_phase i Failed s)"
proof -
  let ?s1 = "set_phase i (Waiting 0) s"
  have 1: "ingest_step True pg snaps n s ?s1" using assms by (intro start) simp_all
  have 2: "ingest_step True pg snaps n ?s1 (set_phase i Failed ?s1)"
    using assms by (intro fail_waiting) simp_all
  have same: "set_phase i Failed ?s1 = set_phase i Failed s" by (simp add: set_phase_def)
  show ?thesis using 1 2 unfolding same by (rule converse_rtranclp_into_rtranclp [OF _ r_into_rtranclp])
qed

lemma held_fails:
  assumes "i < n" "holding_view p = Some v" "items_id_seq v \<le> items_id_seq v'"
  shows "ingest_step True pg snaps n (held i p s) (release (rolled_back v' (set_phase i Failed s)))"
proof -
  have "ingest_step True pg snaps n (held i p s) (release (rolled_back v' (set_phase i Failed (held i p s))))"
    using assms by (intro fail_holding [of True i n _ v]) simp_all
  moreover have "release (rolled_back v' (set_phase i Failed (held i p s))) = release (rolled_back v' (set_phase i Failed s))"
    by (simp add: held_def release_def rolled_back_def set_phase_def)
  ultimately show ?thesis by simp
qed

lemma held_decides: "i < n \<Longrightarrow> ingest_step faults pg snaps n (held i (Locked t v) s) (held i (decided (snaps i) t v) s)"
  using decide [of i n "held i (Locked t v) s" t v faults pg snaps] by simp

text \<open>The batches, one statement each.\<close>

lemma held_batches:
  assumes "i < n" "alone w" "for_each bs (\<lambda>b. ingestion_execute (upsert_items_stmt pg b)) (w, t) = (r, (w', t'))"
  shows "alone w' \<and> database w' = database w \<and> tx_now t' = tx_now t \<and>
    (\<exists>bs' v. (ingest_step True pg snaps n)\<^sup>*\<^sup>* (held i (Writing c bs (tx_view t)) s) (held i (Writing c bs' v) s) \<and>
       (if r = Inr () then bs' = [] \<and> v = tx_view t' else items_id_seq v \<le> items_id_seq (tx_view t')))"
  using assms(2,3)
proof (induction bs arbitrary: w t)
  case Nil
  then show ?case by auto
next
  case (Cons b bs)
  obtain r1 w1 t1 where 1: "ingestion_execute (upsert_items_stmt pg b) (w, t) = (r1, (w1, t1))"
    by (metis prod.exhaust)
  note exec = execute_alone [OF Cons.prems(1) 1]
  show ?case
  proof (cases r1)
    case (Inl e)
    then have "r = Inl e" "w' = w1" "t' = t1" using Cons.prems(2) 1 by (simp_all add: bindM_def)
    moreover have "items_id_seq (tx_view t) \<le> items_id_seq (tx_view t1)"
      using exec(5) upsert_items_stmt_seq_le [of "tx_view t" pg b "tx_now t"] by auto
    ultimately show ?thesis using exec(1-3) by (auto intro!: exI [of _ "b # bs"] exI [of _ "tx_view t"])
  next
    case (Inr u)
    then have rest: "for_each bs (\<lambda>b. ingestion_execute (upsert_items_stmt pg b)) (w1, t1) = (r, (w', t'))"
      using Cons.prems(2) 1 by (simp add: bindM_def)
    have "upsert_items_stmt pg b (tx_now t) (tx_view t) = (Inr (), tx_view t1)"
      using exec(4) [of "()"] Inr by simp
    then have stp: "ingest_step True pg snaps n (held i (Writing c (b # bs) (tx_view t)) s)
        (held i (Writing c bs (tx_view t1)) s)"
      using upsert [of i n "held i (Writing c (b # bs) (tx_view t)) s" c b bs "tx_view t" pg "tx_now t" "tx_view t1"]
        assms(1) by simp
    show ?thesis
      using Cons.IH [OF exec(1) rest] exec(2,3) converse_rtranclp_into_rtranclp [of "ingest_step True pg snaps n", OF stp]
      by (metis (no_types, lifting))
  qed
qed

section \<open>A run of the coroutine is an execution of the steps\<close>

definition steps_from :: "pg_server \<Rightarrow> (nat \<Rightarrow> item_snapshot) \<Rightarrow> nat \<Rightarrow> system \<Rightarrow> system \<Rightarrow> bool" where
  "steps_from pg snaps n s s' \<longleftrightarrow> (ingest_step True pg snaps n)\<^sup>*\<^sup>* s s'"

lemma steps_from_trans [trans]:
  "steps_from pg snaps n s s1 \<Longrightarrow> ingest_step True pg snaps n s1 s2 \<Longrightarrow> steps_from pg snaps n s s2"
  unfolding steps_from_def by (rule rtranclp.rtrancl_into_rtrancl)

text \<open>What the body of the transaction leaves: the worker ready to commit its view, or stopped in a
  phase whose view has used no more of the sequence than the transaction.\<close>

definition body_done :: "nat \<Rightarrow> pg_server \<Rightarrow> (nat \<Rightarrow> item_snapshot) \<Rightarrow> nat \<Rightarrow> system \<Rightarrow> datetime \<Rightarrow>
    exn + datetime option \<Rightarrow> database \<Rightarrow> bool" where
  "body_done i pg snaps n s c r view \<longleftrightarrow>
     (case r of
        Inr x \<Rightarrow> steps_from pg snaps n s (held i (Committing (case x of Some y \<Rightarrow> y | None \<Rightarrow> c) view) s)
      | Inl e \<Rightarrow> steps_from pg snaps n s (set_phase i Failed s) \<and> view = sy_database s \<or>
          (\<exists>p v. steps_from pg snaps n s (held i p s) \<and> holding_view p = Some v \<and> items_id_seq v \<le> items_id_seq view))"

lemma publish_steps:
  assumes "i < n" "alone w" "steps_from pg snaps n s (held i (Writing c (item_batches (snap_items (snaps i))) (tx_view t)) s)"
    "bindM (upsert_items pg (snap_items (snaps i))) (\<lambda>_.
       bindM (upsert_metadata (snap_dataset_version (snaps i)) (snap_game_version (snaps i)) c) (\<lambda>_. ret None)) (w, t) =
     (r, (w', t'))"
  shows "alone w' \<and> database w' = database w \<and> body_done i pg snaps n s c r (tx_view t')"
proof -
  let ?bs = "item_batches (snap_items (snaps i))"
  have loop: "upsert_items pg (snap_items (snaps i)) = for_each ?bs (\<lambda>b. ingestion_execute (upsert_items_stmt pg b))"
    using concat_item_batches [of "snap_items (snaps i)"] item_batches_sizes(1) [of _ "snap_items (snaps i)"]
    by (cases ?bs) (auto simp: upsert_items_def fun_eq_iff)
  obtain r1 w1 t1 where 1: "upsert_items pg (snap_items (snaps i)) (w, t) = (r1, (w1, t1))"
    by (metis prod.exhaust)
  note run = held_batches [OF assms(1,2) 1 [unfolded loop], of snaps c s]
  then obtain bs' v where v: "(ingest_step True pg snaps n)\<^sup>*\<^sup>* (held i (Writing c ?bs (tx_view t)) s) (held i (Writing c bs' v) s)"
    "if r1 = Inr () then bs' = [] \<and> v = tx_view t1 else items_id_seq v \<le> items_id_seq (tx_view t1)" by blast
  have sv: "steps_from pg snaps n s (held i (Writing c bs' v) s)"
    using assms(3) v(1) unfolding steps_from_def by (rule rtranclp_trans)
  show ?thesis
  proof (cases r1)
    case (Inl e)
    then have "r = Inl e" "w' = w1" "t' = t1" using assms(4) 1 by (simp_all add: bindM_def)
    moreover have "\<exists>p v. steps_from pg snaps n s (held i p s) \<and> holding_view p = Some v \<and>
        items_id_seq v \<le> items_id_seq (tx_view t1)"
      using sv v(2) Inl by (intro exI [of _ "Writing c bs' v"] exI [of _ v]) simp
    ultimately show ?thesis using run by (simp add: body_done_def)
  next
    case (Inr u)
    then have here: "steps_from pg snaps n s (held i (Writing c [] (tx_view t1)) s)" using sv v(2) by simp
    obtain r2 w2 t2 where 2: "upsert_metadata (snap_dataset_version (snaps i)) (snap_game_version (snaps i)) c (w1, t1) =
        (r2, (w2, t2))" by (metis prod.exhaust)
    have w1: "alone w1" "database w1 = database w" using run by simp_all
    note exec = execute_alone [OF w1(1) 2 [unfolded upsert_metadata_def]]
    show ?thesis
    proof (cases r2)
      case (Inl e)
      then have "r = Inl e" "w' = w2" "t' = t2" using assms(4) 1 2 Inr by (simp_all add: bindM_def)
      moreover have "items_id_seq (tx_view t2) = items_id_seq (tx_view t1)"
        using exec(5) upsert_metadata_stmt_seq_le by auto
      then have "\<exists>p v. steps_from pg snaps n s (held i p s) \<and> holding_view p = Some v \<and>
          items_id_seq v \<le> items_id_seq (tx_view t2)"
        using here by (intro exI [of _ "Writing c [] (tx_view t1)"] exI [of _ "tx_view t1"]) simp
      ultimately show ?thesis using exec(1,2) w1(2) by (simp add: body_done_def)
    next
      case (Inr u')
      then have res: "r = Inr None" "w' = w2" "t' = t2" using assms(4) 1 2 \<open>r1 = Inr u\<close> by (simp_all add: bindM_def)
      have "upsert_metadata_stmt (snap_dataset_version (snaps i)) (snap_game_version (snaps i)) c (tx_now t1) (tx_view t1) =
          (Inr (), tx_view t2)" using exec(4) [of "()"] Inr by simp
      then have "ingest_step True pg snaps n (held i (Writing c [] (tx_view t1)) s) (held i (Committing c (tx_view t2)) s)"
        using metadata [of i n "held i (Writing c [] (tx_view t1)) s" c "tx_view t1" snaps "tx_now t1" "tx_view t2" True pg]
          assms(1) by simp
      then show ?thesis
        using steps_from_trans [OF here] res exec(1,2) w1(2) by (simp add: body_done_def)
    qed
  qed
qed

lemma alone_under_lock: "alone w \<Longrightarrow> under_lock (w, t)"
  by (auto simp: alone_def under_lock_def undisturbed_def list_all_iff)

lemma get_last_sync_alone:
  assumes "alone w" "get_last_sync (w, t) = (r, (w', t'))"
  shows "alone w' \<and> database w' = database w \<and> tx_view t' = tx_view t \<and>
    (\<forall>x. r = Inr x \<longrightarrow> x = last_sync_of (catalogue_of (tx_view t)))"
proof -
  obtain r1 where "ingestion_execute last_sync_stmt (w, t) = (r1, (w', t'))"
    using assms(2) by (auto simp: get_last_sync_def bindM_def split: prod.splits sum.splits)
  from execute_alone [OF assms(1) this] show ?thesis
    using get_last_sync_law [OF alone_under_lock [OF assms(1)] assms(2)] by (auto simp: last_sync_stmt_def)
qed

lemma body_steps:
  assumes "i < n" "sy_phase s i = Idle" "sy_holder s = None" "sy_database s = database w" "alone w"
    "tx_view t = database w"
    "ingest_body (sqlalchemy_ingestion_repository pg) (snaps i) c (w, t) = (r, (w', t'))"
  shows "alone w' \<and> database w' = database w \<and> body_done i pg snaps n s c r (tx_view t')"
proof -
  let ?publish = "bindM (upsert_items pg (snap_items (snaps i))) (\<lambda>_.
       bindM (upsert_metadata (snap_dataset_version (snaps i)) (snap_game_version (snaps i)) c) (\<lambda>_. ret None))"
  have body: "ingest_body (sqlalchemy_ingestion_repository pg) (snaps i) c =
      bindM acquire_lock (\<lambda>_. bindM get_last_sync (\<lambda>cur. case cur of None \<Rightarrow> ?publish
        | Some y \<Rightarrow> if c \<le> y then ret (Some y) else ?publish))"
    by (simp add: ingest_body_def sqlalchemy_ingestion_repository_def Let_def)
  obtain r1 w1 t1 where 1: "acquire_lock (w, t) = (r1, (w1, t1))" by (metis prod.exhaust)
  note lock = execute_alone [OF assms(5) 1 [unfolded acquire_lock_def]]
  have v1: "tx_view t1 = database w" using lock(5) assms(6) by (auto simp: lock_stmt_def)
  show ?thesis
  proof (cases r1)
    case (Inl e)
    then have "r = Inl e" "w' = w1" "t' = t1" using assms(7) 1 body by (simp_all add: bindM_def)
    then show ?thesis
      using lock(1,2) v1 assms(4) held_waiting_fails [OF assms(1,2), of pg snaps]
      by (simp add: body_done_def steps_from_def)
  next
    case (Inr u)
    let ?v = "database w"
    have locked: "steps_from pg snaps n s (held i (Locked c ?v) s)"
      using held_start [OF assms(1-3), of True pg snaps c] assms(4) by (simp add: steps_from_def)
    obtain r2 w2 t2 where 2: "get_last_sync (w1, t1) = (r2, (w2, t2))" by (metis prod.exhaust)
    note last = get_last_sync_alone [OF lock(1) 2]
    have w2: "alone w2" "database w2 = database w" "tx_view t2 = ?v" using last lock(2) v1 by simp_all
    show ?thesis
    proof (cases r2)
      case (Inl e)
      then have "r = Inl e" "w' = w2" "t' = t2" using assms(7) 1 2 body \<open>r1 = Inr u\<close> by (simp_all add: bindM_def)
      moreover have "\<exists>p v. steps_from pg snaps n s (held i p s) \<and> holding_view p = Some v \<and> items_id_seq v \<le> items_id_seq ?v"
        using locked by (intro exI [of _ "Locked c ?v"] exI [of _ ?v]) simp
      ultimately show ?thesis using w2 by (simp add: body_done_def)
    next
      case (Inr cur)
      then have cur: "cur = last_sync_of (catalogue_of ?v)" using last v1 by simp
      have decided: "steps_from pg snaps n s (held i (decided (snaps i) c ?v) s)"
        using steps_from_trans [OF locked held_decides [OF assms(1)]] .
      have rest: "(case cur of None \<Rightarrow> ?publish | Some y \<Rightarrow> if c \<le> y then ret (Some y) else ?publish) (w2, t2) = (r, (w', t'))"
        using assms(7) 1 2 body Inr \<open>r1 = Inr u\<close> by (simp add: bindM_def)
      show ?thesis
      proof (cases "\<exists>y. cur = Some y \<and> c \<le> y")
        case True
        then obtain y where "cur = Some y" "c \<le> y" by blast
        then show ?thesis
          using rest w2 decided cur by (auto simp: body_done_def decided_def)
      next
        case False
        then have "?publish (w2, t2) = (r, (w', t'))" using rest by (auto split: option.splits)
        moreover have "decided (snaps i) c ?v = Writing c (item_batches (snap_items (snaps i))) (tx_view t2)"
          using False cur w2(3) by (auto simp: decided_def split: option.split)
        ultimately show ?thesis using publish_steps [OF assms(1) w2(1)] decided w2(2) by simp
      qed
    qed
  qed
qed

lemma commit_alone:
  assumes "alone w" "tx_commit t w = (r, w')"
  shows "(case r of Inr _ \<Rightarrow> database w' = tx_view t
     | Inl e \<Rightarrow> database w' = tx_view t \<or> database w' = database (tx_rollback t w))"
  using assms
  by (cases "db_events w") (auto simp: tx_commit_def tx_rollback_def alone_def Let_def split: option.splits)

text \<open>A transaction whose body failed is rolled back.\<close>

lemma stopped_fails:
  assumes "i < n" "sy_holder s = None"
    "steps_from pg snaps n s (set_phase i Failed s) \<and> view = sy_database s \<or>
     (\<exists>p v. steps_from pg snaps n s (held i p s) \<and> holding_view p = Some v \<and> items_id_seq v \<le> items_id_seq view)"
  shows "steps_from pg snaps n s (release (rolled_back view (set_phase i Failed s)))"
  using assms(3)
proof (elim disjE exE conjE)
  assume s: "steps_from pg snaps n s (set_phase i Failed s)" "view = sy_database s"
  have "release (rolled_back view (set_phase i Failed s)) = set_phase i Failed s"
    using assms(2) s(2) by (simp add: release_def rolled_back_def set_phase_def)
  then show ?thesis using s(1) by simp
next
  fix p v
  assume "steps_from pg snaps n s (held i p s)" "holding_view p = Some v" "items_id_seq v \<le> items_id_seq view"
  then show ?thesis using steps_from_trans held_fails [OF assms(1)] by blast
qed

text \<open>The ways a COMMIT ends.\<close>

lemma commit_steps:
  assumes "i < n" "sy_database s = database w" "steps_from pg snaps n s (held i (Committing c (tx_view t)) s)"
    "alone w1" "database w1 = database w" "tx_commit t w1 = (rc, w2)"
  shows "\<exists>s'. (ingest_step True pg snaps n)\<^sup>*\<^sup>* s s' \<and> sy_database s' = database w2 \<and> sy_holder s' = None \<and>
    sy_phase s' = (sy_phase s)(i := case rc of Inl e \<Rightarrow> Failed | Inr u \<Rightarrow> Done c) \<and>
    (\<forall>u. rc = Inr u \<longrightarrow> sy_committed s' = sy_committed s @ [(i, c)])"
proof -
  let ?h = "held i (Committing c (tx_view t)) s"
  let ?committed = "?h\<lparr>sy_database := tx_view t, sy_committed := sy_committed ?h @ [(i, c)]\<rparr>"
  let ?goal_at = "\<lambda>s'. sy_database s' = database w2 \<and> sy_holder s' = None \<and>
    sy_phase s' = (sy_phase s)(i := case rc of Inl e \<Rightarrow> Failed | Inr u \<Rightarrow> Done c) \<and>
    (\<forall>u. rc = Inr u \<longrightarrow> sy_committed s' = sy_committed s @ [(i, c)])"
  have last: ?thesis if "ingest_step True pg snaps n ?h s'" "?goal_at s'" for s'
    using steps_from_trans [OF assms(3) that(1)] that(2) unfolding steps_from_def by blast
  note commit_cases = commit_alone [OF assms(4,6)]
  show ?thesis
  proof (cases rc)
    case (Inr u)
    have "ingest_step True pg snaps n ?h (release (set_phase i (Done c) ?committed))"
      using commit [of i n ?h c "tx_view t" True pg snaps] assms(1) by simp
    then show ?thesis by (rule last) (use commit_cases Inr in simp)
  next
    case (Inl e)
    then consider "database w2 = tx_view t" | "database w2 = database (tx_rollback t w1)"
      using commit_cases by auto
    then show ?thesis
    proof cases
      case 1
      have "ingest_step True pg snaps n ?h (release (set_phase i Failed ?committed))"
        using lose_commit [of True i n ?h c "tx_view t" pg snaps] assms(1) by simp
      then show ?thesis by (rule last) (use 1 Inl in simp)
    next
      case 2
      have "ingest_step True pg snaps n ?h (release (rolled_back (tx_view t) (set_phase i Failed s)))"
        by (rule held_fails [OF assms(1), of _ "tx_view t"]) simp_all
      then show ?thesis
        by (rule last) (use 2 Inl assms(2,5) in \<open>simp add: tx_rollback_def rolled_back_def release_def set_phase_def\<close>)
    qed
  qed
qed

end
