(* ===== verification/IngestionTheorems.thy ===== *)
theory IngestionTheorems
  imports IngestionSamples IngestionSteps
begin

text \<open>
  The properties of ingestion: the validation of a snapshot, the transaction that
  publishes it, several ingestions at once.
\<close>

section \<open>Facts the properties share\<close>

lemma when_locked_calm: "db_events w = [] \<Longrightarrow> when_locked w = catalogue_of (database w)"
  by (simp add: when_locked_def)

lemma undisturbed_calm: "db_events w = [] \<Longrightarrow> undisturbed (tl (db_events w))"
  by (simp add: undisturbed_def)

lemma db_rely_calm: "db_events w = [] \<Longrightarrow> P (database w) \<Longrightarrow> db_rely P w"
  by (simp add: db_rely_def)

text \<open>An ingestion without interference returns, with the whole snapshot published.\<close>

lemma ingest_calm:
  assumes "db_events w = []" "db_ok (database w)" "storable_snapshot lib pg snapshot"
    "items_id_seq (database w) + int (length (snap_items snapshot)) \<le> 2147483648"
  obtains t w' where "ingest (ingestion_service_of pg clock) snapshot w = (Inr t, w')"
    "t = sync_time (clock w) (catalogue_of (database w))"
    "catalogue_of (database w') = ingested snapshot (clock w) (catalogue_of (database w))" "db_ok (database w')"
proof -
  obtain t w' where run: "ingest (ingestion_service_of pg clock) snapshot w = (Inr t, w')"
    using ingest_succeeds [OF assms, of clock] by (metis prod.collapse)
  have "distinct (map imp_game_id (snap_items snapshot))"
    using assms(3) by (simp add: storable_snapshot_def snapshot_ok_def)
  note out = ingest_outcome [OF undisturbed_calm [OF assms(1)] this run]
  have "db_ok (database w')"
    using ingest_db_ok [OF db_rely_calm [of w db_ok, OF assms(1,2)], of pg clock snapshot] run by simp
  then show thesis using that run out when_locked_calm [OF assms(1)] by simp
qed

lemma sample_catalogue:
  "catalogue_of sample_db = \<lparr>cat_items = [5 \<mapsto> import_of_row sample_row],
     cat_metadata = Some \<lparr>dm_dataset_version = lit ''1.0'', dm_game_version = None, dm_last_sync = 0\<rparr>\<rparr>"
  by (simp add: catalogue_of_def row_map_def metadata_of_def sample_db_def sample_row_def)

lemma sample_last_sync: "last_sync_of (catalogue_of sample_db) = Some 0"
  by (simp add: sample_catalogue last_sync_of_def)

lemma sample_seq: "items_id_seq sample_db = 2"
  by (simp add: sample_db_def)

section \<open>Snapshots\<close>

text \<open>C14. What the validation accepts is storable: bounded, non-blank, NUL-free text without
  surrounding white space, identifiers and qualities in range, absolute HTTP(S) image
  URLs, unique identifiers, between one and 10000 items.\<close>

theorem snapshot_validation_sound:
  assumes "model_validate_snapshot lib value = Inr s"
  shows "snapshot_ok (vl_unicode lib) s"
  using assms by (auto simp: model_validate_snapshot_def intro: validate_snapshot_ok split: outcome.splits)

theorem snapshot_validation_sound_witness: "snapshot_ok ascii_unicode sample_snapshot"
  using snapshot_validation_sound [of sample_lib "snapshot_json sample_snapshot" sample_snapshot]
    validate_snapshot_json [OF sample_snapshot_ok sample_types]
  by (simp add: model_validate_snapshot_def sample_lib_def)

text \<open>C32. A snapshot that was accepted once and whose types are in lower case is accepted again
  in its published form, and unchanged.\<close>

theorem snapshot_roundtrip:
  assumes "snapshot_ok (vl_unicode lib) s" "types_published (vl_unicode lib) s"
  shows "model_validate_snapshot lib (snapshot_json s) = Inr s"
  by (simp add: model_validate_snapshot_def validate_snapshot_json [OF assms])

theorem snapshot_roundtrip_witness:
  "model_validate_snapshot sample_lib (snapshot_json sample_snapshot) = Inr sample_snapshot"
  by (rule snapshot_roundtrip [OF sample_snapshot_ok sample_types])

section \<open>The transaction\<close>

text \<open>C3. One run of \<open>ingest\<close> refines the specification \<open>ingested\<close> on the catalogue. When it
  returns, the tables hold the snapshot over what was there when the lock was granted
  (nothing changes for a clock that is not later than the last synchronisation) and
  the time returned is the new last synchronisation; when it raises, at any statement
  and even on a lost acknowledgement of the commit, all of it is there or none. The
  hypothesis on the other clients is the discipline of the lock.\<close>

theorem ingest_refines:
  assumes "undisturbed (tl (db_events w))" "distinct (map imp_game_id (snap_items snapshot))"
    "ingest (ingestion_service_of pg clock) snapshot w = (r, w')"
  shows "case r of
      Inr t \<Rightarrow> t = sync_time (clock w) (when_locked w) \<and>
        catalogue_of (database w') = ingested snapshot (clock w) (when_locked w) \<and>
        last_sync_of (catalogue_of (database w')) = Some t
    | Inl _ \<Rightarrow> catalogue_of (database w') \<in> {when_locked w, ingested snapshot (clock w) (when_locked w)}"
  using ingest_outcome [OF assms] by (cases r) (simp_all add: last_sync_ingested)

theorem ingest_refines_witness:
  "\<exists>w'. ingest (ingestion_service_of sample_pg (\<lambda>_. 5)) sample_snapshot sample_world = (Inr 5, w') \<and>
     cat_items (catalogue_of (database w')) 7 = Some sample_import \<and>
     cat_items (catalogue_of (database w')) 5 = Some (import_of_row sample_row)"
proof -
  obtain t w' where run: "ingest (ingestion_service_of sample_pg (\<lambda>_. 5)) sample_snapshot sample_world = (Inr t, w')"
    by (rule ingest_calm [of sample_world sample_lib sample_pg sample_snapshot])
      (simp_all add: sample_storable_snapshot sample_seq, simp add: sample_snapshot_def)
  have "t = sync_time 5 (catalogue_of sample_db) \<and>
      catalogue_of (database w') = ingested sample_snapshot 5 (catalogue_of sample_db)"
    using ingest_refines [OF undisturbed_calm sample_distinct run] by (simp add: when_locked_calm)
  then show ?thesis
    using run sample_last_sync
    by (simp add: sync_time_def ingested_def stale_def publish_def sample_catalogue import_map_def
        sample_snapshot_def sample_import_def)
qed

text \<open>C21. When nobody else acts, no call fails, the sequence of surrogate keys has values left for
  every item and the index entries of the names and types are within PostgreSQL's limit, an
  ingestion of a validated snapshot returns: every text fits its column, every number its integer
  type, no batch exceeds the protocol's limit of parameters. The catalogue is then what the
  specification \<open>ingested\<close> says: the snapshot over what was there, or, for a clock that is not later
  than the last synchronisation, what was there.\<close>

theorem ingest_publishes:
  assumes "db_events w = []" "db_ok (database w)" "storable_snapshot lib pg snapshot"
    "items_id_seq (database w) + int (length (snap_items snapshot)) \<le> 2147483648"
  shows "\<exists>w'. ingest (ingestion_service_of pg clock) snapshot w =
      (Inr (sync_time (clock w) (catalogue_of (database w))), w') \<and>
    catalogue_of (database w') = ingested snapshot (clock w) (catalogue_of (database w))"
  by (rule ingest_calm [OF assms, of clock]) blast

theorem ingest_publishes_witness:
  "\<exists>w'. ingest (ingestion_service_of sample_pg (\<lambda>_. 5)) sample_snapshot sample_world =
      (Inr (sync_time 5 (catalogue_of sample_db)), w') \<and>
    catalogue_of (database w') = ingested sample_snapshot 5 (catalogue_of sample_db)"
  using ingest_publishes [of sample_world sample_lib sample_pg sample_snapshot "\<lambda>_. 5"]
    sample_storable_snapshot by (simp add: sample_seq sample_snapshot_def)

text \<open>C24. An upsert never deletes a row nor changes its identity: surrogate key, \<open>game_id\<close> and
  \<open>created_at\<close> of every row stay, new rows come after the old ones.\<close>

theorem ingest_keeps_rows:
  assumes "undisturbed (db_events w)"
  shows "\<exists>new. map row_identity (items_table (database (final (ingest (ingestion_service_of pg clock) snapshot) w))) =
    map row_identity (items_table (database w)) @ new"
  using ingest_extends [OF assms] by (simp add: rows_extend_def)

theorem ingest_keeps_rows_witness:
  "\<exists>new. map row_identity
      (items_table (database (final (ingest (ingestion_service_of sample_pg (\<lambda>_. 5)) sample_snapshot) sample_world))) =
    (1, 5, 0) # new"
  using ingest_keeps_rows [of sample_world sample_pg "\<lambda>_. 5" sample_snapshot]
  by (simp add: undisturbed_def) (simp add: sample_db_def sample_row_def)

text \<open>C29. When the only errors of the database are those of the driver, an ingestion fails with
  the service-unavailable error, or with the driver's own error when it is the commit
  that fails; the command maps both to the same message.\<close>

theorem ingest_errors:
  assumes "db_faults ingestion_failure w"
  shows "case result (ingest (ingestion_service_of pg clock) snapshot) w of
      Inr _ \<Rightarrow> True
    | Inl e \<Rightarrow> unavailable e \<and> exit_message e = (1, lit ''Ingestion failed: required service is unavailable'')"
proof (cases "ingest (ingestion_service_of pg clock) snapshot w")
  case (Pair r w')
  then show ?thesis
    using ingest_failures [OF assms, of pg clock snapshot]
    by (cases r) (auto simp: unavailable_def ingestion_failure_def SERVICE_UNAVAILABLE_def exit_message_def
        service_failure_def is_OSError_def split: exn.splits)
qed

definition failing_world :: world where
  "failing_world = sample_world\<lparr>db_events :=
     [\<lparr>de_others = id, de_fault = Some InterfaceError, de_executed = False, de_choice = 0\<rparr>]\<rparr>"

theorem ingest_errors_witness:
  "result (ingest (ingestion_service_of sample_pg (\<lambda>_. 5)) sample_snapshot) failing_world = Inl SERVICE_UNAVAILABLE \<and>
   exit_message SERVICE_UNAVAILABLE = (1, lit ''Ingestion failed: required service is unavailable'')"
proof -
  have "result (ingest (ingestion_service_of sample_pg (\<lambda>_. 5)) sample_snapshot) failing_world = Inl SERVICE_UNAVAILABLE"
    by (simp add: ingest_def in_transaction_def ingest_body_def ingestion_service_of_def acquire_lock_def
        sqlalchemy_ingestion_repository_def ingestion_execute_def tx_call_def failing_world_def bindM_def catchM_def
        ingestion_failure_def Let_def)
  then show ?thesis
    using ingest_errors [of failing_world sample_pg "\<lambda>_. 5" sample_snapshot]
    by (simp add: db_faults_def failing_world_def ingestion_failure_def)
qed

section \<open>Several ingestions at once\<close>

text \<open>C4. Whatever the interleaving of the workers' statements, failures and crashes included,
  the committed catalogue is the one of a serial execution of the committed ingestions
  in commit order: no update is lost and no transaction is seen in part. This is the
  discipline that the theorems on a single run assume of the other clients.\<close>

theorem ingestions_serializable:
  assumes "reachable faults pg snaps n db s" "\<And>i. distinct (map imp_game_id (snap_items (snaps i)))"
  shows "catalogue_of (sy_database s) = serial snaps (sy_committed s) (catalogue_of db)"
  using reachable_serial [OF assms] by simp

text \<open>C5. Every run of the coroutine \<open>ingest\<close> during which nobody else acts, whichever of its calls
  fail and also when its COMMIT is executed but not acknowledged, is an execution of the
  steps of one worker, from any state in which the lock is free: to the same database, done
  with the value returned, or failed. So what holds of all executions of the steps holds of
  the code.\<close>

theorem ingest_runs_in_steps:
  assumes "alone w" "ingest (ingestion_service_of pg clock) (snaps i) w = (r, w')" "i < n"
    "sy_phase s i = Idle" "sy_holder s = None" "sy_database s = database w"
  shows "\<exists>s'. (ingest_step True pg snaps n)\<^sup>*\<^sup>* s s' \<and> sy_database s' = database w' \<and> sy_holder s' = None \<and>
    sy_phase s' = (sy_phase s)(i := case r of Inr t \<Rightarrow> Done t | Inl e \<Rightarrow> Failed) \<and>
    (\<forall>t. r = Inr t \<longrightarrow> sy_committed s' = sy_committed s @ [(i, t)])"
proof -
  let ?t0 = "\<lparr>tx_now = pg_now pg w, tx_view = database w\<rparr>"
  obtain rb w1 t1 where b: "ingest_body (sqlalchemy_ingestion_repository pg) (snaps i) (clock w) (w, ?t0) = (rb, (w1, t1))"
    by (metis prod.exhaust)
  have body: "alone w1" "database w1 = database w" "body_done i pg snaps n s (clock w) rb (tx_view t1)"
    using body_steps [OF assms(3-6,1), of ?t0 pg snaps "clock w" rb w1 t1] b by simp_all
  show ?thesis
  proof (cases rb)
    case (Inl e)
    then have r: "r = Inl e" "w' = tx_rollback t1 w1"
      using assms(2) b by (simp_all add: ingest_def ingestion_service_of_def in_transaction_def bindM_def getsM_def)
    have "database w' = sy_database (rolled_back (tx_view t1) (set_phase i Failed s))"
      using r(2) body(2) assms(6) by (simp add: tx_rollback_def rolled_back_def)
    then show ?thesis
      using stopped_fails [OF assms(3,5) body(3) [unfolded Inl body_done_def sum.case]] r(1)
      by (auto simp: steps_from_def intro!: exI [of _ "release (rolled_back (tx_view t1) (set_phase i Failed s))"])
  next
    case (Inr x)
    let ?c = "case x of Some y \<Rightarrow> y | None \<Rightarrow> clock w"
    obtain rc w2 where c: "tx_commit t1 w1 = (rc, w2)" by (rule prod.exhaust)
    have r: "w' = w2" "r = (case rc of Inl e \<Rightarrow> Inl e | Inr u \<Rightarrow> Inr ?c)"
      using assms(2) b c Inr
      by (auto simp: ingest_def ingestion_service_of_def in_transaction_def bindM_def getsM_def split: sum.splits option.splits)
    have "steps_from pg snaps n s (held i (Committing ?c (tx_view t1)) s)"
      using body(3) Inr by (simp add: body_done_def)
    from commit_steps [OF assms(3,6) this body(1,2) c] show ?thesis
      by (cases rc) (simp_all add: r)
  qed
qed

theorem ingest_runs_in_steps_witness:
  "\<exists>t w' s'. ingest (ingestion_service_of sample_pg (\<lambda>_. 5)) sample_snapshot sample_world = (Inr t, w') \<and>
     (ingest_step True sample_pg (\<lambda>_. sample_snapshot) 1)\<^sup>*\<^sup>* (initial_system sample_db) s' \<and>
     sy_database s' = database w' \<and> sy_phase s' 0 = Done t"
proof -
  obtain t w' where run: "ingest (ingestion_service_of sample_pg (\<lambda>_. 5)) sample_snapshot sample_world = (Inr t, w')"
    by (rule ingest_calm [of sample_world sample_lib sample_pg sample_snapshot "\<lambda>_. 5"])
       (simp_all add: sample_storable_snapshot sample_seq, simp add: sample_snapshot_def)
  have "alone sample_world" by (simp add: alone_def)
  then obtain s' where "(ingest_step True sample_pg (\<lambda>_. sample_snapshot) 1)\<^sup>*\<^sup>* (initial_system sample_db) s'"
    "sy_database s' = database w'" "sy_phase s' 0 = Done t"
    using ingest_runs_in_steps [of sample_world sample_pg "\<lambda>_. 5" "\<lambda>_. sample_snapshot" 0 "Inr t" w' 1
        "initial_system sample_db"] run
    by (auto simp: initial_system_def)
  then show ?thesis using run by blast
qed

text \<open>A run of one worker, for the witnesses.\<close>

definition sample_run :: system where
  "sample_run = (initial_system sample_db)\<lparr>sy_phase := (\<lambda>_. Idle)(0 := Locked 5 sample_db), sy_holder := Some 0\<rparr>"

lemma sample_reachable: "reachable False sample_pg (\<lambda>_. sample_snapshot) 1 sample_db sample_run"
proof -
  let ?s0 = "initial_system sample_db" and ?s1 = "set_phase 0 (Waiting 5) (initial_system sample_db)"
  have "ingest_step False sample_pg (\<lambda>_. sample_snapshot) 1 ?s0 ?s1"
    by (rule ingest_step.start) (simp_all add: initial_system_def)
  moreover have "ingest_step False sample_pg (\<lambda>_. sample_snapshot) 1 ?s1
      ((set_phase 0 (Locked 5 (sy_database ?s1)) ?s1)\<lparr>sy_holder := Some 0\<rparr>)"
    by (rule ingest_step.lock) (simp_all add: initial_system_def)
  moreover have "(set_phase 0 (Locked 5 (sy_database ?s1)) ?s1)\<lparr>sy_holder := Some 0\<rparr> = sample_run"
    by (simp add: sample_run_def initial_system_def set_phase_def)
  ultimately show ?thesis using reachable.intros by metis
qed

lemma sample_commits:
  "\<exists>s. reachable False sample_pg (\<lambda>_. sample_snapshot) 1 sample_db s \<and> sy_committed s = [(0, 5)] \<and>
     sy_phase s 0 = Done 5"
proof -
  let ?step = "ingest_step False sample_pg (\<lambda>_. sample_snapshot) 1"
  have batches: "item_batches (snap_items sample_snapshot) = [[sample_import]]"
    by (simp add: item_batches_def py_range_def slice_def sample_snapshot_def ITEM_BATCH_SIZE_def)
  obtain v1 where v1: "upsert_items_stmt sample_pg [sample_import] 0 sample_db = (Inr (), v1)"
    using upsert_items_stmt_enabled [of sample_db sample_pg 5 "[sample_import]" "[]" sample_snapshot 0]
      storable_items [OF sample_storable_snapshot]
    by (auto simp: batches_ok_def remaining_def sample_snapshot_def ITEM_BATCH_SIZE_def sample_seq)
  obtain v2 where v2: "upsert_metadata_stmt (snap_dataset_version sample_snapshot)
      (snap_game_version sample_snapshot) 5 0 v1 = (Inr (), v2)"
    using upsert_metadata_stmt_enabled [OF sample_storable_snapshot] by blast
  let ?s1 = "set_phase 0 (Writing 5 [[sample_import]] sample_db) sample_run"
  let ?s2 = "set_phase 0 (Writing 5 [] v1) ?s1" and ?s3 = "set_phase 0 (Committing 5 v2) (set_phase 0 (Writing 5 [] v1) ?s1)"
  have 1: "?step sample_run ?s1"
    using ingest_step.decide [of 0 1 sample_run 5 sample_db False sample_pg "\<lambda>_. sample_snapshot"] sample_last_sync batches
    by (simp add: sample_run_def decided_def)
  have 2: "?step ?s1 ?s2" using v1 by (intro ingest_step.upsert) simp_all
  have 3: "?step ?s2 ?s3" using v2 by (intro ingest_step.metadata) simp_all
  have 4: "?step ?s3 (release (set_phase 0 (Done 5)
      (?s3\<lparr>sy_database := v2, sy_committed := sy_committed ?s3 @ [(0, 5)]\<rparr>)))"
    by (intro ingest_step.commit) simp_all
  have "reachable False sample_pg (\<lambda>_. sample_snapshot) 1 sample_db (release (set_phase 0 (Done 5)
      (?s3\<lparr>sy_database := v2, sy_committed := sy_committed ?s3 @ [(0, 5)]\<rparr>)))"
    by (rule reachable.step [OF reachable.step [OF reachable.step [OF reachable.step [OF sample_reachable 1] 2] 3] 4])
  moreover have "sy_committed (release (set_phase 0 (Done 5)
      (?s3\<lparr>sy_database := v2, sy_committed := sy_committed ?s3 @ [(0, 5)]\<rparr>))) = [(0, 5)]"
    "sy_phase (release (set_phase 0 (Done 5)
      (?s3\<lparr>sy_database := v2, sy_committed := sy_committed ?s3 @ [(0, 5)]\<rparr>))) 0 = Done 5"
    by (simp_all add: sample_run_def initial_system_def)
  ultimately show ?thesis by blast
qed

theorem ingestions_serializable_witness:
  "\<exists>s :: system. sy_committed s = [(0, 5)] \<and> catalogue_of (sy_database s) = ingested sample_snapshot 5 (catalogue_of sample_db)"
proof -
  obtain s where s: "reachable False sample_pg (\<lambda>_. sample_snapshot) 1 sample_db s" "sy_committed s = [(0, 5)]"
    using sample_commits by blast
  have "catalogue_of (sy_database s) = ingested sample_snapshot 5 (catalogue_of sample_db)"
    using ingestions_serializable [OF s(1)] sample_distinct s(2) by (simp add: serial_def)
  with s(2) show ?thesis by blast
qed

text \<open>C20. Without failures every ingestion of a storable snapshot (validated, with names and types
  that the indexes can hold, and with values of the sequence left for all of them) completes: from
  any reachable state the workers can go on until all of them are done, and a state in which none
  can move is one in which all are. No deadlock, no starvation by the lock, no worker stuck on
  its data.\<close>

theorem ingestions_finish:
  assumes "reachable False pg snaps n db s" "\<And>i. storable_snapshot lib pg (snaps i)" "db_ok db"
    "items_id_seq db + int (\<Sum>i<n. length (snap_items (snaps i))) \<le> 2147483648"
  shows "(\<exists>s'. (ingest_step False pg snaps n)\<^sup>*\<^sup>* s s' \<and> (\<forall>i<n. \<exists>t. sy_phase s' i = Done t)) \<and>
    ((\<exists>s'. ingest_step False pg snaps n s s') \<or> (\<forall>i<n. \<exists>t. sy_phase s i = Done t))"
proof -
  have live: "live pg snaps n s" by (rule reachable_live [OF assms])
  then show ?thesis using live_finishes [OF assms(2) live] step_enabled [OF assms(2) live] by blast
qed

theorem ingestions_finish_witness:
  "\<exists>s'. (ingest_step False sample_pg (\<lambda>_. sample_snapshot) 1)\<^sup>*\<^sup>* sample_run s' \<and> (\<exists>t. sy_phase s' 0 = Done t)"
  using ingestions_finish [OF sample_reachable sample_storable_snapshot sample_db_ok]
  by (simp add: sample_snapshot_def sample_seq)

text \<open>C39. There is no infinite execution, failures included: each worker runs the lock, the
  comparison and one statement a batch at most once, so the steps are well founded.\<close>

theorem ingestions_terminate: "wfP (\<lambda>s' s. ingest_step faults pg snaps n s s')"
  by (rule wfp_if_convertible_to_nat [of _ "system_rank snaps n"]) (rule step_rank)

end
