(* ===== verification/ConfigSamples.thy ===== *)
theory ConfigSamples
  imports IngestionSamples
begin

text \<open>
  Concrete settings, evaluated down to the URLs: a development source with local services
  and a production one with remote services.
\<close>

definition sample_source :: settings_source where
  "sample_source =
     \<lparr>ss_unicode = ascii_unicode,
      ss_environ = [(lit ''DATABASE_URL'', lit ''postgresql+asyncpg://u@localhost/db''), (lit ''REDIS_URL'', lit ''redis://localhost'')],
      ss_dotenv = [], ss_float = (\<lambda>_. None), ss_int = (\<lambda>_. None)\<rparr>"

definition sample_database_parts :: split_result where
  "sample_database_parts = \<lparr>sp_scheme = lit ''postgresql+asyncpg'', sp_netloc = lit ''u@localhost'', sp_path = lit ''/db'',
     sp_query = [], sp_fragment = []\<rparr>"

definition sample_redis_parts :: split_result where
  "sample_redis_parts = \<lparr>sp_scheme = lit ''redis'', sp_netloc = lit ''localhost'', sp_path = [], sp_query = [], sp_fragment = []\<rparr>"

lemma sample_splits:
  "urlsplit u (lit ''postgresql+asyncpg://u@localhost/db'') = Inr sample_database_parts"
  "urlsplit u (lit ''redis://localhost'') = Inr sample_redis_parts"
  by (simp_all add: split_defs sample_database_parts_def sample_redis_parts_def)

lemma setting_sample:
  "setting sample_source ''database_url'' = Some (lit ''postgresql+asyncpg://u@localhost/db'')"
  "setting sample_source ''redis_url'' = Some (lit ''redis://localhost'')"
  "setting sample_source ''environment'' = None"
  "setting sample_source ''dependency_timeout_seconds'' = None"
  "setting sample_source ''redis_max_connections'' = None"
  by (simp_all add: setting_def variables_def sample_source_def ascii_unicode_def)
   (simp_all add: lit_def ascii_lower_def)

lemma parse_qs_Nil: "parse_qs [] = []"
  by (simp add: parse_qs_def parse_qsl_def)

lemma sample_parts:
  "url_hostname ascii_unicode sample_database_parts = Some (lit ''localhost'')"
  "url_port sample_database_parts = Inr None"
  "url_username sample_database_parts = Some (lit ''u'')"
  "url_password sample_database_parts = None"
  "url_hostname ascii_unicode sample_redis_parts = Some (lit ''localhost'')"
  "url_port sample_redis_parts = Inr None"
  "url_username sample_redis_parts = None"
  "url_password sample_redis_parts = None"
  by (simp_all add: sample_database_parts_def sample_redis_parts_def result_defs ascii_unicode_def ascii_lower_def)

lemma unquote_plain:
  assumes "list_all (\<lambda>c. c < 128 \<and> c \<noteq> 37) s"
  shows "unquote s = s"
proof -
  have ascii: "utf8_decode_replace t = t" if "list_all (\<lambda>c. c < 128) t" for t
    using that by (induction t) auto
  have bytes: "unquote_bytes t = t" if "37 \<notin> set t" for t
    using that by (induction t) auto
  have Nil: "unquote [] = []" by (simp add: unquote.simps [of "[]"])
  have plain: "list_all (\<lambda>c. c < 128) s" "37 \<notin> set s" using assms by (auto simp: list_all_iff)
  have whole: "takeWhile (\<lambda>d. d < 128) s = s" "dropWhile (\<lambda>d. d < 128) s = []"
    using plain(1) by (simp_all add: list_all_iff)
  show ?thesis
  proof (cases s)
    case (Cons c r)
    then have "unquote s = utf8_decode_replace (unquote_bytes (takeWhile (\<lambda>d. d < 128) s)) @
        unquote (dropWhile (\<lambda>d. d < 128) s)"
      using unquote.simps [of s] plain(1) by simp
    then show ?thesis by (simp only: whole bytes [OF plain(2)] ascii [OF plain(1)] Nil append_Nil2)
  qed (simp add: Nil)
qed

lemma unquote_localhost: "unquote (lit ''localhost'') = lit ''localhost''" "unquote [] = []"
  by (rule unquote_plain; simp add: lit_def)+

lemma database_url_accepted:
  "\<not> database_url_rejected ascii_unicode (lit ''postgresql+asyncpg://u@localhost/db'') sample_database_parts None"
  unfolding database_url_rejected_def is_unix_socket_def sample_parts
  by (simp add: parse_qs_Nil values_of_def sample_database_parts_def unquote_localhost)
   (simp add: lit_def endswith_def control_or_space_def space_char_def host_delimiters_def)

lemma redis_url_accepted:
  "\<not> redis_url_rejected ascii_unicode (lit ''redis://localhost'') sample_redis_parts None"
  unfolding redis_url_rejected_def sample_parts
  by (simp add: sample_redis_parts_def unquote_localhost)
   (simp add: lit_def endswith_def control_or_space_def space_char_def host_delimiters_def)

definition sample_settings :: ingestion_settings where
  "sample_settings =
     \<lparr>ps_environment = Development, ps_database_url = lit ''postgresql+asyncpg://u@localhost/db'',
      ps_dependency_timeout_seconds = 2, ig_redis_url = lit ''redis://localhost'',
      ig_redis_max_connections = 20\<rparr>"

lemma sample_url_fields:
  "url_field ''database_url'' validate_database_url sample_source = Valid (lit ''postgresql+asyncpg://u@localhost/db'')"
  "url_field ''redis_url'' validate_redis_url sample_source = Valid (lit ''redis://localhost'')"
  using database_url_accepted redis_url_accepted
  by (simp_all add: url_field_def setting_sample validate_database_url_def validate_redis_url_def sample_splits
      sample_parts checked_def Let_def) (simp_all add: sample_source_def sample_parts)

lemma sample_ingestion_settings: "make_ingestion_settings sample_source = Valid sample_settings"
proof -
  have "ingestion_fields sample_source = Valid sample_settings"
    by (simp add: ingestion_fields_def postgres_fields_def sample_url_fields environment_field_def literal_field_def
        timeout_field_def int_field_def setting_sample sample_settings_def postgres_settings.extend_def
        DEFAULT_REDIS_MAX_CONNECTIONS_def)
  moreover have "ss_unicode sample_source = ascii_unicode" by (simp add: sample_source_def)
  moreover have "\<not> list_ex (\<lambda>v. v \<in> fst ` set (ss_environ sample_source)) DATABASE_ENVIRONMENT_OVERRIDES"
    by (simp add: sample_source_def DATABASE_ENVIRONMENT_OVERRIDES_def)
  ultimately show ?thesis
    by (simp add: make_ingestion_settings_def require_production_database_tls_def ingestion_redis_tls_def
        validate_production_redis_def require_explicit_database_target_def reject_database_driver_environment_def
        require_remote_database_credentials_def database_requires_tls_def sample_settings_def sample_splits
        sample_parts checked_def)
qed

section \<open>Production\<close>

definition remote_source :: settings_source where
  "remote_source =
     \<lparr>ss_unicode = ascii_unicode,
      ss_environ =
        [(lit ''ENVIRONMENT'', lit ''production''), (lit ''DATABASE_URL'', lit ''postgresql+asyncpg://u:p@db.io/app'')],
      ss_dotenv = [(lit ''redis_url'', lit ''rediss://u:p@r.io'')], ss_float = (\<lambda>_. None), ss_int = (\<lambda>_. None)\<rparr>"

definition remote_database_parts :: split_result where
  "remote_database_parts = \<lparr>sp_scheme = lit ''postgresql+asyncpg'', sp_netloc = lit ''u:p@db.io'', sp_path = lit ''/app'',
     sp_query = [], sp_fragment = []\<rparr>"

definition remote_redis_parts :: split_result where
  "remote_redis_parts = \<lparr>sp_scheme = lit ''rediss'', sp_netloc = lit ''u:p@r.io'', sp_path = [], sp_query = [], sp_fragment = []\<rparr>"

lemma remote_splits:
  "urlsplit u (lit ''postgresql+asyncpg://u:p@db.io/app'') = Inr remote_database_parts"
  "urlsplit u (lit ''rediss://u:p@r.io'') = Inr remote_redis_parts"
  by (simp_all add: split_defs remote_database_parts_def remote_redis_parts_def)

lemma setting_remote:
  "setting remote_source ''database_url'' = Some (lit ''postgresql+asyncpg://u:p@db.io/app'')"
  "setting remote_source ''redis_url'' = Some (lit ''rediss://u:p@r.io'')"
  "setting remote_source ''environment'' = Some (lit ''production'')"
  "setting remote_source ''dependency_timeout_seconds'' = None"
  "setting remote_source ''redis_max_connections'' = None"
  by (simp_all add: setting_def variables_def remote_source_def ascii_unicode_def)
   (simp_all add: lit_def ascii_lower_def)

lemma remote_parts:
  "url_hostname ascii_unicode remote_database_parts = Some (lit ''db.io'')"
  "url_port remote_database_parts = Inr None"
  "url_username remote_database_parts = Some (lit ''u'')"
  "url_password remote_database_parts = Some (lit ''p'')"
  "url_hostname ascii_unicode remote_redis_parts = Some (lit ''r.io'')"
  "url_port remote_redis_parts = Inr None"
  "url_username remote_redis_parts = Some (lit ''u'')"
  "url_password remote_redis_parts = Some (lit ''p'')"
  by (simp_all add: remote_database_parts_def remote_redis_parts_def result_defs ascii_unicode_def ascii_lower_def)

lemma unquote_remote:
  "unquote (lit ''db.io'') = lit ''db.io''" "unquote (lit ''r.io'') = lit ''r.io''"
  "unquote (lit ''u'') = lit ''u''" "unquote (lit ''p'') = lit ''p''"
  by (rule unquote_plain; simp add: lit_def)+

lemma remote_urls_accepted:
  "\<not> database_url_rejected ascii_unicode (lit ''postgresql+asyncpg://u:p@db.io/app'') remote_database_parts None"
  "\<not> redis_url_rejected ascii_unicode (lit ''rediss://u:p@r.io'') remote_redis_parts None"
  unfolding database_url_rejected_def redis_url_rejected_def is_unix_socket_def remote_parts
  by (simp_all add: parse_qs_Nil values_of_def remote_database_parts_def remote_redis_parts_def unquote_remote
      unquote_localhost)
   (simp_all add: lit_def endswith_def control_or_space_def space_char_def host_delimiters_def)

definition remote_settings :: ingestion_settings where
  "remote_settings =
     \<lparr>ps_environment = Production, ps_database_url = lit ''postgresql+asyncpg://u:p@db.io/app'',
      ps_dependency_timeout_seconds = 2, ig_redis_url = lit ''rediss://u:p@r.io'',
      ig_redis_max_connections = 20\<rparr>"

lemma remote_url_fields:
  "url_field ''database_url'' validate_database_url remote_source = Valid (lit ''postgresql+asyncpg://u:p@db.io/app'')"
  "url_field ''redis_url'' validate_redis_url remote_source = Valid (lit ''rediss://u:p@r.io'')"
  using remote_urls_accepted
  by (simp_all add: url_field_def setting_remote validate_database_url_def validate_redis_url_def remote_splits
      remote_parts checked_def Let_def) (simp_all add: remote_source_def remote_parts)

lemma remote_ingestion_settings: "make_ingestion_settings remote_source = Valid remote_settings"
proof -
  have "ingestion_fields remote_source = Valid remote_settings"
    by (simp add: ingestion_fields_def postgres_fields_def remote_url_fields environment_field_def literal_field_def
        timeout_field_def int_field_def setting_remote remote_settings_def postgres_settings.extend_def
        DEFAULT_REDIS_MAX_CONNECTIONS_def)
  moreover have "ss_unicode remote_source = ascii_unicode" by (simp add: remote_source_def)
  moreover have "\<not> list_ex (\<lambda>v. v \<in> fst ` set (ss_environ remote_source)) DATABASE_ENVIRONMENT_OVERRIDES"
    by (simp add: remote_source_def DATABASE_ENVIRONMENT_OVERRIDES_def)
  moreover have "sp_scheme remote_redis_parts = lit ''rediss''" by (simp add: remote_redis_parts_def)
  ultimately show ?thesis
    by (simp add: make_ingestion_settings_def require_production_database_tls_def ingestion_redis_tls_def
        validate_production_redis_def require_explicit_database_target_def reject_database_driver_environment_def
        require_remote_database_credentials_def database_requires_tls_def remote_settings_def remote_splits
        remote_parts checked_def)
qed

end
