(* ===== verification/CommandTheorems.thy ===== *)
theory CommandTheorems
  imports ConfigSamples IngestionTheorems
begin

text \<open>
  The properties of the ingestion command: the loading of the file, the outcomes of a run,
  the messages, and what the API serves after it.
\<close>

section \<open>Facts the properties share\<close>

lemma load_snapshot_valid:
  assumes "load_snapshot lib recursion supported path s = (Inr snapshot, s')"
  shows "snapshot_ok (vl_unicode lib) snapshot"
  using assms
  by (auto simp: load_snapshot_def model_validate_snapshot_def intro: validate_snapshot_ok
      elim!: bindM_eq_InrE split: if_splits option.splits outcome.splits)

lemma load_snapshot_result_valid:
  "result (load_snapshot lib recursion supported path) s = Inr snapshot \<Longrightarrow> snapshot_ok (vl_unicode lib) snapshot"
  using load_snapshot_valid by (metis prod.collapse)

lemma exit_codes: "fst (exit_message e) = 1 \<or> fst (exit_message e) = 2"
  by (cases e) (simp_all add: exit_message_def service_failure_def)

lemma exit_code_positive [simp]: "0 < fst (exit_message e)" "fst (exit_message e) \<noteq> 0"
  using exit_codes [of e] by auto

text \<open>The ingestion does not touch Redis, and without other clients nobody interferes.\<close>

lemma frame_tx_call [frame_intros]: "frame (\<lambda>s. redis (fst s)) (tx_call stmt)" "frame (\<lambda>s. redis_events (fst s)) (tx_call stmt)"
  by (auto simp: frame_def tx_call_def Let_def split: prod.split list.split option.split)

lemma frame_body [frame_intros]:
  "frame (\<lambda>s. redis (fst s)) (ingest_body (sqlalchemy_ingestion_repository pg) snapshot t)"
  "frame (\<lambda>s. redis_events (fst s)) (ingest_body (sqlalchemy_ingestion_repository pg) snapshot t)"
  unfolding ingest_body_def sqlalchemy_ingestion_repository_def acquire_lock_def get_last_sync_def
    upsert_items_def upsert_metadata_def ingestion_repository.simps Let_def ingestion_execute_def
  by (intro frame_intros; auto intro!: frame_intros split: if_splits)+

lemma calm_body:
  "keeps (\<lambda>s. db_events (fst s) = []) (ingest_body (sqlalchemy_ingestion_repository pg) snapshot t)"
proof -
  have "keeps (\<lambda>s. db_events (fst s) = []) (tx_call stmt)" for stmt :: "'a tx_stmt"
    by (auto simp: keeps_def tx_call_def split: prod.split)
  then show ?thesis
    unfolding ingest_body_def sqlalchemy_ingestion_repository_def acquire_lock_def get_last_sync_def
      upsert_items_def upsert_metadata_def ingestion_repository.simps Let_def ingestion_execute_def
    by (intro keeps_intros; auto intro!: keeps_intros split: if_splits)
qed

lemma ingest_calm_world:
  assumes "db_events w = []" "ingest (ingestion_service_of pg clock) snapshot w = (r, w')"
  shows "redis w' = redis w \<and> redis_events w' = redis_events w \<and> db_events w' = []"
proof -
  let ?s = "(w, \<lparr>tx_now = pg_now pg w, tx_view = database w\<rparr>)"
  obtain rb w1 t1 where body: "ingest_body (sqlalchemy_ingestion_repository pg) snapshot (clock w) ?s =
      (rb, (w1, t1))" by (metis prod.exhaust)
  have "redis w1 = redis w" "redis_events w1 = redis_events w" "db_events w1 = []"
    using frame_eq [OF frame_body(1) body] frame_eq [OF frame_body(2) body] keeps_eq [OF calm_body body] assms(1)
    by simp_all
  then show ?thesis
    using assms(2) body
    by (cases rb) (auto simp: ingest_def ingestion_service_of_def in_transaction_def bindM_def tx_commit_def
        tx_rollback_def split: option.splits)
qed

lemma frame_stderr [frame_intros]:
  "frame pr_stderr (on_files m)" "frame pr_stderr (on_world n)"
  by (auto simp: frame_def on_files_def on_world_def split: prod.split)

lemma frame_clients_stderr [frame_intros]:
  "frame pr_stderr (open_client r made)" "frame pr_stderr (push_async_callback r failure)"
  by (cases made; simp add: frame_def open_client_run push_async_callback_def)+

lemma frame_stack_stderr [frame_intros]:
  "frame pr_stderr body \<Longrightarrow> frame pr_stderr (async_exit_stack body)"
  by (simp add: frame_def async_exit_stack_run final_finallyM stack_exit_final)

lemma run_ingestion_stderr: "frame pr_stderr (run_ingestion env input_path)"
  unfolding run_ingestion_def publish_and_invalidate_def
  by (intro frame_intros) (auto intro!: frame_intros split: if_splits)

lemma run_ingestion_load_failure:
  assumes "result (load_snapshot (ie_validation env) (ie_recursion env) (ie_secure_open env) input_path) (pr_files p) = Inl e"
  shows "\<exists>p'. run_ingestion env input_path p = (Inl e, p') \<and> sv_world p' = sv_world p"
proof -
  obtain f where "load_snapshot (ie_validation env) (ie_recursion env) (ie_secure_open env) input_path (pr_files p) = (Inl e, f)"
    using assms by (metis prod.collapse)
  then show ?thesis by (simp add: run_ingestion_def on_files_def bindM_def)
qed

lemma run_ingestion_configuration_failure:
  assumes "result (load_snapshot (ie_validation env) (ie_recursion env) (ie_secure_open env) input_path) (pr_files p) = Inr snapshot"
    "ingestion_configuration env = Inl e"
  shows "\<exists>p'. run_ingestion env input_path p = (Inl e, p') \<and> sv_world p' = sv_world p"
proof -
  obtain f where "load_snapshot (ie_validation env) (ie_recursion env) (ie_secure_open env) input_path (pr_files p) = (Inr snapshot, f)"
    using assms(1) by (metis prod.collapse)
  then show ?thesis using assms(2) by (simp add: run_ingestion_def on_files_def bindM_def open_client_run)
qed

text \<open>An item of the database is served when nothing interferes, whatever is cached.\<close>

lemma calm_item_served:
  assumes "db_events w = []" "redis_events w = []" "db_ok (database w)"
    "coherent rc loc U (database w) n (redis w)" "factory_ok rc" "item_answer i (database w) = Some v"
  shows "\<exists>w'. svc_get_by_game_id (item_service_of loc rc) i w = (Inr v, w')"
proof -
  obtain r w' where run: "svc_get_by_game_id (item_service_of loc rc) i w = (r, w')" by fastforce
  have rely: "redis_rely (coherent rc loc U (database w) n) w" "quiet_database (database w) w"
    using assms(1-4) by (simp_all add: redis_rely_def quiet_database_def db_rely_def)
  have load: "load_item (sqlalchemy_item_repository loc) i w = (Inr v, w)"
    by (rule calm_load_item) (simp_all add: assms)
  have enc: "item_encodable rc x" if "result (load_item (sqlalchemy_item_repository loc) i) w = Inr x" for x
    using load_item_encodable [OF db_rely_calm [of w db_ok, OF assms(1,3)] _ _ that] assms(4)
    by (simp add: coherent_def)
  have "\<exists>x. r = Inr x"
    using item_entries.aside_outcome [where resource = "lit ''item''" and k = i and w = w and
        load = "load_item (sqlalchemy_item_repository loc) i", OF assms(5) _ load_db_only(1) load_frame(2) enc]
      run load assms(2)
    by (auto simp: service_is_cache_aside redis_faults_def)
  then show ?thesis using service_coherent_item [OF rely run] run assms(6) by auto
qed

lemma published_row:
  assumes "cat_items (catalogue_of db) g = Some i"
  shows "\<exists>row. import_of_row row = i \<and> item_answer g db = Some (response_of_row row)"
proof -
  have "map_of (map (\<lambda>r. (it_game_id r, import_of_row r)) rows) g =
      map_option import_of_row (find (\<lambda>r. it_game_id r = g) rows)" for rows
    by (induction rows) auto
  then show ?thesis
    using assms by (auto simp: catalogue_of_def row_map_def item_answer_def find_item_def)
qed

section \<open>Loading\<close>

text \<open>C16. Loading by descriptors, component by component, gives what the path names: the
  snapshot of a regular file within the limit that is reached through directories only,
  and an error for everything else. A symbolic link anywhere on the path is never
  followed.\<close>

theorem load_snapshot_reads:
  assumes "quiet_files inodes s" "parts = (if path_absolute path then tl (path_parts path) else path_parts path)"
    "names_ok parts" "start = (if path_absolute path then fs_root s else fs_cwd s)"
    "inodes start = Some (Directory entries)"
  shows "result (load_snapshot lib recursion True path) s = snapshot_at lib recursion inodes start parts"
  by (rule load_snapshot_at [OF assms])

theorem load_snapshot_reads_witness:
  "result (load_snapshot sample_lib 3 True sample_path) sample_files = Inr sample_snapshot"
proof -
  have "result (load_snapshot sample_lib 3 True sample_path) sample_files =
      snapshot_at sample_lib 3 (fs_inodes sample_files) 0 [lit ''s.json'']"
    by (rule load_snapshot_reads [OF sample_quiet_files])
      (simp_all add: sample_path_def sample_files_def names_ok_def name_error_def, simp add: lit_def scalar_def)
  then show ?thesis
    using sample_parse [of 0] by (simp add: snapshot_at_def sample_files_def numeral_eq_Suc)
qed

text \<open>C17. No descriptor leaks: whatever \<open>open\<close>, \<open>fstat\<close> or \<open>read\<close> do, the descriptors that are
  open afterwards are those that were open before.\<close>

theorem load_snapshot_no_leak:
  assumes "closes_succeed s"
  shows "fs_descriptors (final (load_snapshot lib recursion supported path) s) = fs_descriptors s"
  using load_snapshot_holding [of "fs_descriptors s" s lib recursion supported path] assms
  by (cases "load_snapshot lib recursion supported path s") (simp add: holding_def)

theorem load_snapshot_no_leak_witness:
  "fs_descriptors (final (load_snapshot sample_lib 3 True sample_path) (sample_files\<lparr>fs_faults := [None, None, Some OSError]\<rparr>)) = []"
  using load_snapshot_no_leak [of "sample_files\<lparr>fs_faults := [None, None, Some OSError]\<rparr>" sample_lib 3 True sample_path]
  by (simp add: sample_files_def closes_succeed_def)

section \<open>The command\<close>

definition sample_environment :: ingest_environment where
  "sample_environment =
     \<lparr>ie_validation = sample_lib, ie_recursion = 3, ie_secure_open = True, ie_settings = sample_source,
      ie_make_engine = (\<lambda>_ _. Inr sample_pg), ie_from_url = (\<lambda>_ _. Inr ()), ie_pydantic = plain_pydantic,
      ie_sha256 = (\<lambda>t. t), ie_clock = (\<lambda>_. 5), ie_dispose = None, ie_aclose = None\<rparr>"

lemma sample_environment_simps [simp]:
  "ie_validation sample_environment = sample_lib" "ie_recursion sample_environment = 3"
  "ie_secure_open sample_environment" "ie_dispose sample_environment = None" "ie_aclose sample_environment = None"
  "ie_clock sample_environment = (\<lambda>_. 5)"
  by (simp_all add: sample_environment_def)

definition sample_process :: process where
  "sample_process =
     \<lparr>sv_world = sample_world, sv_clients = no_clients, sv_loggers = (\<lambda>_. fresh_logger), pr_files = sample_files, pr_stderr = []\<rparr>"

definition sample_argv :: "pystr list" where
  "sample_argv = [lit ''--input'', lit ''./s.json'']"

lemma sample_arguments: "parse_args sample_argv None False = Inr (lit ''./s.json'')" "path_of (lit ''./s.json'') = sample_path"
  by (simp_all add: sample_argv_def kind_of_argument_def partition_at_def lit_def path_of_def sample_path_def Let_def)

lemma sample_loaded:
  "result (load_snapshot sample_lib 3 True sample_path) sample_files = Inr sample_snapshot"
proof -
  have "result (load_snapshot sample_lib 3 True sample_path) sample_files =
      snapshot_at sample_lib 3 (fs_inodes sample_files) 0 [lit ''s.json'']"
    by (rule load_snapshot_at [OF sample_quiet_files])
      (simp_all add: sample_path_def sample_files_def names_ok_def name_error_def, simp add: lit_def scalar_def)
  then show ?thesis
    using sample_parse [of 0] by (simp add: snapshot_at_def sample_files_def numeral_eq_Suc)
qed

lemma sample_configuration: "ingestion_configuration sample_environment = Inr (sample_settings, sample_pg)"
proof -
  have "database_connect_args ascii_unicode sample_settings = Inr
      \<lparr>ca_timeout = 2, ca_command_timeout = 2, ca_ssl = None\<rparr>"
    by (simp add: database_connect_args_def database_requires_tls_def sample_settings_def sample_splits sample_parts)
  then show ?thesis
    by (simp add: ingestion_configuration_def sample_environment_def sample_ingestion_settings settings_result_def
        create_database_def Let_def) (simp add: sample_source_def)
qed

text \<open>The run on the samples succeeds.\<close>

lemma sample_publish:
  assumes "sv_world p = sample_world"
  shows "\<exists>p'. publish_and_invalidate sample_environment sample_pg sample_snapshot p = (Inr (), p')"
proof -
  obtain cache where cache: "ingestion_cache sample_environment = Inr cache"
    by (simp add: ingestion_cache_def make_redis_item_cache_def validate_ttl_def ITEM_TTL_SECONDS_def
        LIST_TTL_SECONDS_def META_TTL_SECONDS_def MAX_CACHE_TTL_SECONDS_def)
  obtain t w1 where run: "ingest (ingestion_service_of sample_pg (\<lambda>_. 5)) sample_snapshot sample_world = (Inr t, w1)"
    by (rule ingest_calm [of sample_world sample_lib sample_pg sample_snapshot])
      (simp_all add: sample_storable_snapshot sample_seq, simp add: sample_snapshot_def)
  have "redis_events w1 = []" "stored_generation w1 = Some 7"
    using ingest_calm_world [OF _ run] by (simp_all add: stored_generation_cong [of w1 sample_world])
  then obtain g w2 where inv: "invalidate cache w1 = (Inr g, w2)"
    using invalidate_calm [of w1 7 cache] by (auto simp: MAX_GENERATION_def)
  show ?thesis
    by (simp add: publish_and_invalidate_def cache on_world_def assms run inv bindM_def catchM_def)
qed

lemma sample_run_ingestion: "\<exists>p'. run_ingestion sample_environment sample_path sample_process = (Inr (), p')"
proof -
  obtain f where load: "load_snapshot sample_lib 3 True sample_path sample_files = (Inr sample_snapshot, f)"
    using sample_loaded by (metis prod.collapse)
  have redis: "create_redis (ie_from_url sample_environment) (ss_unicode (ie_settings sample_environment))
      (ingestion_redis_settings sample_settings) = Inr ()"
    by (simp add: create_redis_def redis_client_options_def ingestion_redis_settings_def sample_settings_def
        sample_splits sample_environment_def Let_def)
  let ?c = "\<lparr>cl_opened = [DatabaseEngine, RedisClient], cl_closed = [],
     cl_callbacks = [(RedisClient, None), (DatabaseEngine, None)]\<rparr>"
  obtain q where "publish_and_invalidate sample_environment sample_pg sample_snapshot
      \<lparr>sv_world = sample_world, sv_clients = ?c, sv_loggers = (\<lambda>_. fresh_logger), pr_files = f, pr_stderr = []\<rparr> = (Inr (), q)"
    using sample_publish [of "\<lparr>sv_world = sample_world, sv_clients = ?c, sv_loggers = (\<lambda>_. fresh_logger), pr_files = f, pr_stderr = []\<rparr>"]
    by auto
  note q = this
  from q have body: "bindM (push_async_callback DatabaseEngine None) (\<lambda>_.
        bindM (open_client RedisClient (Inr ())) (\<lambda>_. bindM (push_async_callback RedisClient None) (\<lambda>_.
        publish_and_invalidate sample_environment sample_pg sample_snapshot)))
      \<lparr>sv_world = sample_world, sv_clients = \<lparr>cl_opened = [DatabaseEngine], cl_closed = [], cl_callbacks = []\<rparr>,
       sv_loggers = (\<lambda>_. fresh_logger), pr_files = f, pr_stderr = []\<rparr> = (Inr (), q)"
    by (simp add: open_push_bind)
  have unwind: "result (unwind cs) t = Inr ()" if "\<forall>c\<in>set cs. snd c = None" for cs and t :: process
    using that
  proof (induction cs arbitrary: t)
    case (Cons c cs)
    then show ?case by (cases c) (simp add: finallyM_def close_client_def bindM_def split: prod.split sum.split, metis fst_conv sum.distinct(1))
  qed simp
  have calls: "cl_callbacks (sv_clients q) = [(RedisClient, None), (DatabaseEngine, None)]"
    using frame_eq [OF frame_publish q] by simp
  obtain t where "stack_exit [] q = (Inr (), t)"
    using unwind [of "cl_callbacks (sv_clients q)"] calls
    by (simp add: stack_exit_def bindM_def set_callbacks_def) (metis prod.collapse)
  moreover have "on_files (load_snapshot sample_lib 3 True sample_path) sample_process =
      (Inr sample_snapshot, sample_process\<lparr>pr_files := f\<rparr>)"
    using load by (simp add: on_files_def sample_process_def)
  ultimately show ?thesis
    using body
    by (simp add: run_ingestion_def bindM_Inr [of "on_files _"] sample_process_def no_clients_def sample_configuration
        open_push_bind async_exit_stack_run redis [simplified] finallyM_def)
qed

lemma ingest_main_success:
  assumes "parse_args argv None False = Inr input" "ingest_main env argv p = (0, p')"
  shows "\<exists>u. run_ingestion env (path_of input) p = (Inr u, p')"
  using assms by (auto simp: ingest_main_def split: prod.splits sum.splits)

lemma sample_items: "snap_items sample_snapshot = [sample_import]"
  by (simp add: sample_snapshot_def)

lemma sample_main: "\<exists>p'. ingest_main sample_environment sample_argv sample_process = (0, p')"
  using sample_run_ingestion by (auto simp: ingest_main_def sample_arguments)

text \<open>Exit code 0 means: the file held a valid snapshot, the settings were valid, the
  ingestion of exactly that snapshot returned, and after it the cache was invalidated;
  nothing is printed and both clients are closed.\<close>

lemma ingest_command_success:
  assumes "parse_args argv None False = Inr input" "ingest_main env argv p = (0, p')"
  shows "\<exists>snapshot settings pg cache t g w1.
    result (load_snapshot (ie_validation env) (ie_recursion env) (ie_secure_open env) (path_of input)) (pr_files p) =
      Inr snapshot \<and> snapshot_ok (vl_unicode (ie_validation env)) snapshot \<and>
    ingestion_configuration env = Inr (settings, pg) \<and> ingestion_cache env = Inr cache \<and>
    ingest (ingestion_service_of pg (ie_clock env)) snapshot (sv_world p) = (Inr t, w1) \<and>
    invalidate cache w1 = (Inr g, sv_world p') \<and> pr_stderr p' = pr_stderr p \<and>
    all_closed (sv_clients p) (sv_clients p')"
proof -
  obtain u where run: "run_ingestion env (path_of input) p = (Inr u, p')"
    using ingest_main_success [OF assms] by blast
  obtain snapshot settings pg cache t g w1 where 1:
    "result (load_snapshot (ie_validation env) (ie_recursion env) (ie_secure_open env) (path_of input)) (pr_files p) =
      Inr snapshot" "ingestion_configuration env = Inr (settings, pg)" "ingestion_cache env = Inr cache"
    "ingest (ingestion_service_of pg (ie_clock env)) snapshot (sv_world p) = (Inr t, w1)"
    "invalidate cache w1 = (Inr g, sv_world p')"
    by (rule run_ingestion_success [OF run])
  have "snapshot_ok (vl_unicode (ie_validation env)) snapshot"
    by (rule load_snapshot_result_valid [OF 1(1)])
  then show ?thesis
    using 1 frame_eq [OF run_ingestion_stderr run] run_ingestion_closes [of p env "path_of input"] run by auto
qed

lemma parse_args_codes: "parse_args argv input rest = Inl code \<Longrightarrow> code = 0 \<or> code = 2"
proof (induction argv input rest rule: parse_args.induct)
  case (2 a as input rest)
  note IH = "2.IH"
  show ?case
  proof (cases "a = lit ''--''")
    case True
    then show ?thesis using 2 by simp
  next
    case False
    show ?thesis
    proof (cases "kind_of_argument a")
      case (InputOption v)
      show ?thesis
      proof (cases v)
        case None
        then show ?thesis
          using False InputOption 2 by (cases as) (auto split: if_splits list.splits)
      qed (use False InputOption 2 in simp)
    qed (use False 2 in \<open>auto split: if_splits\<close>)
  qed
qed (auto split: option.splits if_splits)

text \<open>C13. Every outcome of the command. All the clients it opened are closed, in reverse order. The
  exit code is 0 without a message for \<open>--help\<close>, with both stores untouched, and for a run that
  succeeds. Every failure prints exactly one message: for bad arguments, with code 2, for a snapshot
  that does not load and for an invalid configuration both stores are untouched; the code and the
  message of a failing run are those of its exception, and the code is 1 or 2.\<close>

theorem ingest_command_outcomes:
  "case ingest_main env argv p of (code, p') \<Rightarrow>
     all_closed (sv_clients p) (sv_clients p') \<and>
     (case parse_args argv None False of
        Inl _ \<Rightarrow> sv_world p' = sv_world p \<and>
          (code = 0 \<and> pr_stderr p' = pr_stderr p \<or>
           code = 2 \<and> pr_stderr p' = pr_stderr p @ [lit ''Invalid command-line arguments''])
      | Inr input \<Rightarrow>
          (case result (load_snapshot (ie_validation env) (ie_recursion env) (ie_secure_open env) (path_of input))
                  (pr_files p) of
             Inl e \<Rightarrow> code = fst (exit_message e) \<and> pr_stderr p' = pr_stderr p @ [snd (exit_message e)] \<and>
               code \<in> {1, 2} \<and> sv_world p' = sv_world p
           | Inr _ \<Rightarrow>
               (case ingestion_configuration env of
                  Inl e \<Rightarrow> code = fst (exit_message e) \<and> pr_stderr p' = pr_stderr p @ [snd (exit_message e)] \<and>
                    code \<in> {1, 2} \<and> sv_world p' = sv_world p
                | Inr _ \<Rightarrow>
                    (case result (run_ingestion env (path_of input)) p of
                       Inr _ \<Rightarrow> code = 0 \<and> pr_stderr p' = pr_stderr p
                     | Inl e \<Rightarrow> code = fst (exit_message e) \<and> code \<in> {1, 2} \<and>
                         pr_stderr p' = pr_stderr p @ [snd (exit_message e)]))))"
proof (cases "parse_args argv None False")
  case (Inl c)
  then show ?thesis using parse_args_codes [OF Inl] by (auto simp: ingest_main_def)
next
  case (Inr input)
  obtain r q where run: "run_ingestion env (path_of input) p = (r, q)" by fastforce
  have kept: "pr_stderr q = pr_stderr p" "all_closed (sv_clients p) (sv_clients q)"
    using frame_eq [OF run_ingestion_stderr run] run_ingestion_closes [of p env "path_of input"] run by simp_all
  show ?thesis
    using run kept Inr exit_codes run_ingestion_load_failure [of env "path_of input" p]
      run_ingestion_configuration_failure [of env "path_of input" p]
    by (cases r) (auto simp: ingest_main_def split: sum.split)
qed

text \<open>C38. Whatever the snapshot contains and however many errors it has, the report of a failed
  validation is printable ASCII of bounded length: no control character of the input
  reaches the terminal.\<close>

theorem validation_report_bounded:
  "printable (format_validation_error details) \<and>
   length (format_validation_error details) \<le> (MAX_VALIDATION_ERRORS + 1) * (2 * (MAX_VALIDATION_TEXT + 3) + 4)"
proof -
  let ?messages = "map validation_message (take MAX_VALIDATION_ERRORS details) @
    (if MAX_VALIDATION_ERRORS < length details then [lit ''additional validation errors omitted''] else [])"
  let ?b = "2 * (MAX_VALIDATION_TEXT + 3) + 2"
  have each: "printable m \<and> length m \<le> ?b" if "m \<in> set ?messages" for m
    using that validation_message_bounds
    by (auto simp: MAX_VALIDATION_TEXT_def lit_def split: if_splits)
  have count: "length ?messages \<le> MAX_VALIDATION_ERRORS + 1" by simp
  have "printable (case ms of [] \<Rightarrow> [] | m # rest \<Rightarrow> m @ concat (map (\<lambda>n. lit ''; '' @ n) rest)) \<and>
      length (case ms of [] \<Rightarrow> [] | m # rest \<Rightarrow> m @ concat (map (\<lambda>n. lit ''; '' @ n) rest)) \<le> length ms * (?b + 2)"
    if "\<And>m. m \<in> set ms \<Longrightarrow> printable m \<and> length m \<le> ?b" for ms
  proof (cases ms)
    case (Cons m rest)
    have "printable (concat (map (\<lambda>n. lit ''; '' @ n) rest))"
      using that Cons by (intro printable_concat) (auto simp: lit_def)
    moreover have "length (concat (map (\<lambda>n. lit ''; '' @ n) rest)) \<le> length (map (\<lambda>n. lit ''; '' @ n) rest) * (?b + 2)"
      using that Cons by (intro concat_bound) (auto simp: lit_def)
    ultimately show ?thesis using that [of m] Cons by simp
  qed simp
  from this [OF each] have "printable (format_validation_error details)"
    "length (format_validation_error details) \<le> length ?messages * (?b + 2)"
    by (simp_all only: format_validation_error_def Let_def)
  moreover have "length ?messages * (?b + 2) \<le> (MAX_VALIDATION_ERRORS + 1) * (?b + 2)"
    using count by (rule mult_le_mono1)
  ultimately show ?thesis by simp
qed

text \<open>C2. The composition of the command, the database and the cache with the API. Suppose that no
  other client acts, that Redis holds a generation below the maximum with nothing stored under
  later ones, and that the API's cache object works as documented (Pydantic, the digest). After
  exit code 0 with a clock later than the last synchronisation, a request for any item of the
  snapshot is answered with that item, whatever was cached before and whichever cache object the
  API uses; with any other clock the catalogue is what it was.\<close>

theorem published_items_served:
  assumes "parse_args argv None False = Inr input" "ingest_main env argv p = (0, p')"
    "result (load_snapshot (ie_validation env) (ie_recursion env) (ie_secure_open env) (path_of input)) (pr_files p) = Inr snapshot"
    "i \<in> set (snap_items snapshot)"
    "db_events (sv_world p) = []" "redis_events (sv_world p) = []" "db_ok (database (sv_world p))"
    "stored_generation (sv_world p) = Some n" "n < MAX_GENERATION" "no_entries_from (Suc n) (redis (sv_world p))"
    "pydantic_ok (rc_pydantic rc)" "digest_ok rc U" "factory_ok rc"
  shows "if stale (ie_clock env (sv_world p)) (catalogue_of (database (sv_world p)))
    then catalogue_of (database (sv_world p')) = catalogue_of (database (sv_world p))
    else \<exists>row w. import_of_row row = i \<and>
      svc_get_by_game_id (item_service_of loc rc) (imp_game_id i) (sv_world p') = (Inr (response_of_row row), w)"
proof -
  obtain u where run: "run_ingestion env (path_of input) p = (Inr u, p')"
    using ingest_main_success [OF assms(1,2)] by blast
  obtain snap settings pg cache t g w1 where 1:
    "result (load_snapshot (ie_validation env) (ie_recursion env) (ie_secure_open env) (path_of input)) (pr_files p) = Inr snap"
    "ingest (ingestion_service_of pg (ie_clock env)) snap (sv_world p) = (Inr t, w1)"
    "invalidate cache w1 = (Inr g, sv_world p')"
    by (rule run_ingestion_success [OF run])
  have snap: "snap = snapshot" using 1(1) assms(3) by simp
  then have ids: "distinct (map imp_game_id (snap_items snap))"
    using load_snapshot_result_valid [OF assms(3)] by (simp add: snapshot_ok_def)
  note same = ingest_calm_world [OF assms(5) 1(2)]
  have ok: "db_ok (database w1)"
    using ingest_db_ok [OF db_rely_calm [of "sv_world p" db_ok, OF assms(5,7)], of pg "ie_clock env" snap] 1(2) by simp
  have ingested: "catalogue_of (database w1) =
      ingested snap (ie_clock env (sv_world p)) (catalogue_of (database (sv_world p)))"
    using ingest_outcome [OF undisturbed_calm [OF assms(5)] ids 1(2)] assms(5) by (simp add: when_locked_calm)
  have "stored_generation w1 = Some n" using assms(8) same by (simp add: stored_generation_cong [of w1 "sv_world p"])
  then obtain ttl where inv: "invalidate cache w1 =
      (Inr (int n + 1), w1\<lparr>redis := (redis w1)(CACHE_GENERATION_KEY \<mapsto> (str_nat (Suc n), ttl))\<rparr>)"
    using invalidate_calm [of w1 n cache] assms(6,9) same by auto
  then have p': "sv_world p' = w1\<lparr>redis := (redis w1)(CACHE_GENERATION_KEY \<mapsto> (str_nat (Suc n), ttl))\<rparr>"
    using 1(3) by simp
  show ?thesis
  proof (cases "stale (ie_clock env (sv_world p)) (catalogue_of (database (sv_world p)))")
    case True
    then show ?thesis using ingested by (simp add: p' ingested_def)
  next
    case False
    then have "cat_items (catalogue_of (database w1)) (imp_game_id i) = Some i"
      using assms(4) ids snap ingested
      by (auto simp: ingested_def publish_def import_map_def intro!: map_add_find_right map_of_is_SomeI)
         (auto simp: comp_def)
    then obtain row where row: "import_of_row row = i"
      "item_answer (imp_game_id i) (database w1) = Some (response_of_row row)"
      using published_row by blast
    have "generation_from (Suc n) (redis (sv_world p'))" "no_entries_from (Suc n) (redis (sv_world p'))"
      using assms(9,10) same
      by (auto simp: p' generation_from_def no_entries_from_def intro!: exI [of _ "Suc n"])
    from coherent_from_empty [OF this assms(11,12)] show ?thesis
      using False calm_item_served [of "sv_world p'" rc loc U "Suc n" "imp_game_id i" "response_of_row row"]
        p' ok row same assms(6,13) by auto
  qed
qed

theorem published_items_served_witness:
  "\<exists>p' row w. ingest_main sample_environment sample_argv sample_process = (0, p') \<and> import_of_row row = sample_import \<and>
    svc_get_by_game_id sample_service 7 (sv_world p') = (Inr (response_of_row row), w)"
proof -
  obtain p' where main: "ingest_main sample_environment sample_argv sample_process = (0, p')"
    using sample_main by blast
  have "\<not> stale (ie_clock sample_environment (sv_world sample_process)) (catalogue_of (database (sv_world sample_process)))"
    by (simp add: sample_process_def stale_def sample_last_sync)
  moreover have "if stale (ie_clock sample_environment (sv_world sample_process)) (catalogue_of (database (sv_world sample_process)))
    then catalogue_of (database (sv_world p')) = catalogue_of (database (sv_world sample_process))
    else \<exists>row w. import_of_row row = sample_import \<and>
      svc_get_by_game_id sample_service (imp_game_id sample_import) (sv_world p') = (Inr (response_of_row row), w)"
    by (rule published_items_served [OF sample_arguments(1) main, where snapshot = sample_snapshot and n = 7 and U = "{sample_params}"])
      (simp_all add: sample_arguments(2) sample_loaded sample_process_def
        sample_digest plain_pydantic_ok MAX_GENERATION_def no_entries_from_def sample_items)
  ultimately show ?thesis using main by (simp add: sample_import_def)
qed

end
