(* ===== verification/Auth.thy ===== *)
theory Auth
  imports World
begin

text \<open>
  \<open>app/auth\<close>: the principal, the two verifiers, the dependencies that turn an API key
  into a principal and check its scopes. Clerk's client is a parameter: a coroutine from
  the secret to a result whose attributes the code reads with \<open>getattr\<close>.
\<close>

section \<open>Principal\<close>

record api_principal =
  ap_user_id :: pystr
  ap_scopes :: "pystr set"

section \<open>Verifiers\<close>

type_synonym api_key_verifier = "pystr \<Rightarrow> api_principal prog"

text \<open>What \<open>getattr\<close> finds on Clerk's result; \<open>None\<close> when there is no such attribute.\<close>

record clerk_result =
  cr_expired :: "pyobj option"
  cr_revoked :: "pyobj option"
  cr_subject :: "pyobj option"
  cr_scopes :: "pyobj option"

record clerk_client =
  cc_verify_api_key :: "pystr \<Rightarrow> int \<Rightarrow> clerk_result prog" \<comment> \<open>secret and timeout in milliseconds\<close>

definition INVALID_STATUSES :: "int set" where "INVALID_STATUSES = {400, 404}"

definition unavailable_verify :: api_key_verifier where
  "unavailable_verify secret = raise AuthUnavailableError"

definition attribute :: "pyobj option \<Rightarrow> pyobj \<Rightarrow> pyobj" where
  "attribute a dflt = (case a of None \<Rightarrow> dflt | Some v \<Rightarrow> v)"

definition string_scopes :: "pyobj \<Rightarrow> pystr list" where
  "string_scopes raw_scopes =
     (case raw_scopes of
        PyList items \<Rightarrow> List.map_filter (\<lambda>i. case i of PyStr s \<Rightarrow> Some s | _ \<Rightarrow> None) items
      | _ \<Rightarrow> [])"

definition principal_of :: "clerk_result \<Rightarrow> exn + api_principal" where
  "principal_of r =
     (if truthy (attribute (cr_expired r) (PyBool False)) \<or> truthy (attribute (cr_revoked r) (PyBool False))
      then Inl InvalidApiKeyError
      else (case attribute (cr_subject r) PyNone of
              PyStr subject \<Rightarrow>
                if subject = [] then Inl InvalidApiKeyError
                else Inr \<lparr>ap_user_id = subject,
                          ap_scopes = set (string_scopes (attribute (cr_scopes r) PyNone))\<rparr>
            | _ \<Rightarrow> Inl InvalidApiKeyError))"

definition clerk_failure :: "exn \<Rightarrow> exn" where
  "clerk_failure e =
     (case e of
        ClerkBaseError st \<Rightarrow> if st \<in> INVALID_STATUSES then InvalidApiKeyError else AuthUnavailableError
      | _ \<Rightarrow> AuthUnavailableError)"

definition clerk_verify :: "clerk_client \<Rightarrow> int \<Rightarrow> api_key_verifier" where
  "clerk_verify client timeout_ms secret =
     bindM (catchM (cc_verify_api_key client secret timeout_ms) (\<lambda>e. Some (raise (clerk_failure e))))
       (\<lambda>result. liftM (principal_of result))"

text \<open>\<open>bind_api_key_verifier\<close>; \<open>make_client\<close> is the constructor of Clerk's client, entered on
  the exit stack, which is why it is returned.\<close>

definition bind_api_key_verifier ::
  "(pystr \<Rightarrow> int \<Rightarrow> clerk_client prog) \<Rightarrow> pystr option \<Rightarrow> int \<Rightarrow>
   (clerk_client option \<times> api_key_verifier) prog" where
  "bind_api_key_verifier make_client secret timeout_ms =
     (if secret = None \<or> secret = Some [] then ret (None, unavailable_verify)
      else bindM (make_client (the secret) timeout_ms)
             (\<lambda>client. ret (Some client, clerk_verify client timeout_ms)))"

section \<open>Dependencies\<close>

definition get_api_key_verifier :: "api_key_verifier option \<Rightarrow> exn + api_key_verifier" where
  "get_api_key_verifier v = (case v of None \<Rightarrow> Inl SERVICE_UNAVAILABLE | Some f \<Rightarrow> Inr f)"

definition API_KEY_REQUIRED :: exn where
  "API_KEY_REQUIRED = AppError 401 (lit ''API_KEY_REQUIRED'') (lit ''API key required'')"

definition INVALID_API_KEY :: exn where
  "INVALID_API_KEY = AppError 401 (lit ''INVALID_API_KEY'') (lit ''Invalid API key'')"

definition INSUFFICIENT_PERMISSIONS :: exn where
  "INSUFFICIENT_PERMISSIONS =
     AppError 403 (lit ''INSUFFICIENT_PERMISSIONS'') (lit ''Insufficient permissions'')"

definition get_principal :: "pystr option \<Rightarrow> api_key_verifier \<Rightarrow> api_principal prog" where
  "get_principal api_key verify =
     (if api_key = None \<or> api_key = Some [] then raise API_KEY_REQUIRED
      else catchM (verify (the api_key))
             (\<lambda>e. if e = InvalidApiKeyError then Some (raise INVALID_API_KEY)
                  else if e = AuthUnavailableError then Some (raise SERVICE_UNAVAILABLE)
                  else None))"

definition require_scopes :: "pystr list \<Rightarrow> api_principal \<Rightarrow> exn + api_principal" where
  "require_scopes required who =
     (if set required \<subseteq> ap_scopes who then Inr who else Inl INSUFFICIENT_PERMISSIONS)"

section \<open>The verifier protocol\<close>

text \<open>A verifier gives a principal with a user, or one of the two authentication errors;
  nothing that Clerk raises leaks through.\<close>

definition auth_error :: "exn \<Rightarrow> bool" where
  "auth_error e \<longleftrightarrow> e = InvalidApiKeyError \<or> e = AuthUnavailableError"

locale verifier_protocol =
  fixes verify :: api_key_verifier
  assumes verify_raises: "\<And>secret w e w'. verify secret w = (Inl e, w') \<Longrightarrow> auth_error e"
    and verify_user: "\<And>secret w p w'. verify secret w = (Inr p, w') \<Longrightarrow> ap_user_id p \<noteq> []"
begin

lemma principal_outcome:
  assumes "get_principal api_key verify w = (r, w')"
  shows "r = Inl API_KEY_REQUIRED \<or> r = Inl INVALID_API_KEY \<or> r = Inl SERVICE_UNAVAILABLE \<or>
    (\<exists>p. r = Inr p \<and> ap_user_id p \<noteq> [] \<and>
       (\<exists>secret. api_key = Some secret \<and> secret \<noteq> [] \<and> verify secret w = (Inr p, w')))"
proof (cases "api_key = None \<or> api_key = Some []")
  case True
  then show ?thesis using assms by (auto simp: get_principal_def)
next
  case False
  then obtain secret where secret: "api_key = Some secret" "secret \<noteq> []" by auto
  obtain r0 w0 where run: "verify secret w = (r0, w0)" by fastforce
  show ?thesis
    using assms run secret verify_raises [of secret w] verify_user [of secret w]
    by (cases r0) (auto simp: get_principal_def catchM_def auth_error_def split: if_splits)
qed

end

lemma auth_errors [simp]: "auth_error InvalidApiKeyError" "auth_error AuthUnavailableError"
  by (simp_all add: auth_error_def)

lemma principal_of_cases: "principal_of r = Inl e \<Longrightarrow> e = InvalidApiKeyError"
  by (auto simp: principal_of_def split: if_splits pyobj.splits)

lemma principal_of_user: "principal_of r = Inr p \<Longrightarrow> ap_user_id p \<noteq> []"
  by (auto simp: principal_of_def split: if_splits pyobj.splits)

lemma clerk_failure_auth: "auth_error (clerk_failure e)"
  by (cases e) (auto simp: clerk_failure_def auth_error_def)

interpretation unavailable_verifier: verifier_protocol unavailable_verify
  by unfold_locales (auto simp: unavailable_verify_def auth_error_def)

interpretation clerk_verifier: verifier_protocol "clerk_verify client timeout_ms" for client timeout_ms
  by unfold_locales
     (auto simp: clerk_verify_def bindM_def catchM_def clerk_failure_auth principal_of_user
       dest!: principal_of_cases split: prod.splits sum.splits)

end
