(* ===== verification/Router.thy ===== *)
theory Router
  imports Auth Connections ItemsCoherence
begin

text \<open>
  \<open>app/items/router.py\<close> and \<open>app/items/dependencies.py\<close>: the routes of the items API and
  the order in which a request is served: first the router's own dependency
  (authentication and scopes), then those of the endpoint, then the validation of its
  parameters, then the endpoint. FastAPI's parsing of query and path values is a
  parameter, as are the routes FastAPI adds for its documentation.
\<close>

section \<open>Requests and the application state\<close>

record request =
  rq_method :: pystr
  rq_path :: pystr
  rq_api_key :: "pystr option" \<comment> \<open>header \<open>X-API-Key\<close>\<close>
  rq_request_id :: "pystr option" \<comment> \<open>header \<open>X-Request-ID\<close>\<close>
  rq_query :: "(pystr \<times> pystr) list"

text \<open>What the event loop does with the two tasks of a readiness check: how long their calls take, which
  of them comes first when they end together, and whether a call that is cancelled had reached
  its service.\<close>

record readiness_schedule =
  rs_database_time :: rat
  rs_redis_time :: rat
  rs_redis_first :: bool
  rs_reached :: bool

record framework =
  fw_list_params :: "(pystr \<times> pystr) list \<Rightarrow> item_list_params option"
  fw_filter_params :: "(pystr \<times> pystr) list \<Rightarrow> item_filter_params option"
  fw_int :: "pystr \<Rightarrow> int option"
  fw_pydantic :: pydantic
  fw_documentation :: "request \<Rightarrow> response option"
  fw_url :: "request \<Rightarrow> pystr \<Rightarrow> pystr" \<comment> \<open>the request's URL with another path\<close>
  fw_readiness :: "request \<Rightarrow> readiness_schedule"

text \<open>What the lifespan puts on \<open>app.state\<close>; the engine and the session factory are represented by
  the locale of the database they are connected to.\<close>

record app_state =
  at_settings :: "app_settings option"
  at_api_key_verifier :: "api_key_verifier option"
  at_database_engine :: "pg_locale option"
  at_session_factory :: "pg_locale option"
  at_redis :: "redis_health_client option"
  at_item_cache :: "redis_item_cache option"
  at_version :: pystr

section \<open>Dependencies\<close>

definition get_item_repository :: "app_state \<Rightarrow> exn + item_repository" where
  "get_item_repository st =
     (case get_session (at_session_factory st) of
        Inl e \<Rightarrow> Inl e | Inr loc \<Rightarrow> Inr (sqlalchemy_item_repository loc))"

definition get_item_cache :: "app_state \<Rightarrow> exn + item_cache" where
  "get_item_cache st =
     (case at_item_cache st of None \<Rightarrow> Inl SERVICE_UNAVAILABLE | Some rc \<Rightarrow> Inr (redis_cache rc))"

definition get_item_service :: "item_repository \<Rightarrow> item_cache \<Rightarrow> item_service" where
  "get_item_service repository cache = \<lparr>svc_repository = repository, svc_cache = cache\<rparr>"

definition ACCESS_SCOPE :: pystr where "ACCESS_SCOPE = lit ''api:access''"

text \<open>\<open>dependencies=[Depends(require_scopes("api:access"))]\<close> of both routers.\<close>

definition authorize :: "app_state \<Rightarrow> request \<Rightarrow> api_principal prog" where
  "authorize st rq =
     bindM (liftM (get_api_key_verifier (at_api_key_verifier st))) (\<lambda>verify.
     bindM (get_principal (rq_api_key rq) verify) (\<lambda>who.
     liftM (require_scopes [ACCESS_SCOPE] who)))"

definition request_service :: "app_state \<Rightarrow> exn + item_service" where
  "request_service st =
     (case get_item_repository st of
        Inl e \<Rightarrow> Inl e
      | Inr repository \<Rightarrow>
          (case get_item_cache st of
             Inl e \<Rightarrow> Inl e | Inr cache \<Rightarrow> Inr (get_item_service repository cache)))"

definition endpoint ::
  "app_state \<Rightarrow> request \<Rightarrow> 'p option \<Rightarrow> (item_service \<Rightarrow> 'p \<Rightarrow> response prog) \<Rightarrow> response prog" where
  "endpoint st rq params handler =
     bindM (authorize st rq) (\<lambda>_.
     bindM (liftM (request_service st)) (\<lambda>service.
     case params of None \<Rightarrow> raise RequestValidationError | Some p \<Rightarrow> handler service p))"

section \<open>Endpoints\<close>

definition list_items_endpoint :: "item_service \<Rightarrow> item_list_params \<Rightarrow> response prog" where
  "list_items_endpoint service params =
     bindM (svc_list_items service params) (\<lambda>r. ret (json_response 200 (list_to_json r)))"

definition random_item_endpoint :: "item_service \<Rightarrow> item_filter_params \<Rightarrow> response prog" where
  "random_item_endpoint service params =
     bindM (svc_get_random service params) (\<lambda>r. ret (json_response 200 (item_to_json r)))"

definition item_endpoint :: "item_service \<Rightarrow> int \<Rightarrow> response prog" where
  "item_endpoint service item_id =
     bindM (svc_get_by_game_id service item_id) (\<lambda>r. ret (json_response 200 (item_to_json r)))"

definition meta_endpoint :: "pydantic \<Rightarrow> pystr \<Rightarrow> item_service \<Rightarrow> unit \<Rightarrow> response prog" where
  "meta_endpoint pd version service _ =
     bindM (svc_get_meta service version) (\<lambda>r. ret (json_response 200 (meta_to_json pd r)))"

section \<open>Routing\<close>

datatype items_route = ListRoute | RandomRoute | ItemRoute pystr | MetaRoute

text \<open>The paths, in the order the routes are declared: \<open>/random\<close> before \<open>/{item_id}\<close>.\<close>

definition match_items_route :: "pystr \<Rightarrow> items_route option" where
  "match_items_route path =
     (if path = lit ''/v1/items'' then Some ListRoute
      else if path = lit ''/v1/items/random'' then Some RandomRoute
      else if startswith path (lit ''/v1/items/'') \<and>
              removeprefix path (lit ''/v1/items/'') \<noteq> [] \<and> 47 \<notin> set (removeprefix path (lit ''/v1/items/''))
      then Some (ItemRoute (removeprefix path (lit ''/v1/items/'')))
      else if path = lit ''/v1/meta'' then Some MetaRoute
      else None)"

definition serve_items :: "framework \<Rightarrow> app_state \<Rightarrow> request \<Rightarrow> items_route \<Rightarrow> response prog" where
  "serve_items fw st rq route =
     (case route of
        ListRoute \<Rightarrow> endpoint st rq (fw_list_params fw (rq_query rq)) list_items_endpoint
      | RandomRoute \<Rightarrow> endpoint st rq (fw_filter_params fw (rq_query rq)) random_item_endpoint
      | ItemRoute item_id \<Rightarrow> endpoint st rq (fw_int fw item_id) item_endpoint
      | MetaRoute \<Rightarrow> endpoint st rq (Some ()) (meta_endpoint (fw_pydantic fw) (at_version st)))"

section \<open>Authentication comes first\<close>

lemma endpoint_denied:
  assumes "authorize st rq w = (Inl e, w')"
  shows "endpoint st rq params handler w = (Inl e, w')"
  using assms by (simp add: endpoint_def bindM_def)

lemma endpoint_granted:
  assumes "authorize st rq w = (Inr who, w')" "request_service st = Inr service" "params = Some p"
  shows "endpoint st rq params handler w = handler service p w'"
  using assms by (simp add: endpoint_def bindM_def)

lemma serve_items_denied:
  assumes "authorize st rq w = (Inl e, w')"
  shows "serve_items fw st rq route w = (Inl e, w')"
  by (cases route) (simp_all add: serve_items_def endpoint_denied [OF assms])

definition denial :: "exn \<Rightarrow> bool" where
  "denial e \<longleftrightarrow> e \<in> {API_KEY_REQUIRED, INVALID_API_KEY, INSUFFICIENT_PERMISSIONS, SERVICE_UNAVAILABLE}"

definition verifier_ok :: "api_key_verifier \<Rightarrow> bool" where
  "verifier_ok verify \<longleftrightarrow> verifier_protocol verify"

lemma authorize_outcome:
  assumes "nullable verifier_ok (at_api_key_verifier st)" "authorize st rq w = (r, w')"
  shows "case r of
      Inl e \<Rightarrow> denial e
    | Inr who \<Rightarrow> ACCESS_SCOPE \<in> ap_scopes who \<and> ap_user_id who \<noteq> [] \<and>
        (\<exists>verify secret. at_api_key_verifier st = Some verify \<and> rq_api_key rq = Some secret \<and>
           secret \<noteq> [] \<and> verify secret w = (Inr who, w'))"
proof (cases "at_api_key_verifier st")
  case None
  then show ?thesis
    using assms(2) by (auto simp: authorize_def get_api_key_verifier_def bindM_def denial_def)
next
  case (Some verify)
  then have verify: "verifier_protocol verify" using assms(1) by (simp add: verifier_ok_def)
  obtain r1 w1 where 1: "get_principal (rq_api_key rq) verify w = (r1, w1)" by fastforce
  show ?thesis
    using verifier_protocol.principal_outcome [OF verify 1] assms(2) 1 Some
    by (cases r1) (auto simp: authorize_def get_api_key_verifier_def bindM_def denial_def
        require_scopes_def split: if_splits)
qed

lemma verifiers_ok [simp]: "verifier_ok unavailable_verify" "verifier_ok (clerk_verify client timeout_ms)"
  by (simp_all add: verifier_ok_def unavailable_verifier.verifier_protocol_axioms
      clerk_verifier.verifier_protocol_axioms)

text \<open>What is served is the service of \<open>item_service_of\<close>.\<close>

lemma request_service_ok:
  assumes "at_session_factory st = Some loc" "at_item_cache st = Some rc"
  shows "request_service st = Inr (item_service_of loc rc)"
  using assms
  by (simp add: request_service_def get_item_repository_def get_session_def get_item_cache_def
      get_item_service_def item_service_of_def)

end
