(* ===== verification/Health.thy ===== *)
theory Health
  imports Router
begin

text \<open>
  \<open>app/health\<close>: the two readiness checks, their combination, and the responses of the
  health endpoints. The checks run as concurrent tasks; how long their calls take, against
  their timeout, decides which of them ends first and whether one is cancelled.
\<close>

section \<open>Schemas\<close>

definition health_response :: json where
  "health_response = JObj [(lit ''status'', JStr (lit ''ok''))]"

record service_states =
  st_database :: bool \<comment> \<open>\<open>up\<close> or \<open>down\<close>\<close>
  st_redis :: bool

definition up_down :: "bool \<Rightarrow> json" where
  "up_down b = JStr (if b then lit ''up'' else lit ''down'')"

definition service_states_json :: "service_states \<Rightarrow> json" where
  "service_states_json s =
     JObj [(lit ''database'', up_down (st_database s)), (lit ''redis'', up_down (st_redis s))]"

definition readiness_response :: "service_states \<Rightarrow> json" where
  "readiness_response s =
     JObj [(lit ''status'', JStr (lit ''ready'')), (lit ''services'', service_states_json s)]"

definition readiness_unavailable_response :: "error_detail \<Rightarrow> service_states \<Rightarrow> json" where
  "readiness_unavailable_response d s =
     JObj [(lit ''error'', error_detail_json d), (lit ''services'', service_states_json s)]"

section \<open>ReadinessChecks\<close>

record readiness_result =
  rr_database :: bool
  rr_redis :: bool

definition is_ready :: "readiness_result \<Rightarrow> bool" where
  "is_ready r \<longleftrightarrow> rr_database r \<and> rr_redis r"

definition readiness_failure_entry :: "pystr \<Rightarrow> exn \<Rightarrow> log_entry" where
  "readiness_failure_entry dependency e =
     log_entry_of (lit ''app.health'') (lit ''WARNING'') (lit ''readiness_check_failed'')
       [(lit ''event'', JStr (lit ''readiness_check_failed'')), (lit ''dependency'', JStr dependency),
        (lit ''exception_type'', JStr (type_name e))]"

definition log_readiness_failure :: "pystr \<Rightarrow> exn \<Rightarrow> unit prog" where
  "log_readiness_failure dependency e = emit (readiness_failure_entry dependency e)"

text \<open>The engine of a \<open>ReadinessChecks\<close> is connected to the database of the world.\<close>

record readiness_checks =
  rk_database_engine :: pg_locale
  rk_redis :: redis_health_client
  rk_timeout :: rat

text \<open>\<open>async with asyncio.timeout(timeout)\<close> around a call that takes \<open>elapsed\<close>: a call that is
  cancelled at the deadline may have reached its service.\<close>

definition timed :: "rat \<Rightarrow> rat \<Rightarrow> 'a prog \<Rightarrow> 'a prog" where
  "timed timeout elapsed call w =
     (if elapsed < timeout then call w else (Inl TimeoutError, final call w))"

text \<open>\<open>SELECT 1\<close> on a connection.\<close>

definition select_one :: "unit prog" where
  "select_one = db_call (\<lambda>_ db. (Inr (), db))"

definition database_is_ready :: "readiness_checks \<Rightarrow> rat \<Rightarrow> bool prog" where
  "database_is_ready checks elapsed =
     catchM (bindM (timed (rk_timeout checks) elapsed select_one) (\<lambda>_. ret True))
       (\<lambda>e. if e = TimeoutError \<or> is_OSError e \<or> e = SQLAlchemyError
            then Some (bindM (log_readiness_failure (lit ''database'') e) (\<lambda>_. ret False)) else None)"

definition ping :: "redis_health_client \<Rightarrow> bool prog" where
  "ping client = redis_call (\<lambda>st. (Inr (rh_ping client st), st))"

definition redis_is_ready :: "readiness_checks \<Rightarrow> rat \<Rightarrow> bool prog" where
  "redis_is_ready checks elapsed =
     catchM (timed (rk_timeout checks) elapsed (ping (rk_redis checks)))
       (\<lambda>e. if e = TimeoutError \<or> is_OSError e \<or> is_RedisError e
            then Some (bindM (log_readiness_failure (lit ''redis'') e) (\<lambda>_. ret False)) else None)"

text \<open>\<open>gather\<close> on two tasks, the one that ends first given first. When it raises, the other is
  cancelled, \<open>stopped\<close> is what it has done by then, and the exception goes on. The calls of the two
  tasks act on different services, so only the order of their ends shows.\<close>

definition gather :: "bool prog \<Rightarrow> bool prog \<Rightarrow> (world \<Rightarrow> world) \<Rightarrow> (bool \<times> bool) prog" where
  "gather first second stopped w =
     (case first w of
        (Inl e, w1) \<Rightarrow> (Inl e, stopped w1)
      | (Inr a, w1) \<Rightarrow> (case second w1 of (Inl e, w2) \<Rightarrow> (Inl e, w2) | (Inr b, w2) \<Rightarrow> (Inr (a, b), w2)))"

text \<open>A task that ends together with the first is not cancelled any more; one that is has logged
  nothing, and its call may have reached its service.\<close>

definition cancelled :: "bool \<Rightarrow> bool \<Rightarrow> 'a prog \<Rightarrow> bool prog \<Rightarrow> world \<Rightarrow> world" where
  "cancelled together reached call task w =
     (if together then final task w else if reached then final call w else w)"

definition ends_at :: "readiness_checks \<Rightarrow> rat \<Rightarrow> rat" where
  "ends_at checks elapsed = min elapsed (rk_timeout checks)"

definition redis_ends_first :: "readiness_checks \<Rightarrow> readiness_schedule \<Rightarrow> bool" where
  "redis_ends_first checks sch =
     (let d = ends_at checks (rs_database_time sch); r = ends_at checks (rs_redis_time sch) in
      if d = r then rs_redis_first sch else r < d)"

definition readiness_run :: "readiness_checks \<Rightarrow> readiness_schedule \<Rightarrow> readiness_result prog" where
  "readiness_run checks sch =
     (let database = database_is_ready checks (rs_database_time sch);
          pinging = redis_is_ready checks (rs_redis_time sch);
          together = (ends_at checks (rs_database_time sch) = ends_at checks (rs_redis_time sch)) in
      if redis_ends_first checks sch
      then bindM (gather pinging database (cancelled together (rs_reached sch) select_one database))
             (\<lambda>(r, d). ret \<lparr>rr_database = d, rr_redis = r\<rparr>)
      else bindM (gather database pinging (cancelled together (rs_reached sch) (ping (rk_redis checks)) pinging))
             (\<lambda>(d, r). ret \<lparr>rr_database = d, rr_redis = r\<rparr>))"

text \<open>An attribute that \<open>app.state\<close> does not have is an \<open>AttributeError\<close>.\<close>

definition get_readiness_checks :: "app_state \<Rightarrow> exn + readiness_checks" where
  "get_readiness_checks st =
     (case (at_settings st, at_database_engine st, at_redis st) of
        (Some s, Some engine, Some client) \<Rightarrow>
          Inr \<lparr>rk_database_engine = engine, rk_redis = client, rk_timeout = ps_dependency_timeout_seconds s\<rparr>
      | _ \<Rightarrow> Inl AttributeError)"

section \<open>Endpoints\<close>

definition liveness :: "response prog" where
  "liveness = ret (json_response 200 health_response)"

definition readiness :: "app_state \<Rightarrow> readiness_schedule \<Rightarrow> response prog" where
  "readiness st sch =
     bindM (liftM (get_readiness_checks st)) (\<lambda>checks.
     bindM (readiness_run checks sch) (\<lambda>result.
     let services = \<lparr>st_database = rr_database result, st_redis = rr_redis result\<rparr> in
     if \<not> is_ready result then
       ret (json_response 503
         (readiness_unavailable_response
            \<lparr>ed_code = lit ''SERVICE_UNAVAILABLE'', ed_message = lit ''A required service is unavailable''\<rparr>
            services))
     else ret (json_response 200 (readiness_response services))))"

section \<open>What a check finds\<close>

text \<open>The answer of each service to its check, from the schedules alone: a failure, the deadline
  included, or an answer.\<close>

definition database_answer :: "readiness_checks \<Rightarrow> rat \<Rightarrow> world \<Rightarrow> exn + bool" where
  "database_answer checks elapsed w =
     (if rk_timeout checks \<le> elapsed then Inl TimeoutError
      else (case db_events w of
              [] \<Rightarrow> Inr True
            | e # _ \<Rightarrow> (case de_fault e of None \<Rightarrow> Inr True | Some x \<Rightarrow> Inl x)))"

definition redis_answer :: "readiness_checks \<Rightarrow> rat \<Rightarrow> world \<Rightarrow> exn + bool" where
  "redis_answer checks elapsed w =
     (if rk_timeout checks \<le> elapsed then Inl TimeoutError
      else (case redis_events w of
              [] \<Rightarrow> Inr (rh_ping (rk_redis checks) (redis w))
            | e # _ \<Rightarrow> (case re_fault e of
                  None \<Rightarrow> Inr (rh_ping (rk_redis checks) (re_others e (redis w))) | Some x \<Rightarrow> Inl x)))"

text \<open>A failure that the check expects means that the service is down; any other is a bug and is
  raised.\<close>

definition verdict :: "(exn \<Rightarrow> bool) \<Rightarrow> exn + bool \<Rightarrow> exn + bool" where
  "verdict expected answer =
     (case answer of Inr up \<Rightarrow> Inr up | Inl e \<Rightarrow> if expected e then Inr False else Inl e)"

definition database_down :: "exn \<Rightarrow> bool" where
  "database_down e \<longleftrightarrow> e = TimeoutError \<or> is_OSError e \<or> e = SQLAlchemyError"

definition redis_down :: "exn \<Rightarrow> bool" where
  "redis_down e \<longleftrightarrow> e = TimeoutError \<or> is_OSError e \<or> is_RedisError e"

lemma database_is_ready_run:
  "result (database_is_ready checks elapsed) w = verdict database_down (database_answer checks elapsed w)"
  by (cases "db_events w")
     (auto simp: database_is_ready_def timed_def select_one_def database_answer_def verdict_def database_down_def
       db_call_def bindM_def catchM_def Let_def log_readiness_failure_def emit_def split: option.split)

lemma redis_is_ready_run:
  "result (redis_is_ready checks elapsed) w = verdict redis_down (redis_answer checks elapsed w)"
  by (cases "redis_events w")
     (auto simp: redis_is_ready_def timed_def ping_def redis_answer_def verdict_def redis_down_def
       redis_call_def bindM_def catchM_def Let_def log_readiness_failure_def emit_def split: option.split)

text \<open>The check of one service does not show in the answer of the other.\<close>

lemma frame_timed [frame_intros]: "frame sel call \<Longrightarrow> frame sel (timed timeout elapsed call)"
  by (simp add: frame_def timed_def)

lemma frame_checks [frame_intros]:
  "frame db_events (redis_is_ready checks elapsed)"
  "frame redis (database_is_ready checks elapsed)" "frame redis_events (database_is_ready checks elapsed)"
  unfolding redis_is_ready_def database_is_ready_def ping_def select_one_def log_readiness_failure_def
  by (auto intro!: frame_intros split: if_splits)

lemma checks_apart:
  "database_answer checks t (final (redis_is_ready checks' t') w) = database_answer checks t w"
  "redis_answer checks t (final (database_is_ready checks' t') w) = redis_answer checks t w"
  by (simp_all add: database_answer_def redis_answer_def frameD [OF frame_checks(1)] frameD [OF frame_checks(2)]
      frameD [OF frame_checks(3)] split: list.split option.split)

lemma gather_result:
  "result (gather first second stopped) w =
     (case result first w of
        Inl e \<Rightarrow> Inl e
      | Inr a \<Rightarrow> map_sum id (Pair a) (result second (final first w)))"
  by (cases "first w"; cases "fst (first w)")
     (auto simp: gather_def split: prod.split sum.split)

text \<open>When one check raises, its exception is the outcome; of two, that of the check that ends first.\<close>

lemma readiness_run_result:
  "result (readiness_run checks sch) w =
     (case (verdict database_down (database_answer checks (rs_database_time sch) w),
            verdict redis_down (redis_answer checks (rs_redis_time sch) w)) of
        (Inr d, Inr r) \<Rightarrow> Inr \<lparr>rr_database = d, rr_redis = r\<rparr>
      | (Inl e, Inr _) \<Rightarrow> Inl e
      | (Inr _, Inl e) \<Rightarrow> Inl e
      | (Inl e, Inl e') \<Rightarrow> Inl (if redis_ends_first checks sch then e' else e))"
proof -
  have bind: "result (bindM m (\<lambda>x. ret (f x))) w = map_sum id f (result m w)" for m :: "'x prog" and f :: "'x \<Rightarrow> 'y"
    by (cases "m w"; cases "fst (m w)") (auto simp: bindM_def)
  have pair: "(\<lambda>(a, b). ret (g a b)) = (\<lambda>x. ret (case x of (a, b) \<Rightarrow> g a b))" for g :: "bool \<Rightarrow> bool \<Rightarrow> readiness_result"
    by (auto simp: fun_eq_iff)
  show ?thesis
    by (simp add: readiness_run_def Let_def pair bind gather_result database_is_ready_run redis_is_ready_run
        checks_apart split: sum.split)
qed

end
