(* ===== verification/Application.thy ===== *)
theory Application
  imports Router Health Logging
begin

text \<open>
  \<open>app/main.py\<close>: the lifespan, which turns the settings into the application's state and
  closes the clients it opened, and the application itself: the routers, the exception
  handlers and the logging middleware around them.
\<close>

section \<open>The lifespan\<close>

text \<open>What the lifespan takes from outside: the sources of \<open>Settings()\<close>, the constructors of
  the clients, and what closing them raises.\<close>

record lifespan_environment =
  lf_settings :: settings_source
  lf_message :: "issue \<Rightarrow> pystr"
  lf_make_engine :: "pystr \<Rightarrow> connect_args \<Rightarrow> exn + pg_locale"
  lf_from_url :: "pystr \<Rightarrow> redis_options \<Rightarrow> exn + redis_health_client"
  lf_make_clerk :: "pystr \<Rightarrow> int \<Rightarrow> clerk_client prog"
  lf_pydantic :: pydantic
  lf_sha256 :: "pystr \<Rightarrow> pystr"
  lf_recursion :: nat
  lf_dispose :: "exn option"
  lf_aclose :: "exn option"
  lf_clerk_exit :: "exn option"

definition runtime_settings :: "lifespan_environment \<Rightarrow> app_settings option \<Rightarrow> exn + app_settings" where
  "runtime_settings env settings =
     (case settings of
        Some s \<Rightarrow> Inr s
      | None \<Rightarrow> settings_result (lf_message env) (make_settings (lf_settings env)))"

definition item_cache_of :: "lifespan_environment \<Rightarrow> app_settings \<Rightarrow> exn + redis_item_cache" where
  "item_cache_of env s =
     make_redis_item_cache (lf_pydantic env) (lf_sha256 env) (lf_recursion env) True None
       (PyInt (as_cache_item_ttl_seconds s)) (PyInt (as_cache_list_ttl_seconds s))
       (PyInt (as_cache_meta_ttl_seconds s))"

text \<open>\<open>int(timeout * 1000)\<close> truncates towards zero.\<close>

definition verifier_timeout_ms :: "app_settings \<Rightarrow> int" where
  "verifier_timeout_ms s = \<lfloor>ps_dependency_timeout_seconds s * 1000\<rfloor>"

text \<open>\<open>serve\<close> is the application while it runs, between the \<open>yield\<close> and the shutdown.\<close>

definition lifespan ::
  "lifespan_environment \<Rightarrow> app_settings option \<Rightarrow> (app_state \<Rightarrow> (server, exn, 'a) io) \<Rightarrow> (server, exn, 'a) io"
where
  "lifespan env settings serve =
     bindM (liftM (runtime_settings env settings)) (\<lambda>s.
     bindM (on_loggers (configure_logging (as_log_level s))) (\<lambda>_.
     async_exit_stack
       (bindM (open_client DatabaseEngine (create_database (lf_make_engine env) (ss_unicode (lf_settings env)) s)) (\<lambda>engine.
        bindM (push_async_callback DatabaseEngine (lf_dispose env)) (\<lambda>_.
        bindM (open_client RedisClient
                 (create_redis (lf_from_url env) (ss_unicode (lf_settings env)) (app_redis_settings s))) (\<lambda>redis_client.
        bindM (push_async_callback RedisClient (lf_aclose env)) (\<lambda>_.
        bindM (liftM (item_cache_of env s)) (\<lambda>rc.
        bindM (on_world (bind_api_key_verifier (lf_make_clerk env) (as_clerk_secret_key s)
                           (verifier_timeout_ms s))) (\<lambda>(client, verify).
        bindM (case client of
                 None \<Rightarrow> ret ()
               | Some _ \<Rightarrow> enter_async_context ClerkClient (lf_clerk_exit env)) (\<lambda>_.
        serve \<lparr>at_settings = Some s, at_api_key_verifier = Some verify, at_database_engine = Some engine,
                at_session_factory = Some engine, at_redis = Some redis_client, at_item_cache = Some rc,
                at_version = as_app_version s\<rparr>))))))))))"

section \<open>The routes of the application\<close>

datatype route = HealthRoute | ReadyRoute | ItemsRoute items_route

definition route_of :: "pystr \<Rightarrow> route option" where
  "route_of path =
     (if path = lit ''/health'' then Some HealthRoute
      else if path = lit ''/health/ready'' then Some ReadyRoute
      else map_option ItemsRoute (match_items_route path))"

definition NOT_FOUND :: exn where "NOT_FOUND = HTTPException 404 None"

definition METHOD_NOT_ALLOWED :: exn where
  "METHOD_NOT_ALLOWED = HTTPException 405 (Some [(lit ''Allow'', lit ''GET'')])"

text \<open>The router redirects a path that only a trailing slash separates from a route.\<close>

definition toggle_slash :: "pystr \<Rightarrow> pystr" where
  "toggle_slash path =
     (if endswith path (lit ''/'') then rev (dropWhile (\<lambda>c. c = 47) (rev path)) else path @ lit ''/'')"

definition dispatch :: "framework \<Rightarrow> app_state \<Rightarrow> request \<Rightarrow> response prog" where
  "dispatch fw st rq =
     (case fw_documentation fw rq of
        Some r \<Rightarrow> ret r
      | None \<Rightarrow>
          (case route_of (rq_path rq) of
             None \<Rightarrow>
               if rq_path rq \<noteq> lit ''/'' \<and> route_of (toggle_slash (rq_path rq)) \<noteq> None
               then ret ((json_response 307 JNull)\<lparr>headers := [(lit ''location'', fw_url fw rq (toggle_slash (rq_path rq)))]\<rparr>)
               else raise NOT_FOUND
           | Some route \<Rightarrow>
               if rq_method rq \<noteq> lit ''GET'' then raise METHOD_NOT_ALLOWED
               else (case route of
                  HealthRoute \<Rightarrow> liveness
                | ReadyRoute \<Rightarrow> readiness st (fw_readiness fw rq)
                | ItemsRoute r \<Rightarrow> serve_items fw st rq r)))"

text \<open>The handlers answer the exceptions they are registered for; any other reaches the
  middleware.\<close>

definition application :: "framework \<Rightarrow> app_state \<Rightarrow> request \<Rightarrow> response prog" where
  "application fw st rq = catchM (dispatch fw st rq) (\<lambda>e. Some (liftM (handle_exception e)))"

definition asgi_of :: "(exn \<Rightarrow> frame_summary option) \<Rightarrow> response prog \<Rightarrow> asgi_app" where
  "asgi_of traceback m w =
     (case m w of
        (Inr r, w') \<Rightarrow> (\<lparr>ao_sent = response_messages r, ao_failure = None\<rparr>, w')
      | (Inl e, w') \<Rightarrow> (\<lparr>ao_sent = [], ao_failure = Some (e, traceback e)\<rparr>, w'))"

definition scope_of :: "request \<Rightarrow> scope" where
  "scope_of rq =
     \<lparr>sc_type = lit ''http'', sc_method = rq_method rq, sc_path = rq_path rq,
      sc_request_id = rq_request_id rq\<rparr>"

definition serve_http ::
  "framework \<Rightarrow> (exn \<Rightarrow> frame_summary option) \<Rightarrow> (world \<Rightarrow> world \<Rightarrow> json) \<Rightarrow> app_state \<Rightarrow> request \<Rightarrow> asgi_app" where
  "serve_http fw traceback elapsed st rq =
     request_middleware elapsed (asgi_of traceback (application fw st rq)) (scope_of rq)"

section \<open>create_app\<close>

text \<open>What the constructor of \<open>FastAPI\<close> gets, and the memory of the OpenAPI document. Of the
  document that \<open>get_openapi\<close> makes, an argument, the components are kept apart: a
  dictionary of dictionaries, possibly absent.\<close>

record openapi_document =
  oa_members :: "(pystr \<times> json) list"
  oa_components :: "(pystr \<times> (pystr \<times> json) list) list option"

record fastapi =
  fa_title :: pystr
  fa_version :: pystr
  fa_openapi_schema :: "openapi_document option"

definition create_app :: "app_settings option \<Rightarrow> fastapi" where
  "create_app settings =
     \<lparr>fa_title = (case settings of None \<Rightarrow> lit ''The Binding of Isaac API'' | Some s \<Rightarrow> as_app_name s),
      fa_version = (case settings of None \<Rightarrow> lit ''0.1.0'' | Some s \<Rightarrow> as_app_version s),
      fa_openapi_schema = None\<rparr>"

definition API_KEY_SCHEME :: json where
  "API_KEY_SCHEME =
     JObj [(lit ''type'', JStr (lit ''apiKey'')), (lit ''in'', JStr (lit ''header'')),
           (lit ''name'', JStr (lit ''X-API-Key''))]"

definition openapi :: "(pystr \<Rightarrow> pystr \<Rightarrow> openapi_document) \<Rightarrow> fastapi \<Rightarrow> openapi_document \<times> fastapi" where
  "openapi get_openapi app =
     (case fa_openapi_schema app of
        Some schema \<Rightarrow> (schema, app)
      | None \<Rightarrow>
          (let schema = get_openapi (fa_title app) (fa_version app);
               components = (case oa_components schema of None \<Rightarrow> [] | Some c \<Rightarrow> c);
               schemes = (case map_of components (lit ''securitySchemes'') of None \<Rightarrow> [] | Some s \<Rightarrow> s);
               schema' = schema\<lparr>oa_components := Some (AList.update (lit ''securitySchemes'')
                 (AList.update (lit ''X-API-Key'') API_KEY_SCHEME schemes) components)\<rparr> in
           (schema', app\<lparr>fa_openapi_schema := Some schema'\<rparr>)))"

text \<open>The document is made once; it has the scheme of the key, and everything else that
  \<open>get_openapi\<close> put into it.\<close>

lemma openapi_once: "openapi g app = (d, app') \<Longrightarrow> openapi g' app' = (d, app')"
  by (auto simp: openapi_def Let_def split: option.splits)

lemma openapi_scheme:
  assumes "openapi g (create_app settings) = (d, app')"
    "g (fa_title (create_app settings)) (fa_version (create_app settings)) = d0"
  shows "\<exists>components schemes. oa_components d = Some components \<and> oa_members d = oa_members d0 \<and>
    map_of components (lit ''securitySchemes'') = Some schemes \<and>
    map_of schemes (lit ''X-API-Key'') = Some API_KEY_SCHEME \<and>
    (\<forall>k. k \<noteq> lit ''securitySchemes'' \<longrightarrow>
      map_of components k = Option.bind (oa_components d0) (\<lambda>c. map_of c k))"
proof -
  have "fa_openapi_schema (create_app settings) = None" by (simp add: create_app_def)
  then show ?thesis
    using assms by (auto simp: openapi_def Let_def update_conv' split: option.splits)
qed

section \<open>The lifespan closes what it opened\<close>

lemma lifespan_closes:
  fixes serve :: "app_state \<Rightarrow> (server, exn, 'a) io"
  assumes "\<And>st. frame sv_clients (serve st)"
  shows "all_closed (sv_clients p) (sv_clients (final (lifespan env settings serve) p))"
  unfolding lifespan_def
proof (intro all_closed_bindM async_exit_stack_closes frame_intros)
  fix s :: app_settings and os cs
  have "keeps (stacked os cs) (serve st)" for st by (rule stacked_frame [OF assms])
  moreover have "keeps (stacked os cs) (on_world m :: (server, exn, 'c) io)" for m :: "'c prog"
    by (rule stacked_frame [OF frame_on_clients(1)])
  ultimately show "keeps (stacked os cs)
       (bindM (open_client DatabaseEngine (create_database (lf_make_engine env) (ss_unicode (lf_settings env)) s)) (\<lambda>engine.
        bindM (push_async_callback DatabaseEngine (lf_dispose env)) (\<lambda>_.
        bindM (open_client RedisClient
                 (create_redis (lf_from_url env) (ss_unicode (lf_settings env)) (app_redis_settings s))) (\<lambda>redis_client.
        bindM (push_async_callback RedisClient (lf_aclose env)) (\<lambda>_.
        bindM (liftM (item_cache_of env s)) (\<lambda>rc.
        bindM (on_world (bind_api_key_verifier (lf_make_clerk env) (as_clerk_secret_key s)
                           (verifier_timeout_ms s))) (\<lambda>(client, verify).
        bindM (case client of
                 None \<Rightarrow> ret ()
               | Some _ \<Rightarrow> enter_async_context ClerkClient (lf_clerk_exit env)) (\<lambda>_.
        serve \<lparr>at_settings = Some s, at_api_key_verifier = Some verify, at_database_engine = Some engine,
                at_session_factory = Some engine, at_redis = Some redis_client, at_item_cache = Some rc,
                at_version = as_app_version s\<rparr>))))))))"
    by (auto intro!: keeps_intros split: prod.split)
qed

text \<open>Valid settings always make a cache: the bounds of the settings are those of the
  constructor.\<close>

lemma item_cache_of_settings:
  assumes "make_settings src = Valid s"
  shows "\<exists>rc. item_cache_of env s = Inr rc"
  using make_settings_Valid(5) [OF assms, of "as_cache_item_ttl_seconds s"]
    make_settings_Valid(5) [OF assms, of "as_cache_list_ttl_seconds s"]
    make_settings_Valid(5) [OF assms, of "as_cache_meta_ttl_seconds s"]
  by (simp add: item_cache_of_def make_redis_item_cache_def validate_ttl_def)

lemma verifier_timeout_bounds:
  assumes "make_settings src = Valid s"
  shows "0 \<le> verifier_timeout_ms s" "verifier_timeout_ms s \<le> 30000"
proof -
  have "0 < ps_dependency_timeout_seconds s" "ps_dependency_timeout_seconds s \<le> 30"
    using make_settings_Valid(3) [OF assms] by simp_all
  then show "0 \<le> verifier_timeout_ms s" "verifier_timeout_ms s \<le> 30000"
    by (simp_all add: verifier_timeout_ms_def floor_le_iff)
qed

section \<open>Every request is answered\<close>

lemma application_authorized:
  assumes "fw_documentation fw rq = None" "route_of (rq_path rq) = Some (ItemsRoute r)"
    "rq_method rq = lit ''GET''"
  shows "application fw st rq = catchM (serve_items fw st rq r) (\<lambda>e. Some (liftM (handle_exception e)))"
  using assms by (simp add: application_def dispatch_def)

lemma application_denied:
  assumes "fw_documentation fw rq = None" "route_of (rq_path rq) = Some (ItemsRoute r)"
    "rq_method rq = lit ''GET''" "authorize st rq w = (Inl e, w')"
  shows "application fw st rq w = (handle_exception e, w')"
  using assms(4) serve_items_denied
  by (auto simp: application_authorized [OF assms(1-3)] catchM_def)

lemma serve_http_answers:
  assumes "serve_http fw traceback elapsed st rq w = (out, w')"
  shows "\<exists>rid status hs body. request_id_pattern rid \<and> header_values (lit ''X-Request-ID'') hs = [rid] \<and>
     ao_sent out = [ResponseStart status hs, ResponseBody body] \<and> ao_failure out = None \<and>
     (\<exists>duration. last (logs w') = completed_entry rid (rq_method rq) (rq_path rq) status duration)"
proof -
  have http: "sc_type (scope_of rq) = lit ''http''" by (simp add: scope_of_def)
  obtain rid w0 inner w1 where mid: "request_id_pattern rid"
    "asgi_of traceback (application fw st rq) w0 = (inner, w1)"
    "ao_sent out = map (with_request_id rid)
       (ao_sent inner @ (if ao_failure inner \<noteq> None \<and> \<not> list_ex is_start (ao_sent inner)
          then response_messages INTERNAL_ERROR else []))"
    "ao_failure out = (if list_ex is_start (ao_sent inner) then ao_failure inner else None)"
    "\<exists>duration. last (logs w') = completed_entry rid (sc_method (scope_of rq)) (sc_path (scope_of rq))
        (last_status 500 (ao_sent out)) duration"
    using request_middleware_outcome [OF http assms [unfolded serve_http_def]] by blast
  obtain r where sent: "ao_sent out = map (with_request_id rid) (response_messages r)" "ao_failure out = None"
    using mid(2-4)
    by (auto simp: asgi_of_def response_messages_def is_start_def split: prod.splits sum.splits)
  then show ?thesis
    using mid(1,5)
    by (auto simp: response_messages_def with_request_id_def set_header_values last_status_def scope_of_def)
qed

end
