(* ===== verification/Migrations.thy ===== *)
theory Migrations
  imports Text
begin

text \<open>
  \<open>alembic\<close> and the ORM's metadata: the operations a revision uses on a database schema,
  the three revisions with their upgrades and downgrades, the walk along
  \<open>down_revision\<close>, and the schema that \<open>app/items/models.py\<close> and \<open>app/meta/models.py\<close>
  declare under the naming convention of \<open>app/core/database.py\<close>.
\<close>

section \<open>Schemas\<close>

datatype sql_type = SqlInteger | SqlText | SqlTimestampTz

record column =
  col_name :: string
  col_type :: sql_type
  col_nullable :: bool
  col_server_default :: "string option"
  col_autoincrement :: bool

datatype table_constraint =
  Check string string \<comment> \<open>name and expression\<close>
| PrimaryKey string "string list"
| Unique string "string list"

record table =
  tab_columns :: "column list"
  tab_constraints :: "table_constraint set"

record index =
  ix_table :: string
  ix_columns :: "string list"
  ix_unique :: bool

record schema =
  sch_tables :: "string \<rightharpoonup> table"
  sch_indexes :: "string \<rightharpoonup> index"

definition empty_schema :: schema where
  "empty_schema = \<lparr>sch_tables = Map.empty, sch_indexes = Map.empty\<rparr>"

section \<open>Operations\<close>

text \<open>\<open>None\<close> is the error of the database: an object that exists already, or one that does
  not exist. Dropping a table drops its indexes.\<close>

type_synonym operation = "schema \<Rightarrow> schema option"

definition create_table :: "string \<Rightarrow> column list \<Rightarrow> table_constraint list \<Rightarrow> operation" where
  "create_table name cols cs sch =
     (if sch_tables sch name \<noteq> None then None
      else Some (sch\<lparr>sch_tables := (sch_tables sch)
                  (name \<mapsto> \<lparr>tab_columns = cols, tab_constraints = set cs\<rparr>)\<rparr>))"

definition drop_table :: "string \<Rightarrow> operation" where
  "drop_table name sch =
     (if sch_tables sch name = None then None
      else Some \<lparr>sch_tables = (sch_tables sch)(name := None),
                 sch_indexes = (\<lambda>i. case sch_indexes sch i of None \<Rightarrow> None
                    | Some x \<Rightarrow> if ix_table x = name then None else Some x)\<rparr>)"

definition create_index :: "string \<Rightarrow> string \<Rightarrow> string list \<Rightarrow> bool \<Rightarrow> operation" where
  "create_index name tab cols unique sch =
     (case sch_tables sch tab of
        None \<Rightarrow> None
      | Some t \<Rightarrow>
          if sch_indexes sch name \<noteq> None \<or> \<not> set cols \<subseteq> col_name ` set (tab_columns t) then None
          else Some (sch\<lparr>sch_indexes := (sch_indexes sch)
                  (name \<mapsto> \<lparr>ix_table = tab, ix_columns = cols, ix_unique = unique\<rparr>)\<rparr>))"

definition drop_index :: "string \<Rightarrow> operation" where
  "drop_index name sch =
     (if sch_indexes sch name = None then None
      else Some (sch\<lparr>sch_indexes := (sch_indexes sch)(name := None)\<rparr>))"

primrec run_operations :: "operation list \<Rightarrow> operation" where
  "run_operations [] sch = Some sch"
| "run_operations (f # fs) sch = (case f sch of None \<Rightarrow> None | Some s \<Rightarrow> run_operations fs s)"

definition sa_column :: "string \<Rightarrow> sql_type \<Rightarrow> bool \<Rightarrow> column" where
  "sa_column name ty nullable =
     \<lparr>col_name = name, col_type = ty, col_nullable = nullable, col_server_default = None,
      col_autoincrement = False\<rparr>"

text \<open>A single integer primary key counts by itself unless told otherwise.\<close>

definition identity_column :: "string \<Rightarrow> column" where
  "identity_column name = (sa_column name SqlInteger False)\<lparr>col_autoincrement := True\<rparr>"

definition now_column :: "string \<Rightarrow> column" where
  "now_column name = (sa_column name SqlTimestampTz False)\<lparr>col_server_default := Some ''now()''\<rparr>"

text \<open>The condition \<open>btrim(column) <>\<close> the empty literal, two apostrophes.\<close>

definition nonblank :: "string \<Rightarrow> string" where
  "nonblank col = ''btrim('' @ col @ '') <> '' @ [CHR 0x27, CHR 0x27]"

section \<open>The revisions\<close>

definition create_items_upgrade :: "operation list" where
  "create_items_upgrade =
     [create_table ''items''
        [identity_column ''id'', sa_column ''game_id'' SqlInteger False, sa_column ''name'' SqlText False,
         sa_column ''description'' SqlText False, sa_column ''quality'' SqlInteger True,
         sa_column ''item_type'' SqlText True, sa_column ''recharge_time'' SqlText True,
         sa_column ''image_url'' SqlText False, sa_column ''introduced_in_version'' SqlText True,
         now_column ''created_at'', now_column ''updated_at'']
        [Check ''ck_items_quality_range'' ''quality BETWEEN 0 AND 4'',
         PrimaryKey ''pk_items'' [''id''], Unique ''uq_items_game_id'' [''game_id'']],
      create_index ''ix_items_item_type'' ''items'' [''item_type''] False,
      create_index ''ix_items_name'' ''items'' [''name''] False,
      create_index ''ix_items_quality'' ''items'' [''quality''] False]"

definition create_items_downgrade :: "operation list" where
  "create_items_downgrade =
     [drop_index ''ix_items_quality'', drop_index ''ix_items_name'', drop_index ''ix_items_item_type'',
      drop_table ''items'']"

definition create_metadata_upgrade :: "operation list" where
  "create_metadata_upgrade =
     [create_table ''dataset_metadata''
        [sa_column ''id'' SqlInteger False, sa_column ''dataset_version'' SqlText False,
         sa_column ''game_version'' SqlText True, sa_column ''last_sync'' SqlTimestampTz False]
        [Check ''ck_dataset_metadata_singleton_key'' ''id = 1'',
         Check ''ck_dataset_metadata_dataset_version_nonempty'' (nonblank ''dataset_version''),
         Check ''ck_dataset_metadata_game_version_nonempty''
           (''game_version IS NULL OR '' @ nonblank ''game_version''),
         PrimaryKey ''pk_dataset_metadata'' [''id'']]]"

definition create_metadata_downgrade :: "operation list" where
  "create_metadata_downgrade = [drop_table ''dataset_metadata'']"

record revision =
  rev_id :: string
  rev_down :: "string option"
  rev_upgrade :: "operation list"
  rev_downgrade :: "operation list"

definition baseline_revision :: revision where
  "baseline_revision =
     \<lparr>rev_id = ''3159b05b2715'', rev_down = None, rev_upgrade = [], rev_downgrade = []\<rparr>"

definition items_revision :: revision where
  "items_revision =
     \<lparr>rev_id = ''2a06a50207ce'', rev_down = Some ''3159b05b2715'',
      rev_upgrade = create_items_upgrade, rev_downgrade = create_items_downgrade\<rparr>"

definition metadata_revision :: revision where
  "metadata_revision =
     \<lparr>rev_id = ''4f7c8e9a1b2d'', rev_down = Some ''2a06a50207ce'',
      rev_upgrade = create_metadata_upgrade, rev_downgrade = create_metadata_downgrade\<rparr>"

text \<open>The files of \<open>alembic/versions\<close>, in the order of their names.\<close>

definition revisions :: "revision list" where
  "revisions = [items_revision, baseline_revision, metadata_revision]"

text \<open>The walk from the base: the revision that follows another one. The fuel is the number
  of revisions.\<close>

primrec revision_chain :: "nat \<Rightarrow> revision list \<Rightarrow> string option \<Rightarrow> revision list" where
  "revision_chain 0 rs parent = []"
| "revision_chain (Suc n) rs parent =
     (case filter (\<lambda>r. rev_down r = parent) rs of
        [r] \<Rightarrow> r # revision_chain n rs (Some (rev_id r))
      | _ \<Rightarrow> [])"

definition upgrade_operations :: "operation list" where
  "upgrade_operations = concat (map rev_upgrade (revision_chain (length revisions) revisions None))"

definition upgrade_head :: operation where
  "upgrade_head = run_operations upgrade_operations"

definition downgrade_base :: operation where
  "downgrade_base =
     run_operations (concat (map rev_downgrade (rev (revision_chain (length revisions) revisions None))))"

section \<open>The metadata of the models\<close>

text \<open>\<open>NAMING_CONVENTION\<close>\<close>

definition ix_name :: "string \<Rightarrow> string \<Rightarrow> string" where "ix_name tab col = ''ix_'' @ tab @ ''_'' @ col"
definition uq_name :: "string \<Rightarrow> string \<Rightarrow> string" where "uq_name tab col = ''uq_'' @ tab @ ''_'' @ col"
definition ck_name :: "string \<Rightarrow> string \<Rightarrow> string" where "ck_name tab con = ''ck_'' @ tab @ ''_'' @ con"
definition pk_name :: "string \<Rightarrow> string" where "pk_name tab = ''pk_'' @ tab"

text \<open>A mapped attribute: its column with the markers \<open>index\<close> and \<open>unique\<close>.\<close>

record mapped =
  mp_column :: column
  mp_index :: bool
  mp_unique :: bool

definition plain :: "column \<Rightarrow> mapped" where
  "plain c = \<lparr>mp_column = c, mp_index = False, mp_unique = False\<rparr>"

definition indexed :: "column \<Rightarrow> mapped" where
  "indexed c = (plain c)\<lparr>mp_index := True\<rparr>"

record model =
  mo_table :: string
  mo_checks :: "(string \<times> string) list"
  mo_key :: string
  mo_attributes :: "mapped list"

definition items_table_model :: model where
  "items_table_model =
     \<lparr>mo_table = ''items'', mo_checks = [(''quality_range'', ''quality BETWEEN 0 AND 4'')], mo_key = ''id'',
      mo_attributes =
        [plain (identity_column ''id''),
         (plain (sa_column ''game_id'' SqlInteger False))\<lparr>mp_unique := True\<rparr>,
         indexed (sa_column ''name'' SqlText False), plain (sa_column ''description'' SqlText False),
         indexed (sa_column ''quality'' SqlInteger True), indexed (sa_column ''item_type'' SqlText True),
         plain (sa_column ''recharge_time'' SqlText True), plain (sa_column ''image_url'' SqlText False),
         plain (sa_column ''introduced_in_version'' SqlText True),
         plain (now_column ''created_at''), plain (now_column ''updated_at'')]\<rparr>"

definition metadata_table_model :: model where
  "metadata_table_model =
     \<lparr>mo_table = ''dataset_metadata'',
      mo_checks =
        [(''singleton_key'', ''id = 1''),
         (''dataset_version_nonempty'', (nonblank ''dataset_version'')),
         (''game_version_nonempty'', (''game_version IS NULL OR '' @ nonblank ''game_version''))],
      mo_key = ''id'',
      mo_attributes =
        [plain (sa_column ''id'' SqlInteger False), plain (sa_column ''dataset_version'' SqlText False),
         plain (sa_column ''game_version'' SqlText True), plain (sa_column ''last_sync'' SqlTimestampTz False)]\<rparr>"

definition model_table :: "model \<Rightarrow> table" where
  "model_table m =
     \<lparr>tab_columns = map mp_column (mo_attributes m),
      tab_constraints =
        set (map (\<lambda>c. Check (ck_name (mo_table m) (fst c)) (snd c)) (mo_checks m)) \<union>
        {PrimaryKey (pk_name (mo_table m)) [mo_key m]} \<union>
        set (map (\<lambda>a. Unique (uq_name (mo_table m) (col_name (mp_column a))) [col_name (mp_column a)])
               (filter mp_unique (mo_attributes m)))\<rparr>"

definition model_indexes :: "model \<Rightarrow> (string \<times> index) list" where
  "model_indexes m =
     map (\<lambda>a. (ix_name (mo_table m) (col_name (mp_column a)),
               \<lparr>ix_table = mo_table m, ix_columns = [col_name (mp_column a)], ix_unique = False\<rparr>))
       (filter mp_index (mo_attributes m))"

definition target_metadata :: schema where
  "target_metadata =
     \<lparr>sch_tables = map_of (map (\<lambda>m. (mo_table m, model_table m)) [items_table_model, metadata_table_model]),
      sch_indexes = map_of (concat (map model_indexes [items_table_model, metadata_table_model]))\<rparr>"

section \<open>The migrations build the models' schema\<close>

lemma chain: "revision_chain (length revisions) revisions None =
    [baseline_revision, items_revision, metadata_revision]"
  by (simp add: revisions_def baseline_revision_def items_revision_def metadata_revision_def)

lemma upgrade_head_run:
  "upgrade_head = run_operations (create_items_upgrade @ create_metadata_upgrade)"
  by (simp add: upgrade_head_def upgrade_operations_def chain) (simp add: baseline_revision_def items_revision_def metadata_revision_def)

lemma downgrade_base_run:
  "downgrade_base = run_operations (create_metadata_downgrade @ create_items_downgrade)"
  by (simp add: downgrade_base_def chain) (simp add: baseline_revision_def items_revision_def metadata_revision_def)

lemmas model_defs = items_table_model_def metadata_table_model_def model_table_def model_indexes_def plain_def indexed_def
  sa_column_def identity_column_def now_column_def ix_name_def uq_name_def ck_name_def pk_name_def

lemmas operation_defs = create_table_def create_index_def drop_table_def drop_index_def

lemma upgrade_empty: "upgrade_head empty_schema = Some target_metadata"
proof -
  let ?items = "model_table items_table_model" and ?meta = "model_table metadata_table_model"
  let ?ix = "\<lambda>c. \<lparr>ix_table = ''items'', ix_columns = [c], ix_unique = False\<rparr>"
  have run: "upgrade_head empty_schema =
      Some \<lparr>sch_tables = [''items'' \<mapsto> ?items, ''dataset_metadata'' \<mapsto> ?meta],
            sch_indexes = [''ix_items_item_type'' \<mapsto> ?ix ''item_type'', ''ix_items_name'' \<mapsto> ?ix ''name'',
              ''ix_items_quality'' \<mapsto> ?ix ''quality'']\<rparr>"
    by (simp add: upgrade_head_run create_items_upgrade_def create_metadata_upgrade_def operation_defs
        empty_schema_def model_defs insert_commute)
  have "[''items'' \<mapsto> ?items, ''dataset_metadata'' \<mapsto> ?meta] = sch_tables target_metadata"
    by (simp add: target_metadata_def items_table_model_def metadata_table_model_def fun_eq_iff)
  moreover have "[''ix_items_item_type'' \<mapsto> ?ix ''item_type'', ''ix_items_name'' \<mapsto> ?ix ''name'',
      ''ix_items_quality'' \<mapsto> ?ix ''quality''] = sch_indexes target_metadata"
    by (simp add: target_metadata_def model_defs fun_eq_iff)
  ultimately show ?thesis by (simp add: run)
qed

lemma downgrade_target: "downgrade_base target_metadata = Some empty_schema"
proof -
  let ?ix = "\<lambda>c. \<lparr>ix_table = ''items'', ix_columns = [c], ix_unique = False\<rparr>"
  have tables: "sch_tables target_metadata =
      [''dataset_metadata'' \<mapsto> model_table metadata_table_model, ''items'' \<mapsto> model_table items_table_model]"
    by (simp add: target_metadata_def items_table_model_def metadata_table_model_def)
  have indexes: "sch_indexes target_metadata = (\<lambda>i. if i = ''ix_items_name'' then Some (?ix ''name'')
      else if i = ''ix_items_quality'' then Some (?ix ''quality'')
      else if i = ''ix_items_item_type'' then Some (?ix ''item_type'') else None)"
    by (simp add: target_metadata_def model_defs fun_eq_iff)
  have "drop_table ''dataset_metadata'' target_metadata =
      Some \<lparr>sch_tables = [''items'' \<mapsto> model_table items_table_model], sch_indexes = sch_indexes target_metadata\<rparr>"
    by (simp add: drop_table_def tables indexes fun_eq_iff)
  then show ?thesis
    by (simp add: downgrade_base_run create_items_downgrade_def create_metadata_downgrade_def
        drop_index_def indexes) (simp add: drop_table_def empty_schema_def fun_eq_iff)
qed

end
