(* ===== verification/MigrationRun.thy ===== *)
theory MigrationRun
  imports Migrations Connections
begin

text \<open>
  \<open>alembic/env.py\<close>: the online run, which opens an engine configured as the application's,
  runs the revisions in one transaction on a connection and disposes of the engine, the offline
  run, which only writes the script, and the choice between them; and
  \<open>scripts/validate_test_database.py\<close>, the guard of the database the integration tests
  may migrate and empty.
\<close>

section \<open>The online run\<close>

record migrator = server +
  mg_schema :: schema
  mg_script :: "operation list" \<comment> \<open>what the offline mode has written\<close>

text \<open>\<open>context.begin_transaction()\<close> around \<open>context.run_migrations()\<close>: PostgreSQL's DDL is
  transactional, so an error leaves the schema as it was.\<close>

definition run_migrations :: "operation \<Rightarrow> (migrator, exn, unit) io" where
  "run_migrations migrate m =
     (case migrate (mg_schema m) of
        None \<Rightarrow> (Inl SQLAlchemyError, m) | Some s \<Rightarrow> (Inr (), m\<lparr>mg_schema := s\<rparr>))"

text \<open>\<open>connect\<close> is the engine's connection to the server, which may fail.\<close>

definition run_migrations_online ::
  "(pystr \<Rightarrow> connect_args \<Rightarrow> exn + 'engine) \<Rightarrow> ('engine \<Rightarrow> exn + unit) \<Rightarrow> exn option \<Rightarrow> unicode_db \<Rightarrow>
   app_settings \<Rightarrow> operation \<Rightarrow> (migrator, exn, unit) io" where
  "run_migrations_online make_engine connect dispose u settings migrate =
     bindM (liftM (database_connect_args u settings)) (\<lambda>connect_args.
     bindM (open_client DatabaseEngine (make_engine (ps_database_url settings) connect_args)) (\<lambda>engine.
     finallyM (bindM (liftM (connect engine)) (\<lambda>_. run_migrations migrate))
       (close_client DatabaseEngine dispose)))"

lemma frame_run_migrations [frame_intros]: "frame sv_clients (run_migrations migrate)"
  by (simp add: frame_def run_migrations_def split: option.split)

lemma migrations_online_closes:
  "all_closed (sv_clients m)
     (sv_clients (final (run_migrations_online make_engine connect dispose u settings migrate) m))"
  unfolding run_migrations_online_def
  by (intro all_closed_bindM open_finally_closes frame_intros)

lemma bindM_liftM: "bindM (liftM r) f = (case r of Inl e \<Rightarrow> raise e | Inr a \<Rightarrow> f a)"
  by (simp add: bindM_def fun_eq_iff split: sum.split)

text \<open>What a run is, once its engine is open: a transaction, and then the engine is disposed of.\<close>

definition migration_connection :: "exn + unit \<Rightarrow> operation \<Rightarrow> (migrator, exn, unit) io" where
  "migration_connection reached migrate = bindM (liftM reached) (\<lambda>_. run_migrations migrate)"

lemma migration_connection_cases:
  assumes "migration_connection reached migrate m = (r, m')"
  shows "mg_schema m' \<in> {mg_schema m} \<union> set_option (migrate (mg_schema m)) \<and>
    (r = Inr () \<longrightarrow> migrate (mg_schema m) = Some (mg_schema m'))"
  using assms
  by (auto simp: migration_connection_def bindM_liftM run_migrations_def split: sum.splits option.splits)

text \<open>A run leaves the schema as it was or migrated as a whole, and one that returns has migrated.\<close>

lemma migrations_online_atomic:
  assumes "run_migrations_online make_engine connect dispose u settings migrate m = (r, m')"
  shows "mg_schema m' \<in> {mg_schema m} \<union> set_option (migrate (mg_schema m)) \<and>
    (r = Inr () \<longrightarrow> migrate (mg_schema m) = Some (mg_schema m'))"
proof (cases "database_connect_args u settings")
  case (Inr a)
  show ?thesis
  proof (cases "make_engine (ps_database_url settings) a")
    case engine: (Inr engine)
    let ?m = "m\<lparr>sv_clients := (sv_clients m)\<lparr>cl_opened := cl_opened (sv_clients m) @ [DatabaseEngine]\<rparr>\<rparr>"
    obtain r1 m1 where conn: "migration_connection (connect engine) migrate ?m = (r1, m1)" by fastforce
    have run: "finallyM (migration_connection (connect engine) migrate) (close_client DatabaseEngine dispose) ?m = (r, m')"
      using assms Inr engine
      by (simp add: run_migrations_online_def migration_connection_def bindM_liftM open_push_bind)
    have "mg_schema m' = mg_schema m1"
      using run conn final_finallyM [of "migration_connection (connect engine) migrate" "close_client DatabaseEngine dispose" ?m]
      by (simp add: close_client_final)
    moreover have "r = Inr () \<longrightarrow> r1 = Inr ()"
      using run conn by (auto dest: finallyM_InrD)
    ultimately show ?thesis using migration_connection_cases [OF conn] by auto
  qed (use assms Inr in \<open>auto simp: run_migrations_online_def bindM_liftM open_push_bind\<close>)
qed (use assms in \<open>auto simp: run_migrations_online_def bindM_liftM\<close>)

section \<open>The offline run, and the choice\<close>

text \<open>Offline there is neither an engine nor a connection: Alembic renders the operations with their
  literals into the script, between \<open>BEGIN\<close> and \<open>COMMIT\<close>.\<close>

definition run_migrations_offline :: "operation list \<Rightarrow> (migrator, exn, unit) io" where
  "run_migrations_offline ops = modifyM (\<lambda>m. m\<lparr>mg_script := mg_script m @ ops\<rparr>)"

text \<open>The module's own statements: \<open>Settings()\<close>, then one of the two runs. \<open>ops\<close> are the operations of
  the revisions that the command line asks for.\<close>

definition env_main ::
  "(issue \<Rightarrow> pystr) \<Rightarrow> settings_source \<Rightarrow> (pystr \<Rightarrow> connect_args \<Rightarrow> exn + 'engine) \<Rightarrow> ('engine \<Rightarrow> exn + unit) \<Rightarrow>
   exn option \<Rightarrow> bool \<Rightarrow> operation list \<Rightarrow> (migrator, exn, unit) io" where
  "env_main message src make_engine connect dispose offline ops =
     bindM (liftM (settings_result message (make_settings src))) (\<lambda>settings.
     if offline then run_migrations_offline ops
     else run_migrations_online make_engine connect dispose (ss_unicode src) settings (run_operations ops))"

lemma env_main_cases:
  assumes "env_main message src make_engine connect dispose offline ops m = (r, m')"
  shows "all_closed (sv_clients m) (sv_clients m') \<and>
    (offline \<longrightarrow> mg_schema m' = mg_schema m \<and> (r = Inr () \<longrightarrow> mg_script m' = mg_script m @ ops)) \<and>
    mg_schema m' \<in> {mg_schema m} \<union> set_option (run_operations ops (mg_schema m)) \<and>
    (\<not> offline \<longrightarrow> r = Inr () \<longrightarrow> run_operations ops (mg_schema m) = Some (mg_schema m'))"
proof (cases "settings_result message (make_settings src)")
  case (Inl e)
  then show ?thesis using assms by (auto simp: env_main_def bindM_liftM)
next
  case (Inr settings)
  show ?thesis
  proof (cases offline)
    case True
    then show ?thesis using assms Inr by (auto simp: env_main_def bindM_liftM run_migrations_offline_def modifyM_def)
  next
    case False
    let ?run = "run_migrations_online make_engine connect dispose (ss_unicode src) settings (run_operations ops)"
    have run: "?run m = (r, m')" using assms Inr False by (simp add: env_main_def bindM_liftM)
    have "all_closed (sv_clients m) (sv_clients m')"
      using migrations_online_closes [of m make_engine connect dispose "ss_unicode src" settings "run_operations ops"] run
      by simp
    then show ?thesis using False migrations_online_atomic [OF run] by simp
  qed
qed

section \<open>The guard of the test database\<close>

definition ALLOWED_HOSTS :: "pystr set" where
  "ALLOWED_HOSTS = {lit ''localhost'', lit ''127.0.0.1'', lit ''::1''}"

definition VALIDATION_ERROR :: exn where
  "VALIDATION_ERROR = ValueError
     (lit ''TEST_DATABASE_URL must use a local PostgreSQL database on port 5432 ending in _test without query parameters'')"

definition validate_test_database_url :: "unicode_db \<Rightarrow> pystr option \<Rightarrow> exn + pystr option" where
  "validate_test_database_url u url =
     (case url of
        None \<Rightarrow> Inr None
      | Some text_url \<Rightarrow>
          (case urlsplit u text_url of
             Inl _ \<Rightarrow> Inl VALIDATION_ERROR
           | Inr parsed \<Rightarrow>
               (case url_port parsed of
                  Inl _ \<Rightarrow> Inl VALIDATION_ERROR
                | Inr port \<Rightarrow>
                    (let database_name = removeprefix (sp_path parsed) (lit ''/'') in
                     if sp_scheme parsed \<noteq> lit ''postgresql+asyncpg'' \<or>
                        url_hostname u parsed \<notin> Some ` ALLOWED_HOSTS \<or>
                        port \<notin> {None, Some 5432} \<or>
                        \<not> endswith database_name (lit ''_test'') \<or>
                        sp_query parsed \<noteq> [] \<or> sp_fragment parsed \<noteq> []
                     then Inl VALIDATION_ERROR else Inr url))))"

text \<open>\<open>main\<close>: the message and exit code 1 of the \<open>SystemExit\<close>.\<close>

definition test_database_main :: "unicode_db \<Rightarrow> pystr option \<Rightarrow> nat \<times> pystr" where
  "test_database_main u url =
     (case validate_test_database_url u url of
        Inl (ValueError m) \<Rightarrow> (1, m) | _ \<Rightarrow> (0, []))"

text \<open>An accepted database is local: the application would not even ask for TLS.\<close>

lemma test_database_local:
  assumes "validate_test_database_url u (Some url) = Inr r" "ps_database_url settings = url"
  shows "database_requires_tls u settings = Inr False"
  using assms
  by (auto simp: validate_test_database_url_def database_requires_tls_def ALLOWED_HOSTS_def Let_def
      split: sum.splits if_splits option.split)

end
