(* ===== verification/PlatformTheorems.thy ===== *)
theory PlatformTheorems
  imports ConfigSamples Application Health MigrationRun ItemsTheorems
begin

text \<open>
  The properties of the HTTP application around the items service (authentication, the
  routes, the middleware, the health checks, the lifespan), of the settings and of the
  migrations.
\<close>

section \<open>Authentication\<close>

text \<open>C7. Every route of the items API is behind the key: when the authorization of a request
  fails, whatever the reason, the answer is the one of that failure (401, 403 or 503) and
  the state is what the verifier left, so neither the repository nor the cache was
  asked.\<close>

theorem authorization_required:
  assumes "fw_documentation fw rq = None" "route_of (rq_path rq) = Some (ItemsRoute r)" "rq_method rq = lit ''GET''"
    "nullable verifier_ok (at_api_key_verifier st)" "authorize st rq w = (Inl e, w')"
  shows "application fw st rq w = (handle_exception e, w') \<and>
    (\<exists>resp. handle_exception e = Inr resp \<and> status_code resp \<in> {401, 403, 503})"
proof -
  have "denial e" using authorize_outcome [OF assms(4,5)] by simp
  then have "\<exists>resp. handle_exception e = Inr resp \<and> status_code resp \<in> {401, 403, 503}"
    by (auto simp: denial_def API_KEY_REQUIRED_def INVALID_API_KEY_def INSUFFICIENT_PERMISSIONS_def
        SERVICE_UNAVAILABLE_def handle_exception_def http_exception_handler_def error_response_def json_response_def
        split: option.splits)
  then show ?thesis using application_denied [OF assms(1-3,5)] by simp
qed

text \<open>Two calls of a second, Redis first.\<close>

definition sample_schedule :: readiness_schedule where
  "sample_schedule = \<lparr>rs_database_time = 1, rs_redis_time = 1, rs_redis_first = True, rs_reached = False\<rparr>"

definition sample_framework :: framework where
  "sample_framework =
     \<lparr>fw_list_params = (\<lambda>_. Some sample_params), fw_filter_params = (\<lambda>_. None), fw_int = (\<lambda>_. Some 5),
      fw_pydantic = plain_pydantic, fw_documentation = (\<lambda>_. None), fw_url = (\<lambda>_ path. path),
      fw_readiness = (\<lambda>_. sample_schedule)\<rparr>"

definition sample_request :: request where
  "sample_request =
     \<lparr>rq_method = lit ''GET'', rq_path = lit ''/v1/items/5'', rq_api_key = Some (lit ''ak_1''),
      rq_request_id = None, rq_query = []\<rparr>"

definition sample_app_settings :: app_settings where
  "sample_app_settings =
     \<lparr>ps_environment = Development, ps_database_url = lit ''postgresql+asyncpg://u@localhost/db'',
      ps_dependency_timeout_seconds = 2, as_app_name = lit ''The Binding of Isaac API'', as_app_version = lit ''0.1.0'',
      as_log_level = lit ''INFO'', as_redis_url = lit ''redis://localhost'', as_redis_max_connections = 20,
      as_cache_item_ttl_seconds = 86400, as_cache_list_ttl_seconds = 900, as_cache_meta_ttl_seconds = 86400,
      as_clerk_secret_key = None\<rparr>"

text \<open>A key that Clerk accepts, with and without the scope.\<close>

definition sample_clerk :: "pystr list \<Rightarrow> clerk_client" where
  "sample_clerk scopes =
     \<lparr>cc_verify_api_key = (\<lambda>_ _. ret
        \<lparr>cr_expired = Some (PyBool False), cr_revoked = None, cr_subject = Some (PyStr (lit ''user'')),
         cr_scopes = Some (PyList (map PyStr scopes))\<rparr>)\<rparr>"

definition sample_state :: "pystr list \<Rightarrow> app_state" where
  "sample_state scopes =
     \<lparr>at_settings = Some sample_app_settings, at_api_key_verifier = Some (clerk_verify (sample_clerk scopes) 2000), 
      at_database_engine = Some ascii_locale, at_session_factory = Some ascii_locale,
      at_redis = Some \<lparr>rh_ping = (\<lambda>_. True)\<rparr>, at_item_cache = Some sample_cache, at_version = lit ''0.1.0''\<rparr>"

lemma sample_route: "route_of (rq_path sample_request) = Some (ItemsRoute (ItemRoute (lit ''5'')))"
  by (simp add: sample_request_def route_of_def match_items_route_def lit_def removeprefix_def)

lemma sample_authorize:
  "authorize (sample_state scopes) sample_request w =
     (if ACCESS_SCOPE \<in> set scopes
      then Inr \<lparr>ap_user_id = lit ''user'', ap_scopes = set scopes\<rparr> else Inl INSUFFICIENT_PERMISSIONS, w)"
proof -
  have "List.map_filter (\<lambda>i. case i of PyStr s \<Rightarrow> Some s | _ \<Rightarrow> None) (map PyStr ts) = ts" for ts
    by (induction ts) (simp_all add: List.map_filter_simps)
  then show ?thesis
    by (simp add: authorize_def sample_state_def get_api_key_verifier_def get_principal_def sample_request_def
        clerk_verify_def sample_clerk_def principal_of_def attribute_def string_scopes_def require_scopes_def
        bindM_def catchM_def) (simp add: lit_def)
qed

theorem authorization_required_witness:
  "application sample_framework (sample_state []) sample_request sample_world =
     (handle_exception INSUFFICIENT_PERMISSIONS, sample_world)"
  using authorization_required [OF _ sample_route, of sample_framework "sample_state []" sample_world
      INSUFFICIENT_PERMISSIONS sample_world] sample_authorize [of "[]" sample_world]
  by (simp add: sample_framework_def sample_request_def sample_state_def)

text \<open>C22. With Clerk's verifier, a request gets through only with a key that Clerk accepted for
  it: neither expired nor revoked, of a named user, and with the scope \<open>api:access\<close> among
  its scopes.\<close>

theorem authorized_principal:
  assumes "at_api_key_verifier st = Some (clerk_verify client timeout_ms)" "authorize st rq w = (Inr who, w')"
  shows "\<exists>secret r. rq_api_key rq = Some secret \<and> secret \<noteq> [] \<and>
    cc_verify_api_key client secret timeout_ms w = (Inr r, w') \<and>
    \<not> truthy (attribute (cr_expired r) (PyBool False)) \<and> \<not> truthy (attribute (cr_revoked r) (PyBool False)) \<and>
    attribute (cr_subject r) PyNone = PyStr (ap_user_id who) \<and> ap_user_id who \<noteq> [] \<and>
    ACCESS_SCOPE \<in> set (string_scopes (attribute (cr_scopes r) PyNone))"
proof -
  have "nullable verifier_ok (at_api_key_verifier st)" by (simp add: assms(1))
  from authorize_outcome [OF this assms(2)] obtain secret where key: "rq_api_key rq = Some secret" "secret \<noteq> []"
    "clerk_verify client timeout_ms secret w = (Inr who, w')" "ACCESS_SCOPE \<in> ap_scopes who"
    using assms(1) by auto
  then obtain r where r: "cc_verify_api_key client secret timeout_ms w = (Inr r, w')" "principal_of r = Inr who"
    by (auto simp: clerk_verify_def bindM_def catchM_def split: prod.splits sum.splits)
  then show ?thesis
    using key by (auto simp: principal_of_def split: if_splits pyobj.splits)
qed

theorem authorized_principal_witness:
  "\<exists>r. cc_verify_api_key (sample_clerk [ACCESS_SCOPE]) (lit ''ak_1'') 2000 sample_world = (Inr r, sample_world) \<and>
     ACCESS_SCOPE \<in> set (string_scopes (attribute (cr_scopes r) PyNone))"
  using authorized_principal [of "sample_state [ACCESS_SCOPE]" "sample_clerk [ACCESS_SCOPE]" 2000 sample_request
      sample_world] sample_authorize [of "[ACCESS_SCOPE]" sample_world]
  by (auto simp: sample_state_def sample_request_def)

section \<open>Requests\<close>

text \<open>C19. Whatever the application does, an HTTP request gets exactly one response, with exactly
  one valid \<open>X-Request-ID\<close>; nothing is raised out of the middleware, and the last record
  of the log is the completion with that identifier and that status.\<close>

theorem request_answered:
  "case serve_http fw traceback elapsed st rq w of (out, w') \<Rightarrow>
     \<exists>rid status hs body duration. request_id_pattern rid \<and> header_values (lit ''X-Request-ID'') hs = [rid] \<and>
       ao_sent out = [ResponseStart status hs, ResponseBody body] \<and> ao_failure out = None \<and>
       last (logs w') = completed_entry rid (rq_method rq) (rq_path rq) status duration"
  using serve_http_answers [of fw traceback elapsed st rq w] by (fastforce split: prod.split)

text \<open>C37. The log of a request shows nothing of an API key in its path: two paths that differ only in
  the secret of a key, at any place and with anything before and after it, have the same record.
  No key is left in a logged path; up to its first key, and without one as a whole, a path is
  logged as it is.\<close>

theorem redaction_complete:
  assumes "k \<noteq> []" "list_all secret_char k" "k' \<noteq> []" "list_all secret_char k'"
  shows "completed_entry rid m (u @ lit ''ak_'' @ k @ v) st d = completed_entry rid m (u @ lit ''ak_'' @ k' @ v) st d \<and>
    (\<not> holds_key (u @ lit ''ak_'') \<longrightarrow>
       redact (u @ lit ''ak_'' @ k @ v) = u @ lit ''ak_[REDACTED]'' @ redact (dropWhile secret_char v)) \<and>
    \<not> holds_key (redact path) \<and> (holds_key path \<or> redact path = path)"
proof -
  have "\<not> contains_key path \<Longrightarrow> redact path = path" by (induction path) auto
  then show ?thesis
    using redact_hides [of k k' u v] redact_first_key [of k u v] redact_no_key assms
    by (auto simp: completed_entry_def holds_key_iff secret_char_key)
qed

theorem redaction_complete_witness:
  "completed_entry [] [] (lit ''/v1/ak_x1-Y/a'') 200 JNull = completed_entry [] [] (lit ''/v1/ak_0_/a'') 200 JNull \<and>
   redact (lit ''/v1/ak_x1-Y/a'') = lit ''/v1/ak_[REDACTED]/a''"
proof -
  have key: "list_all secret_char (lit ''x1-Y'')" "list_all secret_char (lit ''0_'')"
    by (simp_all add: lit_def secret_char_def)
  have "\<not> holds_key (lit ''/v1/'' @ lit ''ak_'')" "dropWhile secret_char (lit ''/a'') = lit ''/a''"
    "redact (lit ''/a'') = lit ''/a''"
    by (simp_all add: holds_key_iff secret_char_key lit_def key_at_def key_char_def alpha_char_def digit_char_def)
  then show ?thesis
    using redaction_complete [of "lit ''x1-Y''" "lit ''0_''" "[]" "[]" "lit ''/v1/''" "lit ''/a''" 200 JNull "[]"] key
    by (simp add: lit_def)
qed

section \<open>Health\<close>

text \<open>C25. The readiness endpoint. A service is down when its check fails with a timeout, an
  \<open>OSError\<close> or its library's error (\<open>SQLAlchemyError\<close>, \<open>RedisError\<close>), and Redis also when \<open>ping\<close>
  returns false. If no check fails otherwise, the answer is 200 when both services are up and 503
  when not, and it says which is up. Any other exception of a check, a bug, is raised and not
  reported as an outage; when both checks have one, it is that of the check that ends first.\<close>

theorem readiness_reports:
  assumes "at_settings st = Some settings" "at_database_engine st = Some engine" "at_redis st = Some client"
  shows "let checks = \<lparr>rk_database_engine = engine, rk_redis = client, rk_timeout = ps_dependency_timeout_seconds settings\<rparr>
    in result (readiness st sch) w =
     (case (verdict database_down (database_answer checks (rs_database_time sch) w),
            verdict redis_down (redis_answer checks (rs_redis_time sch) w)) of
        (Inr d, Inr r) \<Rightarrow>
          Inr (if d \<and> r then json_response 200 (readiness_response \<lparr>st_database = d, st_redis = r\<rparr>)
               else json_response 503 (readiness_unavailable_response
                 \<lparr>ed_code = lit ''SERVICE_UNAVAILABLE'', ed_message = lit ''A required service is unavailable''\<rparr>
                 \<lparr>st_database = d, st_redis = r\<rparr>))
      | (Inl e, Inr _) \<Rightarrow> Inl e
      | (Inr _, Inl e) \<Rightarrow> Inl e
      | (Inl e, Inl e') \<Rightarrow> Inl (if redis_ends_first checks sch then e' else e))"
proof -
  let ?checks = "\<lparr>rk_database_engine = engine, rk_redis = client, rk_timeout = ps_dependency_timeout_seconds settings\<rparr>"
  have checks: "get_readiness_checks st = Inr ?checks" using assms by (simp add: get_readiness_checks_def)
  obtain r w' where run: "readiness_run ?checks sch w = (r, w')" by fastforce
  then have "r = result (readiness_run ?checks sch) w" by simp
  note r = this [unfolded readiness_run_result]
  show ?thesis
    using run r checks
    by (cases r) (auto simp: readiness_def bindM_def is_ready_def Let_def split: sum.splits)
qed

text \<open>Redis refuses the connection; then its check has a bug.\<close>

theorem readiness_reports_witness:
  "(\<exists>resp. result (readiness (sample_state []) sample_schedule)
       (sample_world\<lparr>redis_events := [\<lparr>re_others = id, re_fault = Some OSError, re_executed = False\<rparr>]\<rparr>) =
     Inr resp \<and> status_code resp = 503) \<and>
   result (readiness (sample_state []) sample_schedule)
       (sample_world\<lparr>redis_events := [\<lparr>re_others = id, re_fault = Some AttributeError, re_executed = False\<rparr>]\<rparr>) =
     Inl AttributeError"
proof -
  note report = readiness_reports [of "sample_state []" sample_app_settings ascii_locale "\<lparr>rh_ping = (\<lambda>_. True)\<rparr>" sample_schedule]
  show ?thesis
    using report [of "sample_world\<lparr>redis_events := [\<lparr>re_others = id, re_fault = Some OSError, re_executed = False\<rparr>]\<rparr>"]
      report [of "sample_world\<lparr>redis_events := [\<lparr>re_others = id, re_fault = Some AttributeError, re_executed = False\<rparr>]\<rparr>"]
    by (simp add: sample_state_def sample_schedule_def sample_app_settings_def database_answer_def redis_answer_def
        verdict_def redis_down_def is_OSError_def is_RedisError_def json_response_def)
qed

section \<open>Metadata\<close>

text \<open>As for an item, for the metadata: the API version asked for, the versions of the dataset and the
  number of items are those of the database at one moment.\<close>

lemma meta_request_coherent:
  assumes "redis_rely (coherent rc loc U D n) w" "quiet_database D w" "factory_ok rc" "list_all scalar a"
    "redis_faults CACHE_FAILURES w" "db_faults database_failure w"
  shows "case result (svc_get_meta (item_service_of loc rc) a) w of
      Inr v \<Rightarrow> v = meta_answer a D
    | Inl e \<Rightarrow> e = SERVICE_UNAVAILABLE"
proof (cases "result (svc_get_meta (item_service_of loc rc) a) w")
  case (Inr v)
  then show ?thesis
    using service_coherent_meta [OF assms(1,2,4) result_run [where
          m = "svc_get_meta (item_service_of loc rc) a", OF Inr]] by simp
next
  case (Inl e)
  have "pydantic_ok (rc_pydantic rc)" using redis_rely_redis [OF assms(1)] by (simp add: coherent_def)
  then have "meta_encodable rc (meta_answer a D)"
    using meta_answer_ok [OF quiet_database_ok [OF assms(2)] assms(4)] by (simp add: meta_encodable_def)
  then have enc: "meta_encodable rc v"
    if "result (load_meta (sqlalchemy_item_repository loc) a) w = Inr v" for v
    using quiet_loads(3) [OF assms(2) result_run [where
          m = "load_meta (sqlalchemy_item_repository loc) a", OF that]] by simp
  have "result (load_meta (sqlalchemy_item_repository loc) a) w = Inl e"
    using meta_entries.aside_outcome [where resource = "lit ''meta''" and k = a and
        load = "load_meta (sqlalchemy_item_repository loc) a", OF assms(3,5) load_db_only(3)
        load_frame(6) enc] Inl
    by (auto simp: service_is_cache_aside)
  then show ?thesis
    using safeD [OF safe_loads(2) quiet_trusted [OF assms(2,6)] result_run [where
          m = "load_meta (sqlalchemy_item_repository loc) a"]] Inl by simp
qed

section \<open>Settings\<close>

lemma int_of_digits_leading: "int_of_digits (dropWhile (\<lambda>c. c = 48) v) = int_of_digits v"
proof (induction v)
  case (Cons c v)
  then show ?case by (simp add: int_of_digits_def)
qed simp

lemma four_digits:
  assumes "list_all digit_char s" "length s = 4" "hd s \<noteq> 48"
  shows "int_of_digits s \<le> 1000 \<longleftrightarrow> s \<le> [49, 48, 48, 48]"
proof -
  obtain a b c d where s: "s = [a, b, c, d]"
    using assms(2) by (auto simp: length_Suc_conv numeral_eq_Suc)
  then have ge: "49 \<le> a" "48 \<le> b" "48 \<le> c" "48 \<le> d" using assms by (auto simp: digit_char_def)
  have "int_of_digits s = 1000 * (a - 48) + 100 * (b - 48) + 10 * (c - 48) + (d - 48)"
    by (simp add: s int_of_digits_def)
  moreover have "1000 * x + 100 * y + 10 * z + t \<le> (1000 :: nat) \<longleftrightarrow> x = 1 \<and> y = 0 \<and> z = 0 \<and> t = 0"
    if "1 \<le> x" for x y z t using that by auto
  ultimately have "int_of_digits s \<le> 1000 \<longleftrightarrow> a - 48 = 1 \<and> b - 48 = 0 \<and> c - 48 = 0 \<and> d - 48 = 0"
    using ge(1) by simp
  then have "int_of_digits s \<le> 1000 \<longleftrightarrow> a = 49 \<and> b = 48 \<and> c = 48 \<and> d = 48"
    using ge by linarith
  moreover have "s \<le> [49, 48, 48, 48] \<longleftrightarrow> a = 49 \<and> b = 48 \<and> c = 48 \<and> d = 48"
    using ge by (auto simp: s)
  ultimately show ?thesis by simp
qed

text \<open>C23. The check of the query parameter \<open>prepared_statement_cache_size\<close>, which compares texts after
  dropping the leading zeros, is the numeric one: it accepts exactly a single value that is an
  ASCII number of at most four digits and at most 1000.\<close>

theorem prepared_cache_size_bound:
  "prepared_cache_size_valid sizes \<longleftrightarrow>
     (\<exists>v. sizes = [v] \<and> isdigit v \<and> isascii v \<and> length v \<le> 4 \<and> int_of_digits v \<le> MAX_PREPARED_STATEMENT_CACHE_SIZE)"
proof -
  have max: "str_nat MAX_PREPARED_STATEMENT_CACHE_SIZE = [49, 48, 48, 48]"
    by (simp add: MAX_PREPARED_STATEMENT_CACHE_SIZE_def str_nat.simps)
  have "prepared_cache_size_valid [v] \<longleftrightarrow> isdigit v \<and> isascii v \<and> length v \<le> 4 \<and> int_of_digits v \<le> 1000" for v
  proof (cases "isdigit v \<and> isascii v \<and> length v \<le> 4")
    case True
    let ?s = "dropWhile (\<lambda>c. c = 48) v"
    have digits: "list_all digit_char ?s" "length ?s \<le> 4"
      using True length_dropWhile_le [of "\<lambda>c. c = 48" v] by (auto simp: isdigit_def list_all_iff dest: set_dropWhileD)
    consider "length ?s \<le> 3" | "length ?s = 4" using digits(2) by linarith
    then show ?thesis
    proof cases
      case 1
      have "int_of_digits ?s < 10 ^ length ?s" by (rule int_of_digits_bound [OF digits(1)])
      also have "\<dots> \<le> 10 ^ 3" using 1 by (intro power_increasing) simp_all
      finally show ?thesis
        using True 1 by (auto simp: prepared_cache_size_valid_def max Let_def lit_def int_of_digits_leading)
    next
      case 2
      then have "?s \<noteq> []" by (metis list.size(3) zero_neq_numeral)
      then have "hd ?s \<noteq> 48" using hd_dropWhile [of "\<lambda>c. c = 48" v] by simp
      from four_digits [OF digits(1) 2 this] show ?thesis
        using True 2 \<open>?s \<noteq> []\<close> by (auto simp: prepared_cache_size_valid_def max Let_def int_of_digits_leading)
    qed
  next
    case False
    then show ?thesis by (auto simp: prepared_cache_size_valid_def max Let_def)
  qed
  moreover have "\<not> prepared_cache_size_valid sizes" if "\<nexists>v. sizes = [v]"
    using that by (cases sizes rule: remdups_adj.cases) (auto simp: prepared_cache_size_valid_def)
  ultimately show ?thesis
    unfolding MAX_PREPARED_STATEMENT_CACHE_SIZE_def by (cases "\<exists>v. sizes = [v]") auto
qed

text \<open>C15. Settings that \<open>IngestionSettings\<close> accepts have an explicit target: a host, or a socket
  in one of the two approved directories. A host that is not the local one needs
  credentials and is spoken to over TLS with certificate and host name verified; in
  production a Redis that is not on the loopback needs \<open>rediss\<close>, with the certificate
  required, and a password; and none of the driver's environment variables is set.\<close>

theorem ingestion_settings_safe:
  assumes "make_ingestion_settings src = Valid s"
  shows "\<exists>d r. urlsplit (ss_unicode src) (ps_database_url s) = Inr d \<and> urlsplit (ss_unicode src) (ig_redis_url s) = Inr r \<and>
    (case url_hostname (ss_unicode src) d of
       None \<Rightarrow> \<exists>socket\<in>INGESTION_UNIX_SOCKET_PATHS. values_of (lit ''host'') (parse_qs (sp_query d)) = [socket]
     | Some h \<Rightarrow> h \<in> {lit ''localhost'', lit ''127.0.0.1'', lit ''::1''} \<or>
         url_username d \<noteq> None \<and> url_password d \<noteq> None \<and>
         map_sum id ca_ssl (database_connect_args (ss_unicode src) s) = Inr (Some client_tls_context)) \<and>
    (ps_environment s \<noteq> Production \<or> is_loopback_host (url_hostname (ss_unicode src) r) \<or>
      sp_scheme r = lit ''rediss'' \<and> url_password r \<noteq> None \<and>
      map_sum id ro_ssl_cert_required (redis_client_options (ss_unicode src) (ingestion_redis_settings s)) = Inr True) \<and>
    set DATABASE_ENVIRONMENT_OVERRIDES \<inter> fst ` set (ss_environ src) = {}"
proof -
  note ok = make_ingestion_settings_Valid [OF assms]
  obtain d port where d: "urlsplit (ss_unicode src) (ps_database_url s) = Inr d"
    by (rule database_url_split [OF ok(1)])
  obtain r port' where r: "urlsplit (ss_unicode src) (ig_redis_url s) = Inr r"
    by (rule redis_url_split [OF ok(2)])
  have "case url_hostname (ss_unicode src) d of
       None \<Rightarrow> \<exists>socket\<in>INGESTION_UNIX_SOCKET_PATHS. values_of (lit ''host'') (parse_qs (sp_query d)) = [socket]
     | Some h \<Rightarrow> h \<in> {lit ''localhost'', lit ''127.0.0.1'', lit ''::1''} \<or>
         url_username d \<noteq> None \<and> url_password d \<noteq> None \<and>
         map_sum id ca_ssl (database_connect_args (ss_unicode src) s) = Inr (Some client_tls_context)"
    using ok(4,6) d
    by (cases "url_hostname (ss_unicode src) d"; cases "values_of (lit ''host'') (parse_qs (sp_query d))")
       (auto simp: require_explicit_database_target_def require_remote_database_credentials_def
         database_requires_tls_def database_connect_args_def Let_def split: if_splits)
  moreover have "ps_environment s \<noteq> Production \<or> is_loopback_host (url_hostname (ss_unicode src) r) \<or>
      sp_scheme r = lit ''rediss'' \<and> url_password r \<noteq> None \<and>
      map_sum id ro_ssl_cert_required (redis_client_options (ss_unicode src) (ingestion_redis_settings s)) = Inr True"
    using ok(3) r
    by (auto simp: validate_production_redis_def redis_client_options_def ingestion_redis_settings_def Let_def
        split: if_splits)
  moreover have "set DATABASE_ENVIRONMENT_OVERRIDES \<inter> fst ` set (ss_environ src) = {}"
    using ok(5) by (auto simp: reject_database_driver_environment_def list_ex_iff split: if_splits)
  ultimately show ?thesis using d r by blast
qed

theorem ingestion_settings_safe_witness:
  "map_sum id ca_ssl (database_connect_args ascii_unicode remote_settings) = Inr (Some client_tls_context) \<and>
   map_sum id ro_ssl_cert_required (redis_client_options ascii_unicode (ingestion_redis_settings remote_settings)) = Inr True"
proof -
  have "ss_unicode remote_source = ascii_unicode" by (simp add: remote_source_def)
  moreover have "\<not> is_loopback_host (Some (lit ''r.io''))"
    by (simp add: is_loopback_host_def lit_def ip_address_def ipv4_int_def ipv6_int_def ipv6_parts_def
        parse_octet_def partition_at_def digit_char_def isdigit_def)
  moreover have "lit ''db.io'' \<notin> {lit ''localhost'', lit ''127.0.0.1'', lit ''::1''}" by (simp add: lit_def)
  ultimately show ?thesis
    using ingestion_settings_safe [OF remote_ingestion_settings]
    by (simp add: remote_settings_def remote_splits remote_parts)
qed

lemma configure_logging_total:
  assumes "make_settings src = Valid s"
  shows "\<exists>ls'. configure_logging (as_log_level s) ls = (Inr (), ls')"
proof -
  have "\<exists>n. map_of LEVEL_NUMBERS (as_log_level s) = Some n"
    using make_settings_log_level [OF assms] by (auto simp: LOG_LEVELS_def LEVEL_NUMBERS_def lit_def)
  then show ?thesis by (auto simp: configure_logging_def Let_def)
qed

text \<open>C33. Settings that \<open>Settings\<close> accepts are enough for everything the lifespan computes from them
  itself: the configuration of logging and the constructor of the cache raise nothing, the
  arguments for the database's engine and for the client of Redis can be computed, and Clerk's
  timeout is between zero and thirty seconds. What the libraries' constructors do with their
  arguments is not stated.\<close>

theorem settings_suffice:
  assumes "make_settings src = Valid s"
  shows "(\<exists>rc. item_cache_of env s = Inr rc) \<and> (\<exists>args. database_connect_args (ss_unicode src) s = Inr args) \<and>
    (\<exists>options. redis_client_options (ss_unicode src) (app_redis_settings s) = Inr options) \<and>
    0 \<le> verifier_timeout_ms s \<and> verifier_timeout_ms s \<le> 30000 \<and>
    (\<exists>ls'. configure_logging (as_log_level s) ls = (Inr (), ls'))"
proof -
  have redis: "redis_url_ok (ss_unicode src) (rs_redis_url (app_redis_settings s))"
    using make_settings_Valid(2) [OF assms] by (simp add: app_redis_settings_def)
  show ?thesis
    using configure_logging_total [OF assms] item_cache_of_settings [OF assms] verifier_timeout_bounds [OF assms]
      database_connect_args_total [OF make_settings_Valid(1) [OF assms]] redis_client_options_total [OF redis]
    by metis
qed

lemma sample_app_settings_valid: "make_settings sample_source = Valid sample_app_settings"
proof -
  have none: "setting sample_source ''app_name'' = None" "setting sample_source ''app_version'' = None"
    "setting sample_source ''log_level'' = None" "setting sample_source ''cache_item_ttl_seconds'' = None"
    "setting sample_source ''cache_list_ttl_seconds'' = None" "setting sample_source ''cache_meta_ttl_seconds'' = None"
    "setting sample_source ''clerk_secret_key'' = None"
    by (simp_all add: setting_def variables_def sample_source_def ascii_unicode_def)
      (simp_all add: lit_def ascii_lower_def)
  have "settings_fields sample_source = Valid sample_app_settings"
    by (simp add: settings_fields_def postgres_fields_def sample_url_fields environment_field_def literal_field_def
        timeout_field_def int_field_def string_field_def setting_sample none sample_app_settings_def
        postgres_settings.extend_def DEFAULT_REDIS_MAX_CONNECTIONS_def DEFAULT_CACHE_ITEM_TTL_SECONDS_def
        DEFAULT_CACHE_LIST_TTL_SECONDS_def DEFAULT_CACHE_META_TTL_SECONDS_def)
  moreover have "ps_environment sample_app_settings = Development"
    "ps_database_url sample_app_settings = lit ''postgresql+asyncpg://u@localhost/db''"
    by (simp_all add: sample_app_settings_def)
  ultimately show ?thesis
    by (simp add: make_settings_def require_production_database_tls_def require_production_redis_tls_def
        validate_production_redis_def checked_def sample_splits)
qed

theorem settings_suffice_witness:
  "\<forall>env. \<exists>rc. item_cache_of env sample_app_settings = Inr rc"
  using settings_suffice [OF sample_app_settings_valid] by blast

section \<open>The lifespan\<close>

text \<open>C30. However the application ends, and wherever its start fails, every client that a
  constructor returned is closed, in reverse order, even when closing one of them raises.\<close>

theorem lifespan_closes_clients:
  assumes "\<And>st. frame sv_clients (serve st)" "final (lifespan env settings serve) p = p'"
  shows "\<exists>rs. cl_opened (sv_clients p') = cl_opened (sv_clients p) @ rs \<and>
    cl_closed (sv_clients p') = cl_closed (sv_clients p) @ rev rs \<and>
    cl_callbacks (sv_clients p') = cl_callbacks (sv_clients p)"
  using lifespan_closes [where serve = serve and env = env and settings = settings and p = p, OF assms(1)] assms(2)
  by (auto simp: all_closed_def)

text \<open>The application fails while it runs, and so does the disposal of the engine.\<close>

definition sample_lifespan :: lifespan_environment where
  "sample_lifespan =
     \<lparr>lf_settings = sample_source, lf_message = (\<lambda>_. []), lf_make_engine = (\<lambda>_ _. Inr ascii_locale),
      lf_from_url = (\<lambda>_ _. Inr \<lparr>rh_ping = (\<lambda>_. True)\<rparr>), lf_make_clerk = (\<lambda>_ _. raise OSError),
      lf_pydantic = plain_pydantic, lf_sha256 = id, lf_recursion = 100,
      lf_dispose = Some OSError, lf_aclose = None, lf_clerk_exit = None\<rparr>"

definition sample_server :: server where
  "sample_server = \<lparr>sv_world = sample_world, sv_clients = no_clients, sv_loggers = (\<lambda>_. fresh_logger)\<rparr>"

lemma sample_lifespan_opens:
  "cl_opened (sv_clients (final (lifespan sample_lifespan (Some sample_app_settings)
     (\<lambda>_. raise AttributeError :: (server, exn, unit) io)) sample_server)) = [DatabaseEngine, RedisClient]"
proof -
  obtain rc where rc: "item_cache_of sample_lifespan sample_app_settings = Inr rc"
    using item_cache_of_settings [OF sample_app_settings_valid] by blast
  obtain args where args: "database_connect_args ascii_unicode sample_app_settings = Inr args"
    using database_connect_args_total [OF make_settings_Valid(1) [OF sample_app_settings_valid]] by (auto simp: sample_source_def)
  have "redis_url_ok ascii_unicode (rs_redis_url (app_redis_settings sample_app_settings))"
    using make_settings_Valid(2) [OF sample_app_settings_valid] by (simp add: app_redis_settings_def sample_source_def)
  then obtain options where options: "redis_client_options ascii_unicode (app_redis_settings sample_app_settings) = Inr options"
    by (rule redis_client_options_total)
  obtain ls' where ls': "configure_logging (as_log_level sample_app_settings) (\<lambda>_. fresh_logger) = (Inr (), ls')"
    using configure_logging_total [OF sample_app_settings_valid] by blast
  have u: "ss_unicode (lf_settings sample_lifespan) = ascii_unicode" by (simp add: sample_lifespan_def sample_source_def)
  have engine: "create_database (lf_make_engine sample_lifespan) ascii_unicode sample_app_settings = Inr ascii_locale"
    using args by (simp add: create_database_def sample_lifespan_def)
  have redis: "create_redis (lf_from_url sample_lifespan) ascii_unicode (app_redis_settings sample_app_settings) =
      Inr \<lparr>rh_ping = (\<lambda>_. True)\<rparr>"
    using options by (simp add: create_redis_def sample_lifespan_def)
  have clerk: "as_clerk_secret_key sample_app_settings = None" by (simp add: sample_app_settings_def)
  show ?thesis
    by (simp add: lifespan_def runtime_settings_def bindM_liftM on_loggers_def bindM_def [of "on_loggers _"] sample_server_def
        ls' u async_exit_stack_run final_finallyM stack_exit_final open_push_bind engine redis rc clerk
        bind_api_key_verifier_def on_world_def bindM_def [of "on_world _"] no_clients_def)
qed

theorem lifespan_closes_clients_witness:
  "cl_closed (sv_clients (final (lifespan sample_lifespan (Some sample_app_settings)
     (\<lambda>_. raise AttributeError :: (server, exn, unit) io)) sample_server)) = [RedisClient, DatabaseEngine]"
proof -
  have "frame sv_clients (raise AttributeError :: (server, exn, unit) io)" by (rule frame_intros)
  from lifespan_closes_clients [where serve = "\<lambda>_. raise AttributeError :: (server, exn, unit) io", OF this refl,
      of sample_lifespan "Some sample_app_settings" sample_server]
  show ?thesis using sample_lifespan_opens by (auto simp: sample_server_def no_clients_def)
qed

section \<open>Migrations\<close>

text \<open>C31. The three revisions, walked from the base, build exactly the schema that the models
  declare under the naming convention (tables, columns, defaults, constraints, indexes,
  with their names), and the downgrades undo them. Run from \<open>alembic/env.py\<close> on an empty
  database, they leave it empty or complete, complete when the run returns, and the engine is
  disposed of; offline, the database is not touched and the script holds these operations.\<close>

theorem migrations_build_models:
  assumes "env_main message src make_engine connect dispose offline upgrade_operations m = (r, m')"
    "mg_schema m = empty_schema"
  shows "upgrade_head empty_schema = Some target_metadata \<and> downgrade_base target_metadata = Some empty_schema \<and>
    all_closed (sv_clients m) (sv_clients m') \<and> mg_schema m' \<in> {empty_schema, target_metadata} \<and>
    (r = Inr () \<longrightarrow>
       (if offline then mg_schema m' = empty_schema \<and> mg_script m' = mg_script m @ upgrade_operations
        else mg_schema m' = target_metadata))"
  using env_main_cases [OF assms(1)] assms(2) upgrade_empty downgrade_target
  by (auto simp: upgrade_head_def)

definition sample_migrator :: migrator where
  "sample_migrator =
     \<lparr>sv_world = sample_world, sv_clients = no_clients, sv_loggers = (\<lambda>_. fresh_logger), mg_schema = empty_schema, mg_script = []\<rparr>"

theorem migrations_build_models_witness:
  "\<exists>m'. env_main (\<lambda>_. []) sample_source (\<lambda>_ _. Inr ()) (\<lambda>_. Inr ()) None False upgrade_operations sample_migrator =
      (Inr (), m') \<and> mg_schema m' = target_metadata"
proof -
  obtain args where "database_connect_args (ss_unicode sample_source) sample_app_settings = Inr args"
    using database_connect_args_total [OF make_settings_Valid(1) [OF sample_app_settings_valid]] by blast
  moreover have "run_operations upgrade_operations empty_schema = Some target_metadata"
    using upgrade_empty by (simp add: upgrade_head_def)
  ultimately obtain m' where run: "env_main (\<lambda>_. []) sample_source (\<lambda>_ _. Inr ()) (\<lambda>_. Inr ()) None False
      upgrade_operations sample_migrator = (Inr (), m')"
    by (simp add: env_main_def bindM_liftM sample_app_settings_valid settings_result_def run_migrations_online_def
        run_migrations_def sample_migrator_def close_client_def finallyM_def open_push_bind bindM_def [of "on_clients _"])
  have "mg_schema m' = target_metadata"
    using migrations_build_models [OF run] by (simp add: sample_migrator_def)
  then show ?thesis using run by blast
qed

end
