(* ===== verification/RequestSteps.thy ===== *)
theory RequestSteps
  imports ItemsTheorems
begin

text \<open>
  A cached operation of \<open>ItemService\<close>, cut at its awaits. Between two steps of one request
  every other client of Redis and PostgreSQL may act; the cuts are those of
  \<open>app/items/cache.py\<close> and \<open>app/items/service.py\<close>: the generation, the payload, the
  generation again, the statements of the load, the write. The last section shows that
  the steps, run one after another, are the operations of the service under every
  schedule of interference and failures.
\<close>

section \<open>What is asked, and where a request is\<close>

datatype query = ItemQuery int | ListQuery item_list_params | MetaQuery pystr

primrec query_suffix :: "redis_item_cache \<Rightarrow> query \<Rightarrow> pystr" where
  "query_suffix rc (ItemQuery i) = item_suffix i"
| "query_suffix rc (ListQuery p) = list_suffix rc p"
| "query_suffix rc (MetaQuery a) = meta_suffix a"

primrec resource_name :: "query \<Rightarrow> pystr" where
  "resource_name (ItemQuery i) = lit ''item''"
| "resource_name (ListQuery p) = lit ''list''"
| "resource_name (MetaQuery a) = lit ''meta''"

text \<open>The phases carry the local variables of the coroutine: the generation that was read, the
  payload, the items of a page, the value to be stored.\<close>

datatype request_phase =
  Asked
| Probing pystr
| Confirming pystr reply
| Loading "pystr option"
| Counting "pystr option" "item_response list"
| Storing "pystr option" cached_value
| Answered "exn + cached_value"

section \<open>The lookup\<close>

definition tagged :: "('v \<Rightarrow> cached_value) \<Rightarrow> 'v cache_lookup \<Rightarrow> cached_value cache_lookup" where
  "tagged f l = \<lparr>lk_value = map_option f (lk_value l), lk_generation = lk_generation l\<rparr>"

primrec confirmed ::
  "redis_item_cache \<Rightarrow> query \<Rightarrow> pystr \<Rightarrow> reply \<Rightarrow> cached_value cache_lookup prog" where
  "confirmed rc (ItemQuery i) g p =
     bindM (validated_lookup rc (item_suffix i) item_model g p) (\<lambda>l.
     bindM (keep_if (\<lambda>v. ir_game_id v = i) l) (\<lambda>k. ret (tagged CItem k)))"
| "confirmed rc (ListQuery q) g p =
     bindM (validated_lookup rc (list_suffix rc q) list_model g p) (\<lambda>l.
     bindM (keep_if (\<lambda>v. lr_limit v = p_limit q \<and> lr_offset v = p_offset q) l) (\<lambda>k. ret (tagged CList k)))"
| "confirmed rc (MetaQuery a) g p =
     bindM (validated_lookup rc (meta_suffix a) meta_model g p) (\<lambda>l.
     bindM (keep_if (\<lambda>v. mr_api_version v = a) l) (\<lambda>k. ret (tagged CMeta k)))"

definition looked_up :: "cached_value cache_lookup \<Rightarrow> request_phase" where
  "looked_up l = (case lk_value l of Some v \<Rightarrow> Answered (Inr v) | None \<Rightarrow> Loading (lk_generation l))"

fun read_step :: "redis_item_cache \<Rightarrow> query \<Rightarrow> request_phase \<Rightarrow> request_phase prog" where
  "read_step rc q Asked =
     bindM (cache_generation rc) (\<lambda>generation.
       ret (case generation of None \<Rightarrow> Loading None | Some g \<Rightarrow> Probing g))"
| "read_step rc q (Probing g) =
     bindM (read_payload rc (cache_key g (query_suffix rc q))) (\<lambda>payload.
       case payload of None \<Rightarrow> bindM log_invalid_payload (\<lambda>_. ret (Loading (Some g)))
       | Some p \<Rightarrow> ret (Confirming g p))"
| "read_step rc q (Confirming g p) =
     bindM (cache_generation rc) (\<lambda>current.
       if current \<noteq> Some g then ret (Loading current)
       else bindM (confirmed rc q g p) (\<lambda>l. ret (looked_up l)))"
| "read_step rc q ph = ret ph"

fun is_reading :: "request_phase \<Rightarrow> bool" where
  "is_reading Asked = True"
| "is_reading (Probing g) = True"
| "is_reading (Confirming g p) = True"
| "is_reading ph = False"

text \<open>\<open>_cache_read\<close> answers a failure of the client by going on without the cache.\<close>

definition after_read :: "exn + request_phase \<Rightarrow> request_phase" where
  "after_read r =
     (case r of Inr ph \<Rightarrow> ph
      | Inl e \<Rightarrow> if CACHE_FAILURES e then Loading None else Answered (Inl e))"

section \<open>The load and the write\<close>

fun load_step :: "pg_locale \<Rightarrow> query \<Rightarrow> request_phase \<Rightarrow> request_phase prog" where
  "load_step loc (ItemQuery i) (Loading generation) =
     bindM (load_item (sqlalchemy_item_repository loc) i) (\<lambda>r. ret (Storing generation (CItem r)))"
| "load_step loc (MetaQuery a) (Loading generation) =
     bindM (load_meta (sqlalchemy_item_repository loc) a) (\<lambda>r. ret (Storing generation (CMeta r)))"
| "load_step loc (ListQuery p) (Loading generation) =
     bindM (sql_list_items loc (p_search p) (p_quality p) (p_type p) (p_version p) (p_sort p) (p_order p)
              (p_limit p) (p_offset p))
       (\<lambda>items. ret (Counting generation (map to_item_response items)))"
| "load_step loc (ListQuery p) (Counting generation items) =
     bindM (sql_count_items loc (p_search p) (p_quality p) (p_type p) (p_version p)) (\<lambda>total.
       ret (Storing generation (CList \<lparr>lr_items = items, lr_total = total, lr_limit = p_limit p,
              lr_offset = p_offset p\<rparr>)))"
| "load_step loc q ph = ret ph"

fun is_loading :: "request_phase \<Rightarrow> bool" where
  "is_loading (Loading g) = True"
| "is_loading (Counting g xs) = True"
| "is_loading ph = False"

definition after_load :: "exn + request_phase \<Rightarrow> request_phase" where
  "after_load r = (case r of Inr ph \<Rightarrow> ph | Inl e \<Rightarrow> Answered (Inl e))"

definition query_store :: "redis_item_cache \<Rightarrow> query \<Rightarrow> cached_value \<Rightarrow> pystr option \<Rightarrow> unit prog" where
  "query_store rc q value generation =
     (case value of
        CItem r \<Rightarrow> set_item rc r generation
      | CMeta r \<Rightarrow> set_meta rc r generation
      | CList r \<Rightarrow> (case q of ListQuery p \<Rightarrow> set_list rc p r generation | _ \<Rightarrow> ret ()))"

definition after_store :: "cached_value \<Rightarrow> exn + unit \<Rightarrow> request_phase" where
  "after_store value r =
     Answered (case r of Inr _ \<Rightarrow> Inr value | Inl e \<Rightarrow> if CACHE_FAILURES e then Inr value else Inl e)"

section \<open>The steps in sequence\<close>

definition request_lookup :: "redis_item_cache \<Rightarrow> query \<Rightarrow> request_phase prog" where
  "request_lookup rc q = bindM (read_step rc q Asked) (\<lambda>ph. bindM (read_step rc q ph) (read_step rc q))"

definition request_program :: "redis_item_cache \<Rightarrow> pg_locale \<Rightarrow> query \<Rightarrow> cached_value prog" where
  "request_program rc loc q =
     bindM (catchM (request_lookup rc q)
       (\<lambda>e. if CACHE_FAILURES e
             then Some (bindM (log_cache_failure (lit ''read'') (resource_name q) e) (\<lambda>_. ret (Loading None)))
             else None)) (\<lambda>ph.
     bindM (load_step loc q ph) (\<lambda>ph.
     bindM (load_step loc q ph) (\<lambda>ph.
       case ph of
         Answered r \<Rightarrow> liftM r
       | Storing g v \<Rightarrow> bindM (cache_write (query_store rc q v g) (resource_name q)) (\<lambda>_. ret v)
       | _ \<Rightarrow> raise AttributeError)))"

lemma keep_if_None: "lk_value l = None \<Longrightarrow> keep_if ok l w = (Inr l, w)"
  by (simp add: keep_if_def)

lemma looked_up_miss [simp]:
  "looked_up (tagged f \<lparr>lk_value = None, lk_generation = g\<rparr>) = Loading g"
  by (simp add: looked_up_def tagged_def)

text \<open>The lookups of the cache are the three reading steps.\<close>

lemma lookup_steps:
  assumes "\<And>g p. confirmed rc q g p =
      bindM (validated_lookup rc (query_suffix rc q) m g p) (\<lambda>l. bindM (keep_if ok l) (\<lambda>k. ret (tagged f k)))"
  shows "request_lookup rc q =
    bindM (bindM (cache_get rc (query_suffix rc q) m) (keep_if ok)) (\<lambda>l. ret (looked_up (tagged f l)))"
  by (auto simp: fun_eq_iff request_lookup_def cache_get_def assms miss_def invalid_miss_def keep_if_None bindM_def
      split: prod.split sum.split option.split)

lemma lookup_is_steps:
  "request_lookup rc (ItemQuery i) = bindM (get_item rc i) (\<lambda>l. ret (looked_up (tagged CItem l)))"
  "request_lookup rc (ListQuery p) = bindM (get_list rc p) (\<lambda>l. ret (looked_up (tagged CList l)))"
  "request_lookup rc (MetaQuery a) = bindM (get_meta rc a) (\<lambda>l. ret (looked_up (tagged CMeta l)))"
  unfolding get_item_def get_list_def get_meta_def
  by (rule lookup_steps [where q = "ItemQuery i", simplified query_suffix.simps], simp)
     (rule lookup_steps [where q = "ListQuery p", simplified query_suffix.simps], simp,
      rule lookup_steps [where q = "MetaQuery a", simplified query_suffix.simps], simp)

text \<open>A write without a generation does nothing, so a lookup that failed and one that found no
  generation have the same continuation.\<close>

lemma store_no_generation:
  "set_item rc r None = ret ()" "set_meta rc m None = ret ()"
  "lr_limit l = p_limit p \<Longrightarrow> lr_offset l = p_offset p \<Longrightarrow> set_list rc p l None = ret ()"
  "cache_write (ret ()) resource = ret ()"
  by (simp_all add: set_item_def set_meta_def set_list_def cache_set_def cache_write_def)

lemma looked_up_cases:
  "looked_up (tagged f l) = (case lk_value l of Some v \<Rightarrow> Answered (Inr (f v)) | None \<Rightarrow> Loading (lk_generation l))"
  by (simp add: looked_up_def tagged_def split: option.split)

lemmas service_steps_defs = request_program_def lookup_is_steps service_is_cache_aside cache_aside_def
  cache_read_def cached_def looked_up_cases query_store_def

lemma request_program_item:
  "request_program rc loc (ItemQuery i) w =
     bindM (svc_get_by_game_id (item_service_of loc rc) i) (\<lambda>r. ret (CItem r)) w"
  by (cases "get_item rc i w")
     (auto simp: service_steps_defs store_no_generation bindM_def catchM_def
       split: prod.split sum.split option.split)

lemma request_program_meta:
  "request_program rc loc (MetaQuery a) w =
     bindM (svc_get_meta (item_service_of loc rc) a) (\<lambda>r. ret (CMeta r)) w"
  by (cases "get_meta rc a w")
     (auto simp: service_steps_defs store_no_generation bindM_def catchM_def
       split: prod.split sum.split option.split)

lemma request_program_list:
  "request_program rc loc (ListQuery p) w =
     bindM (svc_list_items (item_service_of loc rc) p) (\<lambda>r. ret (CList r)) w"
  by (cases "get_list rc p w")
     (auto simp: service_steps_defs store_no_generation bindM_def catchM_def load_list_def
       split: prod.split sum.split option.split)

end
