(* ===== verification/ApiSystem.thy ===== *)
theory ApiSystem
  imports RequestSteps IngestionConcurrency
begin

text \<open>
  The whole system in operation: any number of API requests, several runs of the ingestion
  command, Redis and PostgreSQL, interleaved step by step. A request moves by the steps of
  RequestSteps, an ingestion by those of IngestionConcurrency and then by the two commands
  of \<open>invalidate\<close>; entries of the cache may expire or be evicted at any time, and every
  call may fail. The invariant says from which versions of the database the values that are
  stored, carried or answered come.
\<close>

section \<open>The system\<close>

text \<open>\<open>ap_history\<close> and \<open>ap_floor\<close> are history: the versions of the database, one per commit, and
  for a generation the number of commits before it began.\<close>

record api_system =
  ap_ingestion :: system
  ap_redis :: redis_store
  ap_request :: "nat \<Rightarrow> request_phase"
  ap_checked :: "nat set"
  ap_invalidated :: "nat set"
  ap_history :: "database list"
  ap_floor :: "nat \<Rightarrow> nat"

record api_config =
  ac_faults :: bool
  ac_pg :: pg_server
  ac_snapshots :: "nat \<Rightarrow> item_snapshot"
  ac_workers :: nat
  ac_command_cache :: redis_item_cache
  ac_cache :: redis_item_cache
  ac_locale :: pg_locale
  ac_queries :: "nat \<Rightarrow> query"

definition initial_api :: "database \<Rightarrow> redis_store \<Rightarrow> api_system" where
  "initial_api db st =
     \<lparr>ap_ingestion = initial_system db, ap_redis = st, ap_request = (\<lambda>_. Asked), ap_checked = {},
      ap_invalidated = {}, ap_history = [db], ap_floor = (\<lambda>_. 0)\<rparr>"

text \<open>A world in which one step runs: it shows the present state, nobody acts during the step,
  and calls fail with the errors of the clients.\<close>

definition observes :: "api_system \<Rightarrow> world \<Rightarrow> bool" where
  "observes s w \<longleftrightarrow>
     redis w = ap_redis s \<and> database w = sy_database (ap_ingestion s) \<and>
     list_all (\<lambda>e. re_others e = id) (redis_events w) \<and> redis_faults CACHE_FAILURES w \<and>
     list_all (\<lambda>e. de_others e = id) (db_events w) \<and> db_faults database_failure w"

definition redis_generation :: "redis_store \<Rightarrow> nat" where
  "redis_generation st = int_of_digits (redis_bytes st CACHE_GENERATION_KEY)"

definition commits :: "api_system \<Rightarrow> nat" where
  "commits s = length (sy_committed (ap_ingestion s))"

definition moved :: "api_system \<Rightarrow> redis_store \<Rightarrow> nat \<Rightarrow> nat" where
  "moved s st =
     (if redis_generation st = redis_generation (ap_redis s) then ap_floor s
      else (ap_floor s)(redis_generation st := commits s))"

inductive api_step :: "api_config \<Rightarrow> api_system \<Rightarrow> api_system \<Rightarrow> bool" for c :: api_config where
  ingestion: "ingest_step (ac_faults c) (ac_pg c) (ac_snapshots c) (ac_workers c) (ap_ingestion s) i' \<Longrightarrow>
    api_step c s (s\<lparr>ap_ingestion := i', ap_history :=
      (if sy_committed i' = sy_committed (ap_ingestion s) then ap_history s else ap_history s @ [sy_database i'])\<rparr>)"
| check: "sy_phase (ap_ingestion s) i = Done t \<Longrightarrow> observes s w \<Longrightarrow>
    cache_generation (ac_command_cache c) w = (Inr (Some g), w') \<Longrightarrow>
    api_step c s (s\<lparr>ap_checked := insert i (ap_checked s), ap_redis := redis w'\<rparr>)"
| increment: "i \<in> ap_checked s \<Longrightarrow> observes s w \<Longrightarrow> client_incr CACHE_GENERATION_KEY w = (r, w') \<Longrightarrow>
    api_step c s (s\<lparr>ap_invalidated := (case r of Inr _ \<Rightarrow> insert i (ap_invalidated s) | Inl _ \<Rightarrow> ap_invalidated s),
      ap_redis := redis w', ap_floor := moved s (redis w')\<rparr>)"
| read: "is_reading (ap_request s j) \<Longrightarrow> observes s w \<Longrightarrow>
    read_step (ac_cache c) (ac_queries c j) (ap_request s j) w = (r, w') \<Longrightarrow>
    api_step c s (s\<lparr>ap_request := (ap_request s)(j := after_read r), ap_redis := redis w'\<rparr>)"
| load: "is_loading (ap_request s j) \<Longrightarrow> observes s w \<Longrightarrow>
    load_step (ac_locale c) (ac_queries c j) (ap_request s j) w = (r, w') \<Longrightarrow>
    api_step c s (s\<lparr>ap_request := (ap_request s)(j := after_load r)\<rparr>)"
| store: "ap_request s j = Storing g v \<Longrightarrow> observes s w \<Longrightarrow>
    query_store (ac_cache c) (ac_queries c j) v g w = (r, w') \<Longrightarrow>
    api_step c s (s\<lparr>ap_request := (ap_request s)(j := after_store v r), ap_redis := redis w'\<rparr>)"
| expire: "k \<noteq> CACHE_GENERATION_KEY \<Longrightarrow> api_step c s (s\<lparr>ap_redis := (ap_redis s)(k := None)\<rparr>)"

inductive_cases api_stepE: "api_step c s s'"

section \<open>Answers of versions\<close>

text \<open>The page and the total of a listing are two statements, so they may come from two
  versions.\<close>

primrec answers :: "pg_locale \<Rightarrow> query \<Rightarrow> database set \<Rightarrow> cached_value set" where
  "answers loc (ItemQuery i) Ds = {CItem r |r D. D \<in> Ds \<and> item_answer i D = Some r}"
| "answers loc (ListQuery p) Ds =
     {CList ((list_answer loc p D)\<lparr>lr_total := lr_total (list_answer loc p D')\<rparr>) |D D'. D \<in> Ds \<and> D' \<in> Ds}"
| "answers loc (MetaQuery a) Ds = {CMeta (meta_answer a D) |D. D \<in> Ds}"

lemma answers_mono: "Ds \<subseteq> Es \<Longrightarrow> answers loc q Ds \<subseteq> answers loc q Es"
  by (cases q) auto

text \<open>What a request is told when it is not told a value.\<close>

definition refusal :: "query \<Rightarrow> database set \<Rightarrow> exn \<Rightarrow> bool" where
  "refusal q Ds e \<longleftrightarrow> e = SERVICE_UNAVAILABLE \<or>
     (\<exists>i D. q = ItemQuery i \<and> D \<in> Ds \<and> item_answer i D = None \<and>
        e = item_not_found (lit ''Item '' @ str_int i @ lit '' does not exist''))"

definition versions :: "api_system \<Rightarrow> nat \<Rightarrow> database set" where
  "versions s k = set (drop k (ap_history s))"

definition asked :: "item_list_params set \<Rightarrow> query \<Rightarrow> bool" where
  "asked U q \<longleftrightarrow> (case q of ItemQuery i \<Rightarrow> True | ListQuery p \<Rightarrow> p \<in> U | MetaQuery a \<Rightarrow> list_all scalar a)"

text \<open>What a reader makes of a payload, and of an entry.\<close>

primrec query_decode :: "redis_item_cache \<Rightarrow> query \<Rightarrow> pystr \<Rightarrow> cached_value option" where
  "query_decode rc (ItemQuery i) t =
     (case decode_payload rc (item_suffix i) item_model t of
        Some r \<Rightarrow> if ir_game_id r = i then Some (CItem r) else None | None \<Rightarrow> None)"
| "query_decode rc (ListQuery p) t =
     (case decode_payload rc (list_suffix rc p) list_model t of
        Some r \<Rightarrow> if lr_limit r = p_limit p \<and> lr_offset r = p_offset p then Some (CList r) else None
      | None \<Rightarrow> None)"
| "query_decode rc (MetaQuery a) t =
     (case decode_payload rc (meta_suffix a) meta_model t of
        Some r \<Rightarrow> if mr_api_version r = a then Some (CMeta r) else None | None \<Rightarrow> None)"

definition entry_text :: "redis_store \<Rightarrow> pystr \<Rightarrow> pystr option" where
  "entry_text st key = utf8_decode (take (Suc MAX_CACHE_PAYLOAD_BYTES) (redis_bytes st key))"

lemma asked_suffix_inject:
  assumes "digest_ok rc U" "asked U q" "asked U q'" "query_suffix rc q = query_suffix rc q'"
  shows "q = q'"
  using assms(2-) by (cases q; cases q') (auto simp: asked_def dest: list_suffix_inject [OF assms(1)])

text \<open>An answer of sound versions can be stored and is read back as itself.\<close>

lemma answer_encoding:
  assumes "v \<in> answers loc q Ds" "\<And>D. D \<in> Ds \<Longrightarrow> db_ok D" "asked U q" "digest_ok rc U"
    "pydantic_ok (rc_pydantic rc)"
  shows "query_decode rc q (encode_payload rc (query_suffix rc q) v) = Some v"
    "utf8_encode (encode_payload rc (query_suffix rc q) v) \<noteq> None"
proof -
  have list: "list_response_ok (list_answer loc p D\<lparr>lr_total := lr_total (list_answer loc p D')\<rparr>)"
    if "D \<in> Ds" "D' \<in> Ds" "p \<in> U" for D D' p
  proof -
    have "params_text_ok p" using that(3) assms(4) by (simp add: digest_ok_def)
    then show ?thesis
      using list_answer_ok [OF assms(2) [OF that(1)], of p loc] list_answer_ok [OF assms(2) [OF that(2)], of p loc]
      by (simp add: list_response_ok_def)
  qed
  note suffix = list_suffix_scalar [OF assms(4)]
  show "query_decode rc q (encode_payload rc (query_suffix rc q) v) = Some v"
    using assms(1,3) item_answer_ok [OF assms(2)] meta_answer_ok [OF assms(2)] list
    by (cases q) (auto simp: asked_def decode_encode_item decode_encode_meta decode_encode_list assms(5) suffix
        list_answer_def meta_answer_def meta_response_of_def)
  show "utf8_encode (encode_payload rc (query_suffix rc q) v) \<noteq> None"
    using assms(1,3) item_answer_ok [OF assms(2)] meta_answer_ok [OF assms(2)] list payload_encodes [OF assms(5)]
    by (cases q) (auto simp: asked_def suffix)
qed

end
