(* ===== verification/ApiFragments.thy ===== *)
theory ApiFragments
  imports ApiSystem
begin

text \<open>
  What one step of a request does in a world that shows the state of the system: the
  generation and the payload it reads are those of the store, the load answers from the
  tables, the write changes one entry. Each lemma also says which exceptions can occur.
\<close>

section \<open>Observed worlds\<close>

definition generation_at :: "redis_store \<Rightarrow> nat \<Rightarrow> bool" where
  "generation_at st k \<longleftrightarrow> k \<le> MAX_GENERATION \<and> (\<exists>ttl. st CACHE_GENERATION_KEY = Some (str_nat k, ttl))"

lemma generation_at_value: "generation_at st k \<Longrightarrow> redis_generation st = k"
  by (auto simp: generation_at_def redis_generation_def redis_bytes_def)

lemma observes_rely: "observes s w \<Longrightarrow> P (ap_redis s) \<Longrightarrow> redis_rely P w"
  by (auto simp: observes_def redis_rely_def list_all_iff)

lemma observes_redis: "observes s w \<Longrightarrow> redis_rely (\<lambda>st. st = ap_redis s) w"
  by (rule observes_rely) simp_all

lemma observes_db: "observes s w \<Longrightarrow> db_trusted (\<lambda>db. db = sy_database (ap_ingestion s)) w"
  by (auto simp: observes_def db_trusted_def db_rely_def list_all_iff)

lemma observes_faults: "observes s w \<Longrightarrow> redis_faults CACHE_FAILURES w"
  by (simp add: observes_def)

lemma no_creation: "generation_at st k \<Longrightarrow> survives_creation (\<lambda>x. x = st)"
  by (auto simp: survives_creation_def generation_at_def)

text \<open>A world in which nothing interferes and no call fails.\<close>

definition calm_world :: "api_system \<Rightarrow> world" where
  "calm_world s =
     \<lparr>redis = ap_redis s, database = sy_database (ap_ingestion s), redis_events = [], db_events = [],
      entropy = [], logs = []\<rparr>"

lemma calm_world_simps [simp]:
  "redis (calm_world s) = ap_redis s" "database (calm_world s) = sy_database (ap_ingestion s)"
  "redis_events (calm_world s) = []" "db_events (calm_world s) = []"
  by (simp_all add: calm_world_def)

lemma calm_observes [simp]: "observes s (calm_world s)"
  by (simp add: observes_def redis_faults_def db_faults_def)

section \<open>The generation\<close>

lemma generation_step:
  assumes "observes s w" "generation_at (ap_redis s) k" "factory_ok rc" "cache_generation rc w = (r, w')"
  shows "redis_rely (\<lambda>st. st = ap_redis s) w' \<and> redis_faults CACHE_FAILURES w' \<and>
    (\<forall>g. r = Inr (Some g) \<longrightarrow> g = str_nat k) \<and> (\<forall>e. r = Inl e \<longrightarrow> CACHE_FAILURES e)"
proof -
  have "redis_rely (\<lambda>st. st = ap_redis s) w'"
    using keeps_eq [OF keeps_cache_generation [OF no_creation [OF assms(2)]] assms(4) observes_redis [OF assms(1)]] .
  moreover have "CACHE_FAILURES e" if "r = Inl e" for e
    using safeD [OF safe_cache_generation [OF assms(3)] observes_faults [OF assms(1)]] assms(4) that by blast
  moreover have "redis_faults CACHE_FAILURES w'"
    by (rule safe_state [OF safe_cache_generation [OF assms(3)] observes_faults [OF assms(1)] assms(4)])
  moreover have "g = str_nat k" if r: "r = Inr (Some g)" for g
  proof -
    have "redis_rely (\<lambda>st. generation_from k st \<and> st = ap_redis s) w"
      by (rule observes_rely [OF assms(1)]) (use assms(2) in \<open>auto simp: generation_from_def generation_at_def\<close>)
    then obtain m ttl where "ap_redis s CACHE_GENERATION_KEY = Some (str_nat m, ttl)" "g = str_nat m"
      using cache_generation_read [of k "\<lambda>st. st = ap_redis s" w rc g w'] assms(4) r by auto
    then show ?thesis using assms(2) by (auto simp: generation_at_def)
  qed
  ultimately show ?thesis by blast
qed

section \<open>The payload\<close>

lemma payload_step:
  assumes "observes s w" "read_payload rc key w = (r, w')"
  shows "redis w' = ap_redis s \<and> (\<forall>e. r = Inl e \<longrightarrow> CACHE_FAILURES e) \<and>
    (\<forall>p. r = Inr (Some p) \<longrightarrow> (\<exists>t. payload_text (Some p) = Inr t \<and> (\<forall>x. t = Some x \<longrightarrow> entry_text (ap_redis s) key = Some x)))"
proof -
  note rely = observes_redis [OF assms(1)]
  have "keeps (redis_rely (\<lambda>st. st = ap_redis s)) (read_payload rc key)"
    by (auto simp: read_payload_def intro!: keeps_intros split: if_splits)
  from keeps_eq [where P = "redis_rely (\<lambda>st. st = ap_redis s)", OF this assms(2) rely]
  have "redis w' = ap_redis s" by (rule redis_rely_redis)
  moreover have "CACHE_FAILURES e" if "r = Inl e" for e
    using safeD [OF safe_read_payload observes_faults [OF assms(1)]] assms(2) that by blast
  moreover have "\<exists>t. payload_text (Some p) = Inr t \<and> (\<forall>x. t = Some x \<longrightarrow> entry_text (ap_redis s) key = Some x)"
    if r: "r = Inr (Some p)" for p
  proof -
    obtain w1 where run: "client_getrange rc key 0 MAX_CACHE_PAYLOAD_BYTES w = (Inr p, w1)"
      using assms(2) r
      by (auto simp: read_payload_def catchM_def bindM_def split: prod.splits sum.splits option.splits if_splits)
    have "if rc_decode rc then \<exists>t. entry_text (ap_redis s) key = Some t \<and> p = RStr t
        else p = RBytes (take (Suc MAX_CACHE_PAYLOAD_BYTES) (redis_bytes (ap_redis s) key))"
      using client_getrange_rely [OF rely run] by (auto simp: entry_text_def Let_def)
    then show ?thesis
      using payload_text_ok [OF run]
      by (auto simp: payload_text_def entry_text_def split: if_splits option.splits)
  qed
  ultimately show ?thesis by blast
qed

lemma validated_lookup_run:
  assumes "payload_text (Some p) = Inr t" "validated_lookup rc s m g p w = (r, w')"
  shows "redis w' = redis w \<and> (\<exists>l. r = Inr l \<and>
    (lk_value l = None \<and> lk_generation l = Some g \<or>
     (\<exists>x v. t = Some x \<and> decode_payload rc s m x = Some v \<and> l = \<lparr>lk_value = Some v, lk_generation = Some g\<rparr>)))"
  using assms
  by (auto simp: validated_lookup_def miss_def invalid_miss_def log_invalid_payload_def emit_def bindM_def
      split: option.splits if_splits)

lemma keep_if_run:
  assumes "keep_if ok l w = (r, w')"
  shows "redis w' = redis w \<and> (case lk_value l of
      Some v \<Rightarrow> if ok v then r = Inr l else r = Inr \<lparr>lk_value = None, lk_generation = lk_generation l\<rparr>
    | None \<Rightarrow> r = Inr l)"
  using assms
  by (auto simp: keep_if_def miss_def invalid_miss_def log_invalid_payload_def emit_def bindM_def
      split: option.splits if_splits)

lemma confirmed_with:
  assumes "payload_text (Some p) = Inr t"
    "bindM (validated_lookup rc sx m g p) (\<lambda>l. bindM (keep_if ok l) (\<lambda>k. ret (tagged f k))) w = (r, w')"
    "\<And>x. query_decode rc q x = (case decode_payload rc sx m x of
        Some v \<Rightarrow> if ok v then Some (f v) else None | None \<Rightarrow> None)"
  shows "redis w' = redis w \<and> (\<exists>l. r = Inr l \<and>
    (looked_up l = Loading (Some g) \<or>
     (\<exists>x v. t = Some x \<and> query_decode rc q x = Some v \<and> looked_up l = Answered (Inr v))))"
proof -
  obtain l w1 where l: "validated_lookup rc sx m g p w = (Inr l, w1)" "redis w1 = redis w"
    "lk_value l = None \<and> lk_generation l = Some g \<or>
     (\<exists>x v. t = Some x \<and> decode_payload rc sx m x = Some v \<and> l = \<lparr>lk_value = Some v, lk_generation = Some g\<rparr>)"
    using validated_lookup_run [OF assms(1)] by (metis prod.exhaust)
  obtain k w2 where k: "keep_if ok l w1 = (k, w2)" by fastforce
  have same: "redis w2 = redis w" using keep_if_run [OF k] l(2) by simp
  from l(3) show ?thesis
  proof
    assume "lk_value l = None \<and> lk_generation l = Some g"
    then show ?thesis
      using assms(2) l(1) k keep_if_run [OF k] same by (auto simp: bindM_def looked_up_cases)
  next
    assume "\<exists>x v. t = Some x \<and> decode_payload rc sx m x = Some v \<and> l = \<lparr>lk_value = Some v, lk_generation = Some g\<rparr>"
    then obtain x v where x: "t = Some x" "decode_payload rc sx m x = Some v"
      "l = \<lparr>lk_value = Some v, lk_generation = Some g\<rparr>" by blast
    have "query_decode rc q x = (if ok v then Some (f v) else None)" using assms(3) [of x] x(2) by simp
    then show ?thesis
      using assms(2) l(1) k keep_if_run [OF k] same x(1,3)
      by (auto simp: bindM_def looked_up_cases split: if_splits)
  qed
qed

lemma confirmed_run:
  assumes "payload_text (Some p) = Inr t" "confirmed rc q g p w = (r, w')"
  shows "redis w' = redis w \<and> (\<exists>l. r = Inr l \<and>
    (looked_up l = Loading (Some g) \<or>
     (\<exists>x v. t = Some x \<and> query_decode rc q x = Some v \<and> looked_up l = Answered (Inr v))))"
  using assms(2)
  by (cases q; simp only: confirmed.simps; elim confirmed_with [OF assms(1)]) simp_all

section \<open>The reading steps\<close>

text \<open>What a reading step leaves: the phases it can end in, and where their contents come
  from. \<open>k\<close> is the generation in the store.\<close>

definition read_result ::
  "redis_item_cache \<Rightarrow> redis_store \<Rightarrow> nat \<Rightarrow> query \<Rightarrow> request_phase \<Rightarrow> request_phase \<Rightarrow> bool" where
  "read_result rc st k q ph ph' \<longleftrightarrow>
     ph' = Loading None \<or> ph' = Loading (Some (str_nat k)) \<or>
     ph = Asked \<and> ph' = Probing (str_nat k) \<or>
     (\<exists>g. ph = Probing g \<and> (ph' = Loading (Some g) \<or>
        (\<exists>p t. ph' = Confirming g p \<and> payload_text (Some p) = Inr t \<and>
           (\<forall>x. t = Some x \<longrightarrow> entry_text st (cache_key g (query_suffix rc q)) = Some x)))) \<or>
     (\<exists>p x v. ph = Confirming (str_nat k) p \<and> payload_text (Some p) = Inr (Some x) \<and>
        query_decode rc q x = Some v \<and> ph' = Answered (Inr v))"

lemma asking_step:
  assumes "observes s w" "generation_at (ap_redis s) k" "factory_ok rc" "read_step rc q Asked w = (r, w')"
  shows "redis w' = ap_redis s \<and>
    (case r of Inl e \<Rightarrow> CACHE_FAILURES e | Inr ph' \<Rightarrow> read_result rc (ap_redis s) k q Asked ph')"
proof -
  obtain r1 where g: "cache_generation rc w = (r1, w')"
    and r: "r = (case r1 of Inl e \<Rightarrow> Inl e | Inr None \<Rightarrow> Inr (Loading None) | Inr (Some g) \<Rightarrow> Inr (Probing g))"
    using assms(4) by (auto simp: bindM_def split: prod.splits sum.splits option.splits)
  show ?thesis
    using generation_step [OF assms(1-3) g] r redis_rely_redis [of "\<lambda>st. st = ap_redis s" w']
    by (auto simp: read_result_def split: sum.split option.split)
qed

lemma probing_step:
  assumes "observes s w" "read_step rc q (Probing g) w = (r, w')"
  shows "redis w' = ap_redis s \<and>
    (case r of Inl e \<Rightarrow> CACHE_FAILURES e | Inr ph' \<Rightarrow> read_result rc (ap_redis s) k q (Probing g) ph')"
proof -
  obtain r1 w1 where p: "read_payload rc (cache_key g (query_suffix rc q)) w = (r1, w1)" by fastforce
  show ?thesis
    using payload_step [OF assms(1) p] assms(2) p
    by (cases r1)
       (auto simp: read_result_def bindM_def log_invalid_payload_def emit_def split: option.splits)
qed

lemma confirming_step:
  assumes "observes s w" "generation_at (ap_redis s) k" "factory_ok rc"
    "payload_text (Some p) = Inr t" "read_step rc q (Confirming g p) w = (r, w')"
  shows "redis w' = ap_redis s \<and>
    (case r of Inl e \<Rightarrow> CACHE_FAILURES e | Inr ph' \<Rightarrow> read_result rc (ap_redis s) k q (Confirming g p) ph')"
proof -
  obtain r1 w1 where g: "cache_generation rc w = (r1, w1)" by fastforce
  note gen = generation_step [OF assms(1-3) g]
  have same: "redis w1 = ap_redis s" using gen redis_rely_redis [of "\<lambda>st. st = ap_redis s" w1] by blast
  show ?thesis
  proof (cases "r1 = Inr (Some g)")
    case True
    then obtain r2 w2 where c: "confirmed rc q g p w1 = (r2, w2)" by fastforce
    show ?thesis
      using confirmed_run [OF assms(4) c] True gen same assms(4,5) g c
      by (auto simp: read_result_def bindM_def)
  next
    case False
    then show ?thesis
      using assms(5) g gen same
      by (cases r1; cases "projr r1") (auto simp: read_result_def bindM_def split: option.splits)
  qed
qed

lemma read_step_run:
  assumes "observes s w" "generation_at (ap_redis s) k" "factory_ok rc" "is_reading ph"
    "read_step rc q ph w = (r, w')" "\<And>g p. ph = Confirming g p \<Longrightarrow> \<exists>t. payload_text (Some p) = Inr t"
  shows "redis w' = ap_redis s \<and>
    (case r of Inl e \<Rightarrow> CACHE_FAILURES e | Inr ph' \<Rightarrow> read_result rc (ap_redis s) k q ph ph')"
proof (cases ph)
  case (Confirming g p)
  then obtain t where "payload_text (Some p) = Inr t" using assms(6) by blast
  then show ?thesis using confirming_step [OF assms(1-3)] Confirming assms(5) by blast
qed (use assms asking_step [OF assms(1-3)] probing_step [OF assms(1)] in \<open>auto simp del: read_step.simps\<close>)

section \<open>The load\<close>

lemma load_step_run:
  assumes "observes s w" "is_loading ph" "load_step loc q ph w = (r, w')" "D = sy_database (ap_ingestion s)" "db_ok D"
  shows "case r of
      Inl e \<Rightarrow> refusal q {D} e
    | Inr ph' \<Rightarrow> (case ph of
        Loading g \<Rightarrow> (\<exists>v. ph' = Storing g v \<and> v \<in> answers loc q {D}) \<or>
          (\<exists>p. q = ListQuery p \<and> ph' = Counting g (lr_items (list_answer loc p D)))
      | Counting g items \<Rightarrow>
          (\<forall>p. q = ListQuery p \<longrightarrow> ph' = Storing g (CList ((list_answer loc p D)\<lparr>lr_items := items\<rparr>)))
      | _ \<Rightarrow> True)"
proof -
  let ?P = "\<lambda>db. db = D"
  have trusted: "db_trusted ?P w" and rely: "db_rely ?P w"
    using observes_db [OF assms(1)] assms(4) by (simp_all add: db_trusted_def)
  have ok: "\<And>db. ?P db \<Longrightarrow> db_ok db" using assms(5) by simp
  have lists: "sql_list_items loc a b c d e1 f g h w = (Inl e, w1) \<Longrightarrow> e = SERVICE_UNAVAILABLE"
    "sql_count_items loc a b c d w = (Inl e, w1) \<Longrightarrow> e = SERVICE_UNAVAILABLE"
    "load_meta (sqlalchemy_item_repository loc) x w = (Inl e, w1) \<Longrightarrow> e = SERVICE_UNAVAILABLE"
    for a b c d e1 f g h e w1 x
    by (auto dest: safeD [OF safe_sql_lists(1) trusted] safeD [OF safe_sql_lists(2) trusted]
        safeD [OF safe_loads(2) trusted])
  show ?thesis
  proof (cases q)
    case (ItemQuery i)
    show ?thesis
    proof (cases ph)
      case (Loading g)
      then show ?thesis
        using assms(3) ItemQuery load_item_error [OF trusted ok] load_item_value [OF rely ok]
        by (cases "load_item (sqlalchemy_item_repository loc) i w"; cases "fst (load_item (sqlalchemy_item_repository loc) i w)")
           (fastforce simp: bindM_def refusal_def)+
    qed (use assms(2,3) ItemQuery in auto)
  next
    case (MetaQuery a)
    show ?thesis
    proof (cases ph)
      case (Loading g)
      then show ?thesis
        using assms(3) MetaQuery lists load_meta_value [OF rely ok]
        by (cases "load_meta (sqlalchemy_item_repository loc) a w"; cases "fst (load_meta (sqlalchemy_item_repository loc) a w)")
           (fastforce simp: bindM_def refusal_def)+
    qed (use assms(2,3) MetaQuery in auto)
  next
    case (ListQuery p)
    show ?thesis
    proof (cases ph)
      case (Loading g)
      let ?m = "sql_list_items loc (p_search p) (p_quality p) (p_type p) (p_version p) (p_sort p) (p_order p)
        (p_limit p) (p_offset p)"
      show ?thesis
      proof (cases "?m w")
        case (Pair r1 w1)
        then show ?thesis
          using assms(3) ListQuery Loading lists list_items_value [OF rely ok]
          by (cases r1) (fastforce simp: bindM_def refusal_def list_answer_def response_of_row_def)+
      qed
    next
      case (Counting g items)
      let ?m = "sql_count_items loc (p_search p) (p_quality p) (p_type p) (p_version p)"
      show ?thesis
      proof (cases "?m w")
        case (Pair r1 w1)
        then show ?thesis
          using assms(3) ListQuery Counting lists count_items_value [OF rely]
          by (cases r1) (fastforce simp: bindM_def refusal_def list_answer_def)+
      qed
    qed (use assms(2) in auto)
  qed
qed

section \<open>The write\<close>

lemma query_store_set:
  assumes "v \<in> answers loc q Ds" "\<And>D. D \<in> Ds \<Longrightarrow> db_ok D"
  obtains ttl where "query_store rc q v g = cache_set rc (query_suffix rc q) v ttl g"
  using assms(1) item_answer_ok [OF assms(2)] that
  by (cases q) (fastforce simp: query_store_def set_item_def set_meta_def set_list_def list_answer_def
      meta_answer_def meta_response_of_def)+

lemma store_step:
  assumes "observes s w" "v \<in> answers loc q Ds" "\<And>D. D \<in> Ds \<Longrightarrow> db_ok D" "asked U q" "digest_ok rc U"
    "pydantic_ok (rc_pydantic rc)" "query_store rc q v g w = (r, w')"
  shows "(\<forall>e. r = Inl e \<longrightarrow> CACHE_FAILURES e) \<and>
    (redis w' = ap_redis s \<or> (\<exists>h b ttl. g = Some h \<and> utf8_encode (encode_payload rc (query_suffix rc q) v) = Some b \<and>
       length b \<le> MAX_CACHE_PAYLOAD_BYTES \<and>
       redis w' = (ap_redis s)(cache_key h (query_suffix rc q) \<mapsto> (b, Some ttl))))"
proof -
  obtain ttl where set: "query_store rc q v g = cache_set rc (query_suffix rc q) v ttl g"
    by (rule query_store_set [OF assms(2,3)])
  note run = assms(7) [unfolded set]
  have encodes: "utf8_encode (encode_payload rc (query_suffix rc q) v) \<noteq> None"
    by (rule answer_encoding(2) [OF assms(2-6)])
  have "CACHE_FAILURES e" if "r = Inl e" for e
    using safeD [OF safe_cache_set [OF encodes] observes_faults [OF assms(1)]] run that by blast
  moreover have "redis w' = ap_redis s \<or> (\<exists>h b ttl. g = Some h \<and>
      utf8_encode (encode_payload rc (query_suffix rc q) v) = Some b \<and> length b \<le> MAX_CACHE_PAYLOAD_BYTES \<and>
      redis w' = (ap_redis s)(cache_key h (query_suffix rc q) \<mapsto> (b, Some ttl)))"
  proof (cases g)
    case None
    then show ?thesis using run assms(1) by (simp add: cache_set_def observes_def)
  next
    case (Some h)
    let ?P = "\<lambda>st. st = ap_redis s \<or> (\<exists>b. utf8_encode (encode_payload rc (query_suffix rc q) v) = Some b \<and>
      length b \<le> MAX_CACHE_PAYLOAD_BYTES \<and> st = (ap_redis s)(cache_key h (query_suffix rc q) \<mapsto> (b, Some ttl)))"
    have "keeps (redis_rely ?P) (cache_set rc (query_suffix rc q) v ttl (Some h))"
      by (rule keeps_cache_set) (auto simp: survives_entry_def)
    moreover have "redis_rely ?P w" by (rule observes_rely [OF assms(1)]) simp
    ultimately have "redis_rely ?P w'" using run Some keeps_eq [where P = "redis_rely ?P"] by blast
    then show ?thesis using Some redis_rely_redis [where P = ?P] by blast
  qed
  ultimately show ?thesis by blast
qed

section \<open>The increment\<close>

lemma increment_step:
  assumes "observes s w" "generation_at (ap_redis s) k" "client_incr CACHE_GENERATION_KEY w = (r, w')"
  shows "redis w' = ap_redis s \<and> (\<exists>e. r = Inl e) \<or>
    k < MAX_GENERATION \<and> (\<exists>ttl. redis w' = (ap_redis s)(CACHE_GENERATION_KEY \<mapsto> (str_nat (Suc k), ttl)))"
proof -
  obtain ttl where k: "k \<le> MAX_GENERATION" "ap_redis s CACHE_GENERATION_KEY = Some (str_nat k, ttl)"
    using assms(2) by (auto simp: generation_at_def)
  have cmd: "redis_incr CACHE_GENERATION_KEY (ap_redis s) =
      (if k < MAX_GENERATION then (Inr (int k + 1), (ap_redis s)(CACHE_GENERATION_KEY \<mapsto> (str_nat (Suc k), ttl)))
       else (Inl ResponseError, ap_redis s))"
  proof (cases "k < MAX_GENERATION")
    case True
    then show ?thesis using redis_incr_generation [of "ap_redis s" CACHE_GENERATION_KEY k ttl] k(2) by simp
  next
    case False
    then have "k = MAX_GENERATION" using k(1) by simp
    then show ?thesis using redis_incr_exhausted [of "ap_redis s" CACHE_GENERATION_KEY ttl] k(2) by simp
  qed
  show ?thesis
    using assms(1,3) cmd
    by (cases "redis_events w")
       (auto simp: client_incr_def redis_call_def observes_def Let_def split: if_splits option.splits)
qed

end
