(* ===== verification/ApiInvariant.thy ===== *)
theory ApiInvariant
  imports ApiFragments "HOL-Library.Sublist"
begin

text \<open>
  The invariant of the system of ApiSystem. Its parts: the versions of the database are
  sound and are those of a serial execution of the ingestions; the generation of the cache
  only grows, and a generation that began after a commit has a floor above it; an entry
  of a generation is an answer of a version from the floor of that generation on; what a
  request carries is an answer of a version from the floor of the generation it read. The
  last part is stated for a lower bound on the generation, so that it also holds, with a
  later bound, for a request that has not begun yet.
\<close>

section \<open>Versions of the database\<close>

definition same_tables :: "database \<Rightarrow> database \<Rightarrow> bool" where
  "same_tables D D' \<longleftrightarrow> items_table D = items_table D' \<and> metadata_table D = metadata_table D'"

lemma answers_tables:
  assumes "same_tables D D'"
  shows "item_answer i D = item_answer i D'" "list_answer loc p D = list_answer loc p D'"
    "meta_answer a D = meta_answer a D'" "catalogue_of D = catalogue_of D'"
  using assms
  by (simp_all add: same_tables_def item_answer_def find_item_def list_answer_def page_rows_def ordered_rows_def
      meta_answer_def catalog_meta_of_def catalogue_of_def metadata_of_def)

definition views_ok :: "system \<Rightarrow> bool" where
  "views_ok i \<longleftrightarrow> db_ok (sy_database i) \<and> (\<forall>j v. holding_view (sy_phase i j) = Some v \<longrightarrow> db_ok v)"

definition done_committed :: "system \<Rightarrow> bool" where
  "done_committed i \<longleftrightarrow> (\<forall>j t. sy_phase i j = Done t \<longrightarrow> j \<in> fst ` set (sy_committed i))"

lemma views_okD: "views_ok i \<Longrightarrow> sy_phase i j = p \<Longrightarrow> holding_view p = Some v \<Longrightarrow> db_ok v"
  by (auto simp: views_ok_def)

lemma step_views_ok:
  assumes "ingest_step faults pg snaps n i i'" "views_ok i"
  shows "views_ok i'"
  using assms(1)
proof (cases rule: ingest_step.cases)
  case (upsert j t b bs v now v')
  then have "db_ok v" using views_okD [OF assms(2)] by simp
  then have "db_ok v'" using upsert upsert_items_stmt_ok [of v pg b now] by simp
  then show ?thesis using upsert assms(2) by (auto simp: views_ok_def)
next
  case (metadata j t v now v')
  then have "db_ok v" using views_okD [OF assms(2)] by simp
  then have "db_ok v'" using metadata
      upsert_metadata_stmt_ok [of v "snap_dataset_version (snaps j)" "snap_game_version (snaps j)" t now] by simp
  then show ?thesis using metadata assms(2) by (auto simp: views_ok_def)
next
  case (decide j t v)
  then show ?thesis using assms(2) views_okD [OF assms(2)] by (auto simp: views_ok_def decided_holds)
next
  case (commit j t v)
  then show ?thesis using assms(2) views_okD [OF assms(2)] by (auto simp: views_ok_def)
next
  case (lose_commit j t v)
  then show ?thesis using assms(2) views_okD [OF assms(2)] by (auto simp: views_ok_def)
next
  case (fail_holding j v v')
  then show ?thesis using assms(2) by (auto simp: views_ok_def rolled_back_def intro!: db_ok_seq)
qed (use assms(2) in \<open>auto simp: views_ok_def\<close>)

lemma decided_not_done: "decided snapshot t v \<noteq> Done r"
  by (simp add: decided_def split: option.split)

lemma step_done_committed:
  assumes "ingest_step faults pg snaps n i i'" "done_committed i"
  shows "done_committed i'"
  using assms(1)
  by (cases rule: ingest_step.cases)
     (use assms(2) decided_not_done in \<open>auto simp: done_committed_def\<close>)

text \<open>A step either commits, and appends to the history, or leaves the tables.\<close>

lemma step_commits:
  assumes "ingest_step faults pg snaps n i i'"
  shows "(\<exists>j t. sy_committed i' = sy_committed i @ [(j, t)]) \<or>
    sy_committed i' = sy_committed i \<and> same_tables (sy_database i') (sy_database i)"
  using assms
  by (cases rule: ingest_step.cases) (auto simp: same_tables_def rolled_back_def)

definition history_ok :: "(nat \<Rightarrow> item_snapshot) \<Rightarrow> catalogue \<Rightarrow> system \<Rightarrow> database list \<Rightarrow> bool" where
  "history_ok snaps cat i h \<longleftrightarrow>
     length h = Suc (length (sy_committed i)) \<and> same_tables (last h) (sy_database i) \<and> list_all db_ok h \<and>
     (\<forall>k \<le> length (sy_committed i). catalogue_of (h ! k) = serial snaps (take k (sy_committed i)) cat)"

lemma step_history_ok:
  assumes stp: "ingest_step faults pg snaps n i i'" and h: "history_ok snaps cat i h" and views: "views_ok i"
    and ok: "system_ok snaps i"
  shows "history_ok snaps cat i'
    (if sy_committed i' = sy_committed i then h else h @ [sy_database i'])"
proof -
  have "h \<noteq> []" using h by (auto simp: history_ok_def)
  then have "catalogue_of (last h) = serial snaps (sy_committed i) cat"
    using h by (simp add: history_ok_def last_conv_nth)
  then have cat: "catalogue_of (sy_database i) = serial snaps (sy_committed i) cat"
    using h answers_tables(4) [of "last h" "sy_database i"] by (metis history_ok_def)
  from stp have "sy_committed i' = sy_committed i \<and> same_tables (sy_database i') (sy_database i) \<or>
    (\<exists>j t. sy_committed i' = sy_committed i @ [(j, t)] \<and> catalogue_of (sy_database i') =
       ingested (snaps j) t (catalogue_of (sy_database i)))"
  proof (cases rule: ingest_step.cases)
    case (commit j t v)
    then show ?thesis using ok by (auto simp: system_ok_def progress_ok_def split: phase.splits)
  next
    case (lose_commit j t v)
    then show ?thesis using ok by (auto simp: system_ok_def progress_ok_def split: phase.splits)
  qed (auto simp: same_tables_def rolled_back_def)
  then show ?thesis
  proof
    assume "sy_committed i' = sy_committed i \<and> same_tables (sy_database i') (sy_database i)"
    then show ?thesis using h by (simp add: history_ok_def same_tables_def)
  next
    assume "\<exists>j t. sy_committed i' = sy_committed i @ [(j, t)] \<and>
      catalogue_of (sy_database i') = ingested (snaps j) t (catalogue_of (sy_database i))"
    then obtain j t where c: "sy_committed i' = sy_committed i @ [(j, t)]"
      "catalogue_of (sy_database i') = ingested (snaps j) t (catalogue_of (sy_database i))" by blast
    have "db_ok (sy_database i')" using step_views_ok [OF stp views] by (simp add: views_ok_def)
    then show ?thesis
      using h c cat by (auto simp: history_ok_def nth_append same_tables_def serial_def le_Suc_eq)
  qed
qed

section \<open>The invariant\<close>

text \<open>\<open>U\<close> holds the listings that are asked for; the digest tells them apart.\<close>

definition config_ok :: "api_config \<Rightarrow> item_list_params set \<Rightarrow> bool" where
  "config_ok c U \<longleftrightarrow>
     pydantic_ok (rc_pydantic (ac_cache c)) \<and> digest_ok (ac_cache c) U \<and> factory_ok (ac_cache c) \<and>
     factory_ok (ac_command_cache c) \<and> (\<forall>j. asked U (ac_queries c j)) \<and>
     (\<forall>i. distinct (map imp_game_id (snap_items (ac_snapshots c i))))"

abbreviation generation_now :: "api_system \<Rightarrow> nat" where
  "generation_now s \<equiv> redis_generation (ap_redis s)"

abbreviation committed_workers :: "api_system \<Rightarrow> (nat \<times> datetime) list" where
  "committed_workers s \<equiv> sy_committed (ap_ingestion s)"

definition floors_ok :: "api_system \<Rightarrow> bool" where
  "floors_ok s \<longleftrightarrow>
     (\<forall>l \<le> generation_now s. ap_floor s l \<le> commits s \<and> (\<forall>k \<le> l. ap_floor s k \<le> ap_floor s l)) \<and>
     ap_checked s \<subseteq> fst ` set (committed_workers s) \<and>
     ap_invalidated s \<subseteq> fst ` set (take (ap_floor s (generation_now s)) (committed_workers s))"

definition base_ok :: "api_config \<Rightarrow> database \<Rightarrow> api_system \<Rightarrow> bool" where
  "base_ok c db s \<longleftrightarrow>
     system_ok (ac_snapshots c) (ap_ingestion s) \<and> views_ok (ap_ingestion s) \<and> done_committed (ap_ingestion s) \<and>
     history_ok (ac_snapshots c) (catalogue_of db) (ap_ingestion s) (ap_history s) \<and>
     generation_at (ap_redis s) (generation_now s) \<and> floors_ok s"

definition entries_ok :: "api_config \<Rightarrow> item_list_params set \<Rightarrow> nat \<Rightarrow> api_system \<Rightarrow> bool" where
  "entries_ok c U lo s \<longleftrightarrow>
     (\<forall>k q t v. lo \<le> k \<longrightarrow> k \<le> MAX_GENERATION \<longrightarrow> asked U q \<longrightarrow>
        entry_text (ap_redis s) (cache_key (str_nat k) (query_suffix (ac_cache c) q)) = Some t \<longrightarrow>
        query_decode (ac_cache c) q t = Some v \<longrightarrow>
        k \<le> generation_now s \<and> v \<in> answers (ac_locale c) q (versions s (ap_floor s k)))"

text \<open>A generation that a request holds, and the oldest version it may answer from.\<close>

definition known :: "api_system \<Rightarrow> nat \<Rightarrow> pystr option \<Rightarrow> bool" where
  "known s lo go \<longleftrightarrow> (\<forall>g. go = Some g \<longrightarrow> (\<exists>k. g = str_nat k \<and> lo \<le> k \<and> k \<le> generation_now s))"

definition since :: "api_system \<Rightarrow> nat \<Rightarrow> pystr option \<Rightarrow> database set" where
  "since s lo go = versions s (case go of None \<Rightarrow> ap_floor s lo | Some g \<Rightarrow> ap_floor s (int_of_digits g))"

fun phase_ok :: "api_config \<Rightarrow> api_system \<Rightarrow> nat \<Rightarrow> query \<Rightarrow> request_phase \<Rightarrow> bool" where
  "phase_ok c s lo q Asked = True"
| "phase_ok c s lo q (Probing g) = known s lo (Some g)"
| "phase_ok c s lo q (Confirming g p) =
     (known s lo (Some g) \<and> (\<exists>t. payload_text (Some p) = Inr t \<and>
        (\<forall>x v. t = Some x \<longrightarrow> query_decode (ac_cache c) q x = Some v \<longrightarrow>
           v \<in> answers (ac_locale c) q (since s lo (Some g)))))"
| "phase_ok c s lo q (Loading go) = known s lo go"
| "phase_ok c s lo q (Counting go items) =
     (known s lo go \<and> (\<exists>p D. q = ListQuery p \<and> D \<in> since s lo go \<and> items = lr_items (list_answer (ac_locale c) p D)))"
| "phase_ok c s lo q (Storing go v) = (known s lo go \<and> v \<in> answers (ac_locale c) q (since s lo go))"
| "phase_ok c s lo q (Answered r) =
     (case r of Inr v \<Rightarrow> v \<in> answers (ac_locale c) q (since s lo None) | Inl e \<Rightarrow> refusal q (since s lo None) e)"

definition api_ok :: "api_config \<Rightarrow> item_list_params set \<Rightarrow> database \<Rightarrow> nat \<Rightarrow> api_system \<Rightarrow> bool" where
  "api_ok c U db lo s \<longleftrightarrow>
     base_ok c db s \<and> lo \<le> generation_now s \<and> entries_ok c U lo s \<and>
     (\<forall>j. phase_ok c s lo (ac_queries c j) (ap_request s j))"

section \<open>The passage of time\<close>

definition evolves :: "api_system \<Rightarrow> api_system \<Rightarrow> bool" where
  "evolves s s' \<longleftrightarrow>
     prefix (ap_history s) (ap_history s') \<and> prefix (committed_workers s) (committed_workers s') \<and>
     generation_now s \<le> generation_now s' \<and> (\<forall>k \<le> generation_now s. ap_floor s' k = ap_floor s k)"

lemma evolves_refl: "evolves s s"
  by (simp add: evolves_def)

lemma evolves_trans: "evolves s s' \<Longrightarrow> evolves s' s'' \<Longrightarrow> evolves s s''"
  unfolding evolves_def by (auto intro: prefix_order.trans)

lemma evolves_versions: "evolves s s' \<Longrightarrow> versions s k \<subseteq> versions s' k"
  by (auto simp: evolves_def versions_def prefix_def)

lemma evolves_known: "evolves s s' \<Longrightarrow> known s lo go \<Longrightarrow> known s' lo go"
  unfolding known_def evolves_def using order_trans by blast

lemma evolves_since:
  assumes "evolves s s'" "known s lo go" "lo \<le> generation_now s"
  shows "since s lo go \<subseteq> since s' lo go"
proof -
  have "(case go of None \<Rightarrow> ap_floor s' lo | Some g \<Rightarrow> ap_floor s' (int_of_digits g)) =
      (case go of None \<Rightarrow> ap_floor s lo | Some g \<Rightarrow> ap_floor s (int_of_digits g))"
    using assms by (auto simp: known_def evolves_def split: option.split)
  then show ?thesis using evolves_versions [OF assms(1)] by (simp add: since_def)
qed

lemma refusal_mono: "refusal q Ds e \<Longrightarrow> Ds \<subseteq> Es \<Longrightarrow> refusal q Es e"
  unfolding refusal_def by blast

lemma known_None [simp]: "known s lo None"
  by (simp add: known_def)

lemma phase_ok_evolves:
  assumes "evolves s s'" "lo \<le> generation_now s" "phase_ok c s lo q ph"
  shows "phase_ok c s' lo q ph"
proof -
  note later = evolves_known [OF assms(1)] evolves_since [OF assms(1) _ assms(2)]
  have answers: "v \<in> answers (ac_locale c) q (since s' lo go)"
    if "known s lo go" "v \<in> answers (ac_locale c) q (since s lo go)" for go v
    using that later(2) answers_mono by blast
  show ?thesis
  proof (cases ph)
    case (Counting go items)
    then show ?thesis using assms(3) later(1) [of lo go] later(2) [of go] by (auto dest: subsetD)
  next
    case (Answered r)
    then show ?thesis using assms(3) answers [of None] later(2) [of None]
      by (cases r) (auto intro: refusal_mono)
  qed (use assms(3) later answers in auto)
qed

section \<open>The versions that are in reach\<close>

lemma versions_db_ok: "base_ok c db s \<Longrightarrow> D \<in> versions s k \<Longrightarrow> db_ok D"
  by (auto simp: base_ok_def history_ok_def versions_def list_all_iff dest: in_set_dropD)

lemma since_db_ok: "base_ok c db s \<Longrightarrow> D \<in> since s lo go \<Longrightarrow> db_ok D"
  unfolding since_def by (rule versions_db_ok)

lemma current_version:
  assumes "base_ok c db s" "k \<le> commits s"
  shows "\<exists>D \<in> versions s k. same_tables D (sy_database (ap_ingestion s))"
proof -
  have h: "length (ap_history s) = Suc (commits s)"
    "same_tables (last (ap_history s)) (sy_database (ap_ingestion s))"
    using assms(1) by (simp_all add: base_ok_def history_ok_def commits_def)
  then have "drop k (ap_history s) \<noteq> []" using assms(2) by simp
  then have "last (ap_history s) \<in> versions s k"
    using last_in_set [of "drop k (ap_history s)"] by (simp add: versions_def)
  then show ?thesis using h(2) by blast
qed

lemma floor_commits: "base_ok c db s \<Longrightarrow> k \<le> generation_now s \<Longrightarrow> ap_floor s k \<le> commits s"
  by (simp add: base_ok_def floors_ok_def)

lemma current_since:
  assumes "base_ok c db s" "lo \<le> generation_now s" "known s lo go"
  shows "\<exists>D \<in> since s lo go. same_tables D (sy_database (ap_ingestion s))"
  unfolding since_def using assms
  by (intro current_version [OF assms(1)]) (auto simp: known_def floor_commits [OF assms(1)] split: option.split)

text \<open>A generation read now is at least as good as the lower bound.\<close>

lemma known_now: "lo \<le> generation_now s \<Longrightarrow> known s lo (Some (str_nat (generation_now s)))"
  by (auto simp: known_def)

lemma since_lower:
  assumes "base_ok c db s" "known s lo go" "lo \<le> generation_now s"
  shows "since s lo go \<subseteq> since s lo None"
proof (cases go)
  case (Some g)
  then obtain k where "g = str_nat k" "lo \<le> k" "k \<le> generation_now s" using assms(2) by (auto simp: known_def)
  moreover from this have "ap_floor s lo \<le> ap_floor s k" using assms(1) by (simp add: base_ok_def floors_ok_def)
  ultimately show ?thesis using Some set_drop_subset_set_drop by (simp add: since_def versions_def)
qed simp

section \<open>What a step does to Redis\<close>

inductive redis_change ::
  "api_config \<Rightarrow> item_list_params set \<Rightarrow> nat \<Rightarrow> api_system \<Rightarrow> redis_store \<Rightarrow> (nat \<Rightarrow> nat) \<Rightarrow> bool"
  for c U lo s where
  kept: "redis_change c U lo s (ap_redis s) (ap_floor s)"
| expired: "k \<noteq> CACHE_GENERATION_KEY \<Longrightarrow> redis_change c U lo s ((ap_redis s)(k := None)) (ap_floor s)"
| written: "known s lo (Some g) \<Longrightarrow> v \<in> answers (ac_locale c) q (since s lo (Some g)) \<Longrightarrow> asked U q \<Longrightarrow>
    utf8_encode (encode_payload (ac_cache c) (query_suffix (ac_cache c) q) v) = Some b \<Longrightarrow>
    length b \<le> MAX_CACHE_PAYLOAD_BYTES \<Longrightarrow>
    redis_change c U lo s ((ap_redis s)(cache_key g (query_suffix (ac_cache c) q) \<mapsto> (b, Some ttl))) (ap_floor s)"
| incremented: "generation_now s < MAX_GENERATION \<Longrightarrow>
    redis_change c U lo s ((ap_redis s)(CACHE_GENERATION_KEY \<mapsto> (str_nat (Suc (generation_now s)), ttl)))
      ((ap_floor s)(Suc (generation_now s) := commits s))"

lemma phase_payload: "phase_ok c s lo q (Confirming g p) \<Longrightarrow> \<exists>t. payload_text (Some p) = Inr t"
  by auto

lemma step_redis:
  assumes cfg: "config_ok c U" and ok: "api_ok c U db lo s" and stp: "api_step c s s'"
  shows "redis_change c U lo s (ap_redis s') (ap_floor s')"
proof -
  have base: "base_ok c db s" and phases: "\<And>j. phase_ok c s lo (ac_queries c j) (ap_request s j)"
    using ok by (simp_all add: api_ok_def)
  have gen: "generation_at (ap_redis s) (generation_now s)" using base by (simp add: base_ok_def)
  have cache: "factory_ok (ac_cache c)" "factory_ok (ac_command_cache c)" "digest_ok (ac_cache c) U"
    "pydantic_ok (rc_pydantic (ac_cache c))" and asked: "\<And>j. asked U (ac_queries c j)"
    using cfg by (simp_all add: config_ok_def)
  from stp show ?thesis
  proof (cases rule: api_step.cases)
    case (ingestion i')
    then show ?thesis by (auto intro: kept)
  next
    case (check i t w g w')
    then have "redis w' = ap_redis s"
      using generation_step [OF check(3) gen cache(2) check(4)] redis_rely_redis [of "\<lambda>st. st = ap_redis s" w'] by blast
    then show ?thesis using check by (auto intro: kept)
  next
    case (increment i w r w')
    consider "redis w' = ap_redis s"
      | ttl where "generation_now s < MAX_GENERATION"
        "redis w' = (ap_redis s)(CACHE_GENERATION_KEY \<mapsto> (str_nat (Suc (generation_now s)), ttl))"
      using increment_step [OF increment(3) gen increment(4)] by blast
    then show ?thesis
    proof cases
      case 1
      then show ?thesis using increment by (auto simp: moved_def intro: kept)
    next
      case 2
      have "generation_at (redis w') (Suc (generation_now s))" using 2 by (simp add: generation_at_def)
      then have "moved s (redis w') = (ap_floor s)(Suc (generation_now s) := commits s)"
        using generation_at_value [of "redis w'"] by (simp add: moved_def)
      then show ?thesis using 2 increment by (auto intro: incremented)
    qed
  next
    case (read j w r w')
    have "redis w' = ap_redis s"
      using read_step_run [OF read(3) gen cache(1) read(2,4)] phases [of j] phase_payload by metis
    then show ?thesis using read by (auto intro: kept)
  next
    case (load j w r w')
    then show ?thesis by (auto intro: kept)
  next
    case (store j g v w r w')
    have v: "known s lo g" "v \<in> answers (ac_locale c) (ac_queries c j) (since s lo g)"
      using phases [of j] store(2) by simp_all
    have "redis w' = ap_redis s \<or> (\<exists>h b ttl. g = Some h \<and>
        utf8_encode (encode_payload (ac_cache c) (query_suffix (ac_cache c) (ac_queries c j)) v) = Some b \<and>
        length b \<le> MAX_CACHE_PAYLOAD_BYTES \<and>
        redis w' = (ap_redis s)(cache_key h (query_suffix (ac_cache c) (ac_queries c j)) \<mapsto> (b, Some ttl)))"
      using store_step [OF store(3) v(2) _ asked cache(3,4) store(4)] since_db_ok [OF base] by blast
    then show ?thesis
    proof (elim disjE exE conjE)
      assume "redis w' = ap_redis s"
      then show ?thesis using store by (simp add: kept)
    next
      fix h b ttl
      assume w: "g = Some h" "utf8_encode (encode_payload (ac_cache c) (query_suffix (ac_cache c) (ac_queries c j)) v) = Some b"
        "length b \<le> MAX_CACHE_PAYLOAD_BYTES"
        "redis w' = (ap_redis s)(cache_key h (query_suffix (ac_cache c) (ac_queries c j)) \<mapsto> (b, Some ttl))"
      show ?thesis using written [OF v [unfolded w(1)] asked w(2,3)] store(1) w(4) by simp
    qed
  next
    case (expire k)
    then show ?thesis by (auto intro: expired)
  qed
qed

text \<open>The generation stays, with its floors, or grows by one and gets the present number of
  commits as its floor.\<close>

lemma change_generation:
  assumes "redis_change c U lo s st fl" "generation_at (ap_redis s) (generation_now s)"
  shows "redis_generation st = generation_now s \<and> fl = ap_floor s \<and> generation_at st (generation_now s) \<or>
    redis_generation st = Suc (generation_now s) \<and> fl = (ap_floor s)(Suc (generation_now s) := commits s) \<and>
    generation_at st (Suc (generation_now s))"
  using assms(1)
proof cases
  case (incremented ttl)
  then have "generation_at st (Suc (generation_now s))" by (simp add: generation_at_def)
  then show ?thesis using incremented generation_at_value by blast
next
  case (expired k)
  then have "generation_at st (generation_now s)" using assms(2) by (simp add: generation_at_def)
  then show ?thesis using expired generation_at_value by blast
next
  case (written g v q b ttl)
  then have "generation_at st (generation_now s)" using assms(2) by (simp add: generation_at_def)
  then show ?thesis using written generation_at_value by blast
qed (use assms(2) in simp)

lemma step_ingestion:
  "api_step c s s' \<Longrightarrow>
     ap_ingestion s' = ap_ingestion s \<and> ap_history s' = ap_history s \<or>
     ingest_step (ac_faults c) (ac_pg c) (ac_snapshots c) (ac_workers c) (ap_ingestion s) (ap_ingestion s') \<and>
     ap_history s' = (if committed_workers s' = committed_workers s then ap_history s
       else ap_history s @ [sy_database (ap_ingestion s')])"
  by (erule api_stepE) simp_all

lemma step_committed: "api_step c s s' \<Longrightarrow> prefix (committed_workers s) (committed_workers s')"
  using step_ingestion [of c s s']
  by (auto simp: prefix_def dest: step_commits)

lemma step_checked:
  assumes "api_step c s s'" "base_ok c db s"
  shows "ap_checked s' \<subseteq> fst ` set (committed_workers s')"
proof -
  have "ap_checked s \<subseteq> fst ` set (committed_workers s)" "done_committed (ap_ingestion s)"
    using assms(2) by (simp_all add: base_ok_def floors_ok_def)
  moreover have "fst ` set (committed_workers s) \<subseteq> fst ` set (committed_workers s')"
    using step_committed [OF assms(1)] by (intro image_mono set_mono_prefix)
  moreover have "ap_checked s' = ap_checked s \<or>
      (\<exists>i t. sy_phase (ap_ingestion s) i = Done t \<and> ap_checked s' = insert i (ap_checked s))"
    using assms(1) by (cases rule: api_step.cases) auto
  ultimately show ?thesis unfolding done_committed_def by blast
qed

text \<open>Only an increment marks a worker as having invalidated, and the marked worker has
  committed before it.\<close>

lemma step_invalidated:
  assumes "api_step c s s'" "base_ok c db s"
  shows "ap_invalidated s' = ap_invalidated s \<or>
    generation_now s' = Suc (generation_now s) \<and> ap_invalidated s' \<subseteq> ap_checked s \<union> ap_invalidated s"
  using assms(1)
proof (cases rule: api_step.cases)
  case (increment i w r w')
  have gen: "generation_at (ap_redis s) (generation_now s)" using assms(2) by (simp add: base_ok_def)
  show ?thesis
  proof (cases r)
    case (Inr x)
    then obtain ttl where "generation_now s < MAX_GENERATION"
      "redis w' = (ap_redis s)(CACHE_GENERATION_KEY \<mapsto> (str_nat (Suc (generation_now s)), ttl))"
      using increment_step [OF increment(3) gen increment(4)] by auto
    then have "generation_at (redis w') (Suc (generation_now s))" by (simp add: generation_at_def)
    then show ?thesis using increment Inr generation_at_value by auto
  qed (use increment in simp)
qed simp_all

lemma step_evolves:
  assumes "config_ok c U" "api_ok c U db lo s" "api_step c s s'"
  shows "evolves s s'"
proof -
  have "generation_at (ap_redis s) (generation_now s)" using assms(2) by (simp add: api_ok_def base_ok_def)
  from change_generation [OF step_redis [OF assms] this]
  have "generation_now s \<le> generation_now s' \<and> (\<forall>k \<le> generation_now s. ap_floor s' k = ap_floor s k)" by auto
  moreover have "prefix (ap_history s) (ap_history s')"
    using step_ingestion [OF assms(3)] by (auto simp: prefix_def)
  ultimately show ?thesis using step_committed [OF assms(3)] by (simp add: evolves_def)
qed

lemma step_floors:
  assumes "config_ok c U" "api_ok c U db lo s" "api_step c s s'"
  shows "floors_ok s'"
proof -
  let ?G = "generation_now s"
  have base: "base_ok c db s" and gen: "generation_at (ap_redis s) ?G" and fl: "floors_ok s"
    using assms(2) by (simp_all add: api_ok_def base_ok_def)
  have pre: "prefix (committed_workers s) (committed_workers s')" by (rule step_committed [OF assms(3)])
  then have more: "commits s \<le> commits s'" by (simp add: commits_def prefix_length_le)
  have part: "take k (committed_workers s') = take k (committed_workers s)" if "k \<le> commits s" for k
    using pre that by (auto simp: prefix_def commits_def)
  have checked: "ap_checked s' \<subseteq> fst ` set (committed_workers s')" by (rule step_checked [OF assms(3) base])
  from change_generation [OF step_redis [OF assms] gen] show ?thesis
  proof
    assume same: "generation_now s' = ?G \<and> ap_floor s' = ap_floor s \<and> generation_at (ap_redis s') ?G"
    then have "ap_invalidated s' = ap_invalidated s" using step_invalidated [OF assms(3) base] by simp
    then show ?thesis
      using same fl checked more part [of "ap_floor s ?G"] by (auto simp: floors_ok_def intro: order_trans)
  next
    assume next_one: "generation_now s' = Suc ?G \<and> ap_floor s' = (ap_floor s)(Suc ?G := commits s) \<and>
      generation_at (ap_redis s') (Suc ?G)"
    have "ap_invalidated s \<subseteq> fst ` set (committed_workers s)"
      using fl set_take_subset [of "ap_floor s ?G" "committed_workers s"] unfolding floors_ok_def by blast
    then have "ap_invalidated s' \<subseteq> fst ` set (committed_workers s)"
      using step_invalidated [OF assms(3) base] fl by (auto simp: floors_ok_def)
    then show ?thesis
      using next_one fl checked more part [of "commits s"]
      by (auto simp: floors_ok_def commits_def le_Suc_eq intro: order_trans)
  qed
qed

lemma step_base:
  assumes "config_ok c U" "api_ok c U db lo s" "api_step c s s'"
  shows "base_ok c db s'"
proof -
  have base: "base_ok c db s" using assms(2) by (simp add: api_ok_def)
  have snaps: "\<And>i. distinct (map imp_game_id (snap_items (ac_snapshots c i)))"
    using assms(1) by (simp add: config_ok_def)
  have "generation_at (ap_redis s') (generation_now s')"
    using change_generation [OF step_redis [OF assms]] base by (auto simp: base_ok_def)
  moreover have "system_ok (ac_snapshots c) (ap_ingestion s') \<and> views_ok (ap_ingestion s') \<and>
      done_committed (ap_ingestion s') \<and>
      history_ok (ac_snapshots c) (catalogue_of db) (ap_ingestion s') (ap_history s')"
    using step_ingestion [OF assms(3)] base step_ok [OF snaps] step_views_ok step_done_committed step_history_ok
    by (auto simp: base_ok_def)
  ultimately show ?thesis using step_floors [OF assms] by (simp add: base_ok_def)
qed

section \<open>What the entries hold\<close>

lemma entry_text_cong: "st key = st' key \<Longrightarrow> entry_text st key = entry_text st' key"
  by (simp add: entry_text_def redis_bytes_def)

lemma entry_text_missing: "st key = None \<Longrightarrow> entry_text st key = Some []"
  by (simp add: entry_text_def redis_bytes_def)

lemma entry_text_set:
  "utf8_encode t = Some b \<Longrightarrow> length b \<le> MAX_CACHE_PAYLOAD_BYTES \<Longrightarrow> entry_text (st(key \<mapsto> (b, ttl))) key = Some t"
  by (simp add: entry_text_def redis_bytes_def utf8_roundtrip)

lemma query_decode_empty: "pydantic_ok (rc_pydantic rc) \<Longrightarrow> query_decode rc q [] = None"
  by (cases q) (simp_all add: decode_payload_def pydantic_laws(7))

text \<open>An entry after a step is one that was there, or nothing, or the one written.\<close>

lemma change_entry:
  assumes "redis_change c U lo s st fl" "digest_ok (ac_cache c) U" "asked U q" "k \<le> MAX_GENERATION"
    "generation_now s \<le> MAX_GENERATION"
    "entry_text st (cache_key (str_nat k) (query_suffix (ac_cache c) q)) = Some t"
  shows "t = [] \<or> entry_text (ap_redis s) (cache_key (str_nat k) (query_suffix (ac_cache c) q)) = Some t \<or>
    (\<exists>v. known s lo (Some (str_nat k)) \<and> v \<in> answers (ac_locale c) q (since s lo (Some (str_nat k))) \<and>
       t = encode_payload (ac_cache c) (query_suffix (ac_cache c) q) v)"
  using assms(1)
proof cases
  case (expired j)
  then show ?thesis
    using assms(6) entry_text_missing [of st j]
    by (cases "j = cache_key (str_nat k) (query_suffix (ac_cache c) q)") (auto cong: entry_text_cong)
next
  case (written g v q' b ttl)
  let ?key = "cache_key (str_nat k) (query_suffix (ac_cache c) q)"
  show ?thesis
  proof (cases "cache_key g (query_suffix (ac_cache c) q') = ?key")
    case True
    obtain m where "g = str_nat m" "m \<le> MAX_GENERATION"
      using written(3) assms(5) by (auto simp: known_def)
    then have "g = str_nat k" "query_suffix (ac_cache c) q' = query_suffix (ac_cache c) q"
      using cache_key_inject [of g "str_nat k"] True assms(4) generation_text_str_nat by auto
    moreover from this have "q' = q" using asked_suffix_inject [OF assms(2) written(5) assms(3)] by simp
    ultimately show ?thesis using written assms(6) True entry_text_set [OF written(6,7)] by auto
  next
    case False
    then have "entry_text st ?key = entry_text (ap_redis s) ?key"
      using written(1) by (intro entry_text_cong) simp
    then show ?thesis using assms(6) by simp
  qed
next
  case (incremented ttl)
  then have "entry_text st (cache_key (str_nat k) (query_suffix (ac_cache c) q)) =
      entry_text (ap_redis s) (cache_key (str_nat k) (query_suffix (ac_cache c) q))"
    by (intro entry_text_cong) simp
  then show ?thesis using assms(6) by simp
qed (use assms(6) in simp)

lemma step_entries:
  assumes "config_ok c U" "api_ok c U db lo s" "api_step c s s'"
  shows "entries_ok c U lo s'"
  unfolding entries_ok_def
proof (intro allI impI)
  fix k q t v
  let ?key = "cache_key (str_nat k) (query_suffix (ac_cache c) q)"
  assume k: "lo \<le> k" "k \<le> MAX_GENERATION" and q: "asked U q"
    and t: "entry_text (ap_redis s') ?key = Some t" and v: "query_decode (ac_cache c) q t = Some v"
  have base: "base_ok c db s" and entries: "entries_ok c U lo s" using assms(2) by (simp_all add: api_ok_def)
  have cache: "pydantic_ok (rc_pydantic (ac_cache c))" "digest_ok (ac_cache c) U"
    using assms(1) by (simp_all add: config_ok_def)
  have "generation_now s \<le> MAX_GENERATION" using base by (simp add: base_ok_def generation_at_def)
  note cases = change_entry [OF step_redis [OF assms] cache(2) q k(2) this t]
  have ev: "evolves s s'" by (rule step_evolves [OF assms])
  have "k \<le> generation_now s \<and> v \<in> answers (ac_locale c) q (versions s (ap_floor s k))"
    using cases
  proof (elim disjE exE conjE)
    assume "t = []"
    then show ?thesis using v query_decode_empty [OF cache(1)] by simp
  next
    assume "entry_text (ap_redis s) ?key = Some t"
    then show ?thesis using entries k q v unfolding entries_ok_def by blast
  next
    fix x
    assume x: "known s lo (Some (str_nat k))" "x \<in> answers (ac_locale c) q (since s lo (Some (str_nat k)))"
      "t = encode_payload (ac_cache c) (query_suffix (ac_cache c) q) x"
    have "query_decode (ac_cache c) q t = Some x"
      using answer_encoding(1) [OF x(2) _ q cache(2,1)] since_db_ok [OF base] x(3) by blast
    moreover have "k \<le> generation_now s"
      using x(1) str_nat_inject by (auto simp: known_def)
    ultimately show ?thesis using v x(2) by (simp add: since_def)
  qed
  moreover have "versions s (ap_floor s k) \<subseteq> versions s' (ap_floor s' k) \<and> k \<le> generation_now s'"
    if "k \<le> generation_now s"
    using ev that evolves_versions [OF ev] by (simp add: evolves_def)
  ultimately show "k \<le> generation_now s' \<and> v \<in> answers (ac_locale c) q (versions s' (ap_floor s' k))"
    using answers_mono by blast
qed

section \<open>What the requests carry\<close>

lemma answers_same_tables: "same_tables D D' \<Longrightarrow> answers loc q {D} = answers loc q {D'}"
  using answers_tables [of D D'] by (cases q) auto

lemma refusal_same_tables: "same_tables D D' \<Longrightarrow> refusal q {D} e = refusal q {D'} e"
  using answers_tables(1) [of D D'] by (auto simp: refusal_def)

lemma read_phase_ok:
  assumes "read_result (ac_cache c) (ap_redis s) (generation_now s) q ph ph'" "phase_ok c s lo q ph"
    "base_ok c db s" "entries_ok c U n s" "n \<le> lo" "lo \<le> generation_now s" "asked U q"
  shows "phase_ok c s lo q ph'"
  using assms(1) unfolding read_result_def
proof (elim disjE exE conjE)
  fix g p t
  assume ph: "ph = Probing g" "ph' = Confirming g p" "payload_text (Some p) = Inr t"
    and t: "\<forall>x. t = Some x \<longrightarrow> entry_text (ap_redis s) (cache_key g (query_suffix (ac_cache c) q)) = Some x"
  obtain k where k: "g = str_nat k" "lo \<le> k" "k \<le> generation_now s"
    using assms(2) ph(1) by (auto simp: known_def)
  have "generation_now s \<le> MAX_GENERATION" using assms(3) by (simp add: base_ok_def generation_at_def)
  then have "v \<in> answers (ac_locale c) q (since s lo (Some g))"
    if "t = Some x" "query_decode (ac_cache c) q x = Some v" for x v
    using that t k assms(4,5,7) unfolding entries_ok_def since_def by auto
  then show ?thesis using ph assms(2) by auto
next
  fix p x v
  assume ph: "ph = Confirming (str_nat (generation_now s)) p" "payload_text (Some p) = Inr (Some x)"
    "query_decode (ac_cache c) q x = Some v" "ph' = Answered (Inr v)"
  then have "v \<in> answers (ac_locale c) q (since s lo (Some (str_nat (generation_now s))))"
    using assms(2) by auto
  then show ?thesis
    using ph(4) answers_mono [OF since_lower [OF assms(3) known_now [OF assms(6)] assms(6)]] by auto
qed (use assms(2) known_now [OF assms(6)] in auto)

lemma load_phase_ok:
  assumes "observes s w" "is_loading ph" "load_step (ac_locale c) q ph w = (r, w')" "phase_ok c s lo q ph"
    "base_ok c db s" "lo \<le> generation_now s"
  shows "phase_ok c s lo q (after_load r)"
proof -
  let ?D = "sy_database (ap_ingestion s)"
  have ok: "db_ok ?D" using assms(5) by (simp add: base_ok_def views_ok_def)
  note run = load_step_run [OF assms(1-3) refl ok]
  obtain go where go: "known s lo go" "(\<exists>items. ph = Counting go items) \<or> ph = Loading go"
    using assms(2,4) by (cases ph) auto
  obtain D where D: "D \<in> since s lo go" "same_tables D ?D"
    using current_since [OF assms(5,6) go(1)] by blast
  have here: "D \<in> since s lo None" using D(1) since_lower [OF assms(5) go(1) assms(6)] by blast
  show ?thesis
  proof (cases r)
    case (Inl e)
    then have "refusal q {D} e" using run refusal_same_tables [OF D(2)] by simp
    then have "refusal q (since s lo None) e" by (rule refusal_mono) (use here in simp)
    then show ?thesis using Inl by (simp add: after_load_def)
  next
    case (Inr ph')
    show ?thesis
    proof (cases ph)
      case (Loading go')
      then have "go' = go" using go(2) by simp
      moreover have "answers (ac_locale c) q {?D} \<subseteq> answers (ac_locale c) q (since s lo go)"
        using answers_mono [of "{D}" "since s lo go"] D(1) answers_same_tables [OF D(2)] by simp
      ultimately show ?thesis
        using run Inr Loading go(1) D answers_tables(2) [OF D(2)] by (auto simp: after_load_def) metis
    next
      case (Counting go' items)
      then have eq: "go' = go" using go(2) by simp
      obtain p E where p: "q = ListQuery p" "E \<in> since s lo go" "items = lr_items (list_answer (ac_locale c) p E)"
        using assms(4) Counting eq by auto
      have "list_answer (ac_locale c) p ?D\<lparr>lr_items := items\<rparr> =
          list_answer (ac_locale c) p E\<lparr>lr_total := lr_total (list_answer (ac_locale c) p D)\<rparr>"
        using p(3) answers_tables(2) [OF D(2)] by (simp add: list_answer_def)
      then have "CList (list_answer (ac_locale c) p ?D\<lparr>lr_items := items\<rparr>) \<in> answers (ac_locale c) q (since s lo go)"
        using p(1,2) D(1) by auto
      then show ?thesis
        using run Inr Counting go(1) p eq by (auto simp: after_load_def simp del: answers.simps)
    qed (use assms(2) in simp_all)
  qed
qed

lemma step_phase:
  assumes cfg: "config_ok c U" and ok: "api_ok c U db n s" and stp: "api_step c s s'"
    and lo: "n \<le> lo" "lo \<le> generation_now s" and ph: "phase_ok c s lo (ac_queries c j) (ap_request s j)"
  shows "phase_ok c s' lo (ac_queries c j) (ap_request s' j)"
proof (rule phase_ok_evolves [OF step_evolves [OF cfg ok stp] lo(2)])
  have base: "base_ok c db s" and entries: "entries_ok c U n s" using ok by (simp_all add: api_ok_def)
  have gen: "generation_at (ap_redis s) (generation_now s)" using base by (simp add: base_ok_def)
  have cache: "factory_ok (ac_cache c)" "digest_ok (ac_cache c) U" "pydantic_ok (rc_pydantic (ac_cache c))"
    and asked: "asked U (ac_queries c j)" using cfg by (simp_all add: config_ok_def)
  from stp show "phase_ok c s lo (ac_queries c j) (ap_request s' j)"
  proof (cases rule: api_step.cases)
    case (read i w r w')
    have "phase_ok c s lo (ac_queries c j) (after_read r)" if "i = j"
    proof -
      have "\<exists>t. payload_text (Some p) = Inr t" if "ap_request s i = Confirming g p" for g p
        using phase_payload [of c s lo "ac_queries c j" g p] ph that \<open>i = j\<close> by simp
      then have "redis w' = ap_redis s \<and> (case r of Inl e \<Rightarrow> CACHE_FAILURES e
        | Inr ph' \<Rightarrow> read_result (ac_cache c) (ap_redis s) (generation_now s) (ac_queries c i) (ap_request s i) ph')"
        by (rule read_step_run [OF read(3) gen cache(1) read(2,4)])
      then show ?thesis
        using that read_phase_ok [OF _ ph base entries lo asked] by (cases r) (simp_all add: after_read_def)
    qed
    then show ?thesis using read ph by (cases "i = j") simp_all
  next
    case (load i w r w')
    then show ?thesis using load load_phase_ok [OF load(3,2,4) _ base lo(2)] ph by (cases "i = j") simp_all
  next
    case (store i g v w r w')
    have "phase_ok c s lo (ac_queries c j) (after_store v r)" if "i = j"
    proof -
      have v: "known s lo g" "v \<in> answers (ac_locale c) (ac_queries c j) (since s lo g)"
        using ph store(2) that by simp_all
      have "\<forall>e. r = Inl e \<longrightarrow> CACHE_FAILURES e"
        using store_step [OF store(3) v(2) _ asked cache(2,3)] store(4) that since_db_ok [OF base] by blast
      then show ?thesis
        using v answers_mono [OF since_lower [OF base v(1) lo(2)]] by (auto simp: after_store_def split: sum.split)
    qed
    then show ?thesis using store ph by (cases "i = j") simp_all
  qed (use ph in simp_all)
qed

lemma step_api_ok:
  assumes "config_ok c U" "api_ok c U db lo s" "api_step c s s'"
  shows "api_ok c U db lo s'"
  using assms step_base [OF assms] step_entries [OF assms] step_phase [OF assms(1,2,3) order_refl]
    step_evolves [OF assms]
  by (auto simp: api_ok_def evolves_def)

section \<open>Requests move forward\<close>

fun request_rank :: "request_phase \<Rightarrow> nat" where
  "request_rank Asked = 6"
| "request_rank (Probing g) = 5"
| "request_rank (Confirming g p) = 4"
| "request_rank (Loading go) = 3"
| "request_rank (Counting go items) = 2"
| "request_rank (Storing go v) = 1"
| "request_rank (Answered r) = 0"

lemma read_rank:
  assumes "observes s w" "base_ok c db s" "factory_ok (ac_cache c)" "is_reading ph"
    "read_step (ac_cache c) q ph w = (r, w')" "phase_ok c s lo q ph"
  shows "request_rank (after_read r) < request_rank ph"
proof -
  have gen: "generation_at (ap_redis s) (generation_now s)" using assms(2) by (simp add: base_ok_def)
  have pay: "\<exists>t. payload_text (Some p) = Inr t" if "ph = Confirming g p" for g p
    using assms(6) that by auto
  have "redis w' = ap_redis s \<and> (case r of Inl e \<Rightarrow> CACHE_FAILURES e
      | Inr ph' \<Rightarrow> read_result (ac_cache c) (ap_redis s) (generation_now s) q ph ph')"
    by (rule read_step_run [OF assms(1) gen assms(3-5)]) (rule pay)
  then show ?thesis
    using assms(4) by (cases r; cases ph) (auto simp: after_read_def read_result_def)
qed

lemma load_rank:
  assumes "observes s w" "base_ok c db s" "is_loading ph" "load_step (ac_locale c) q ph w = (r, w')"
    "phase_ok c s lo q ph"
  shows "request_rank (after_load r) < request_rank ph"
proof -
  have "db_ok (sy_database (ap_ingestion s))" using assms(2) by (simp add: base_ok_def views_ok_def)
  from load_step_run [OF assms(1,3,4) refl this] show ?thesis
    using assms(3,5) by (cases r; cases ph) (auto simp: after_load_def)
qed

lemma store_rank: "request_rank (after_store v r) < request_rank (Storing g v)"
  by (simp add: after_store_def)

text \<open>A step of a request lowers its rank; every request that is not answered has one.\<close>

lemma request_forward:
  assumes "config_ok c U" "api_ok c U db n s" "api_step c s s'"
  shows "ap_request s' j = ap_request s j \<or> request_rank (ap_request s' j) < request_rank (ap_request s j)"
proof -
  have base: "base_ok c db s" and ph: "\<And>i. phase_ok c s n (ac_queries c i) (ap_request s i)"
    using assms(2) by (simp_all add: api_ok_def)
  have factory: "factory_ok (ac_cache c)" using assms(1) by (simp add: config_ok_def)
  from assms(3) show ?thesis
  proof (cases rule: api_step.cases)
    case (read i w r w')
    then show ?thesis using read_rank [OF read(3) base factory read(2,4) ph] by simp
  next
    case (load i w r w')
    then show ?thesis using load_rank [OF load(3) base load(2,4) ph] by simp
  next
    case (store i g v w r w')
    then show ?thesis using store_rank by simp
  qed simp_all
qed

lemma request_enabled:
  assumes "config_ok c U" "api_ok c U db n s"
  shows "(\<exists>r. ap_request s j = Answered r) \<or>
    (\<exists>s'. api_step c s s' \<and> request_rank (ap_request s' j) < request_rank (ap_request s j))"
proof -
  have base: "base_ok c db s" and ph: "phase_ok c s n (ac_queries c j) (ap_request s j)"
    using assms(2) by (simp_all add: api_ok_def)
  have factory: "factory_ok (ac_cache c)" using assms(1) by (simp add: config_ok_def)
  have step: ?thesis if "api_step c s s'" "request_rank (ap_request s' j) < request_rank (ap_request s j)" for s'
    using that by blast
  consider "is_reading (ap_request s j)" | "is_loading (ap_request s j)"
    | g v where "ap_request s j = Storing g v" | r where "ap_request s j = Answered r"
    by (cases "ap_request s j") auto
  then show ?thesis
  proof cases
    case 1
    obtain r w' where run: "read_step (ac_cache c) (ac_queries c j) (ap_request s j) (calm_world s) = (r, w')"
      by fastforce
    show ?thesis
      by (rule step [OF api_step.read [OF 1 calm_observes run]])
        (use read_rank [OF calm_observes base factory 1 run ph] in simp)
  next
    case 2
    obtain r w' where run: "load_step (ac_locale c) (ac_queries c j) (ap_request s j) (calm_world s) = (r, w')"
      by fastforce
    show ?thesis
      by (rule step [OF api_step.load [OF 2 calm_observes run]])
        (use load_rank [OF calm_observes base 2 run ph] in simp)
  next
    case (3 g v)
    obtain r w' where run: "query_store (ac_cache c) (ac_queries c j) v g (calm_world s) = (r, w')"
      by fastforce
    show ?thesis
      by (rule step [OF api_step.store [OF 3 calm_observes run]])
        (use store_rank [of v r g] 3 in simp)
  qed blast
qed

section \<open>Runs\<close>

interpretation api_runs: step_invariant "api_step c"
  "\<lambda>s. config_ok c U \<and> api_ok c U db n s \<and> evolves s0 s"
  for c U db n s0
  by unfold_locales (blast intro: step_api_ok step_evolves evolves_trans)

lemma run_api_ok:
  assumes "(api_step c)\<^sup>*\<^sup>* s s'" "config_ok c U" "api_ok c U db n s"
  shows "api_ok c U db n s' \<and> evolves s s'"
  using api_runs.run [OF assms(1), of U db n s] assms(2,3) evolves_refl by blast

lemma evolves_generation: "evolves s s' \<Longrightarrow> lo \<le> generation_now s \<Longrightarrow> lo \<le> generation_now s'"
  by (simp add: evolves_def)

text \<open>The same for one request and a later bound on the generation.\<close>

interpretation request_runs: step_invariant "api_step c"
  "\<lambda>s. config_ok c U \<and> api_ok c U db n s \<and> n \<le> lo \<and> lo \<le> generation_now s \<and>
     phase_ok c s lo (ac_queries c j) (ap_request s j)"
  for c U db n lo j
  by unfold_locales (blast intro: step_api_ok step_phase evolves_generation step_evolves)

lemma run_phase_ok:
  assumes "(api_step c)\<^sup>*\<^sup>* s s'" "config_ok c U" "api_ok c U db n s" "n \<le> lo" "lo \<le> generation_now s"
    "phase_ok c s lo (ac_queries c j) (ap_request s j)"
  shows "phase_ok c s' lo (ac_queries c j) (ap_request s' j)"
  using request_runs.run [OF assms(1), of U db n lo j] assms(2-) by blast

lemma initial_api_ok:
  assumes "config_ok c U" "db_ok db" "generation_at st n" "no_entries_from n st"
  shows "api_ok c U db n (initial_api db st)"
proof -
  have "query_decode (ac_cache c) q t = None"
    if "entry_text st (cache_key (str_nat k) (query_suffix (ac_cache c) q)) = Some t" "n \<le> k" for k q t
    using that assms(1,4) entry_text_missing [of st] query_decode_empty
    by (auto simp: no_entries_from_def config_ok_def)
  then have "entries_ok c U n (initial_api db st)"
    by (auto simp: entries_ok_def initial_api_def)
  then show ?thesis
    using assms(2,3) generation_at_value [OF assms(3)]
    by (simp add: api_ok_def base_ok_def initial_api_def floors_ok_def history_ok_def views_ok_def
        done_committed_def initial_system_def system_ok_def exclusive_def progress_ok_def same_tables_def serial_def)
qed

end
