(* ===== verification/ApiSamples.thy ===== *)
theory ApiSamples
  imports ApiInvariant CommandTheorems
begin

text \<open>
  The steps of the system when nothing interferes and no call fails, and two executions built
  from them: one in which a request fills the cache and another reads it, and one in which a
  snapshot is published and invalidated before a request asks for a new item.
\<close>

section \<open>Steps without interference\<close>

definition with_request :: "nat \<Rightarrow> request_phase \<Rightarrow> api_system \<Rightarrow> api_system" where
  "with_request j ph s = s\<lparr>ap_request := (ap_request s)(j := ph)\<rparr>"

lemma with_request_simps [simp]:
  "ap_request (with_request j ph s) = (ap_request s)(j := ph)" "ap_redis (with_request j ph s) = ap_redis s"
  "ap_ingestion (with_request j ph s) = ap_ingestion s" "ap_invalidated (with_request j ph s) = ap_invalidated s"
  "ap_history (with_request j ph s) = ap_history s" "ap_floor (with_request j ph s) = ap_floor s"
  by (simp_all add: with_request_def)

lemma calm_generation:
  assumes "generation_at (ap_redis s) k"
  shows "cache_generation rc (calm_world s) = (Inr (Some (str_nat k)), calm_world s)"
  using assms by (intro cache_generation_calm) (auto simp: generation_at_def intro: stored_generation_str_nat)

lemma calm_asking:
  assumes "generation_at (ap_redis s) k" "ap_request s j = Asked"
  shows "api_step c s (with_request j (Probing (str_nat k)) s)"
proof -
  have "api_step c s (s\<lparr>ap_request := (ap_request s)(j := after_read (Inr (Probing (str_nat k)))),
      ap_redis := redis (calm_world s)\<rparr>)"
    by (rule api_step.read [where w = "calm_world s"])
      (simp_all add: assms(2) bindM_def calm_generation [OF assms(1)])
  then show ?thesis by (simp add: with_request_def after_read_def)
qed

lemma calm_probing:
  assumes "ap_request s j = Probing g" "\<not> rc_decode (ac_cache c)"
    "redis_bytes (ap_redis s) (cache_key g (query_suffix (ac_cache c) (ac_queries c j))) = b"
    "length b \<le> Suc MAX_CACHE_PAYLOAD_BYTES"
  shows "api_step c s (with_request j (Confirming g (RBytes b)) s)"
proof -
  have "api_step c s (s\<lparr>ap_request := (ap_request s)(j := after_read (Inr (Confirming g (RBytes b)))),
      ap_redis := redis (calm_world s)\<rparr>)"
    by (rule api_step.read [where w = "calm_world s"])
      (use assms in \<open>simp_all add: bindM_def catchM_def read_payload_def client_getrange_calm\<close>)
  then show ?thesis by (simp add: with_request_def after_read_def)
qed

lemma decode_payload_empty: "pydantic_ok (rc_pydantic rc) \<Longrightarrow> decode_payload rc sx m [] = None"
  by (simp add: decode_payload_def pydantic_laws(7))

lemma calm_missing:
  assumes "generation_at (ap_redis s) k" "ap_request s j = Confirming (str_nat k) (RBytes [])"
    "pydantic_ok (rc_pydantic (ac_cache c))"
  shows "api_step c s (with_request j (Loading (Some (str_nat k))) s)"
proof -
  have "utf8_encode [] = Some []" by (simp add: utf8_encode_def)
  then obtain w' where w': "read_step (ac_cache c) (ac_queries c j) (ap_request s j) (calm_world s) =
      (Inr (Loading (Some (str_nat k))), w')" "redis w' = ap_redis s"
    using assms(2)
    by (cases "ac_queries c j"; cases "has_valid_list_size (rc_recursion (ac_cache c)) []")
       (simp_all add: bindM_def calm_generation [OF assms(1)] validated_lookup_def payload_text_def
          keep_if_None invalid_miss_run decode_payload_empty [OF assms(3)])
  from api_step.read [OF _ calm_observes w'(1)] show ?thesis
    using assms(2) w'(2) by (simp add: with_request_def after_read_def)
qed

lemma calm_loading:
  assumes "ap_request s j = Loading g" "ac_queries c j = ItemQuery i"
    "db_ok (sy_database (ap_ingestion s))" "item_answer i (sy_database (ap_ingestion s)) = Some v"
  shows "api_step c s (with_request j (Storing g (CItem v)) s)"
proof -
  have "load_item (sqlalchemy_item_repository (ac_locale c)) i (calm_world s) = (Inr v, calm_world s)"
    by (rule calm_load_item) (simp_all add: assms)
  then have "api_step c s (s\<lparr>ap_request := (ap_request s)(j := after_load (Inr (Storing g (CItem v))))\<rparr>)"
    by (intro api_step.load [where w = "calm_world s"]) (simp_all add: assms bindM_def)
  then show ?thesis by (simp add: with_request_def after_load_def)
qed

lemma calm_storing:
  assumes "ap_request s j = Storing (Some g) (CItem v)" "ir_game_id v = i" "ac_queries c j = ItemQuery i"
    "item_storable (ac_cache c) i v"
  obtains b ttl where "utf8_encode (encode_payload (ac_cache c) (item_suffix i) (CItem v)) = Some b"
    "length b \<le> MAX_CACHE_PAYLOAD_BYTES"
    "api_step c s ((with_request j (Answered (Inr (CItem v))) s)
       \<lparr>ap_redis := (ap_redis s)(cache_key g (item_suffix i) \<mapsto> (b, Some ttl))\<rparr>)"
proof -
  obtain b where b: "utf8_encode (encode_payload (ac_cache c) (item_suffix i) (CItem v)) = Some b"
    "length b \<le> MAX_CACHE_PAYLOAD_BYTES" "\<not> oversized_list (CItem v)"
    using assms(4) by (auto simp: item_storable_def storable_def split: option.splits)
  let ?st = "(ap_redis s)(cache_key g (item_suffix i) \<mapsto> (b, Some (rc_item_ttl (ac_cache c))))"
  have "query_store (ac_cache c) (ac_queries c j) (CItem v) (Some g) (calm_world s) =
      (Inr (), (calm_world s)\<lparr>redis := ?st\<rparr>)"
    using cache_set_calm [OF _ b(3,1,2), of "calm_world s"] assms(2,3) by (simp add: query_store_def set_item_def)
  from api_step.store [OF assms(1) calm_observes this]
  have "api_step c s (s\<lparr>ap_request := (ap_request s)(j := Answered (Inr (CItem v))), ap_redis := ?st\<rparr>)"
    by (simp add: after_store_def)
  then show thesis using that [OF b(1,2), of "rc_item_ttl (ac_cache c)"] by (simp add: with_request_def)
qed

lemma calm_check:
  assumes "sy_phase (ap_ingestion s) i = Done t" "generation_at (ap_redis s) k"
  shows "api_step c s (s\<lparr>ap_checked := insert i (ap_checked s)\<rparr>)"
  using api_step.check [OF assms(1) calm_observes calm_generation [OF assms(2)]] by simp

lemma calm_increment:
  assumes "i \<in> ap_checked s" "generation_at (ap_redis s) k" "k < MAX_GENERATION"
  obtains s' where "api_step c s s'" "i \<in> ap_invalidated s'" "generation_at (ap_redis s') (Suc k)"
    "ap_request s' = ap_request s" "ap_ingestion s' = ap_ingestion s"
    "\<And>key. key \<noteq> CACHE_GENERATION_KEY \<Longrightarrow> ap_redis s' key = ap_redis s key"
proof -
  obtain ttl where "ap_redis s CACHE_GENERATION_KEY = Some (str_nat k, ttl)"
    using assms(2) by (auto simp: generation_at_def)
  then have run: "client_incr CACHE_GENERATION_KEY (calm_world s) = (Inr (int k + 1), (calm_world s)
      \<lparr>redis := (ap_redis s)(CACHE_GENERATION_KEY \<mapsto> (str_nat (Suc k), ttl))\<rparr>)"
    using assms(3) by (simp add: client_incr_def redis_call_def redis_incr_generation)
  from that [OF api_step.increment [OF assms(1) calm_observes run]] show thesis
    using assms(3) by (simp add: generation_at_def)
qed

section \<open>A request that fills the cache, and one that reads it\<close>

lemma two_steps: "api_step c s s1 \<Longrightarrow> (api_step c)\<^sup>*\<^sup>* s1 s2 \<Longrightarrow> (api_step c)\<^sup>*\<^sup>* s s2"
  by (rule converse_rtranclp_into_rtranclp)

lemma calm_fill:
  assumes "generation_at (ap_redis s) k" "ap_request s j = Asked" "ac_queries c j = ItemQuery i"
    "\<not> rc_decode (ac_cache c)" "ap_redis s (cache_key (str_nat k) (item_suffix i)) = None"
    "db_ok (sy_database (ap_ingestion s))" "item_answer i (sy_database (ap_ingestion s)) = Some v"
    "item_storable (ac_cache c) i v"
  obtains s' b ttl where "(api_step c)\<^sup>*\<^sup>* s s'" "ap_request s' = (ap_request s)(j := Answered (Inr (CItem v)))"
    "utf8_encode (encode_payload (ac_cache c) (item_suffix i) (CItem v)) = Some b"
    "length b \<le> MAX_CACHE_PAYLOAD_BYTES"
    "ap_redis s' = (ap_redis s)(cache_key (str_nat k) (item_suffix i) \<mapsto> (b, Some ttl))"
proof -
  let ?g = "str_nat k"
  let ?s1 = "with_request j (Probing ?g) s"
  let ?s2 = "with_request j (Confirming ?g (RBytes [])) ?s1"
  let ?s3 = "with_request j (Loading (Some ?g)) ?s2"
  let ?s4 = "with_request j (Storing (Some ?g) (CItem v)) ?s3"
  have pd: "pydantic_ok (rc_pydantic (ac_cache c))" using assms(8) by (simp add: item_storable_def)
  have id: "ir_game_id v = i" using item_answer_ok [OF assms(6,7)] by simp
  have 1: "api_step c s ?s1" by (rule calm_asking [OF assms(1,2)])
  have 2: "api_step c ?s1 ?s2"
    using assms(3-5) by (intro calm_probing) (simp_all add: redis_bytes_def)
  have 3: "api_step c ?s2 ?s3" using assms(1) pd by (intro calm_missing) simp_all
  have 4: "api_step c ?s3 ?s4" using assms(3,6,7) by (intro calm_loading) simp_all
  obtain b ttl where b: "utf8_encode (encode_payload (ac_cache c) (item_suffix i) (CItem v)) = Some b"
    "length b \<le> MAX_CACHE_PAYLOAD_BYTES"
    and 5: "api_step c ?s4 ((with_request j (Answered (Inr (CItem v))) ?s4)
       \<lparr>ap_redis := (ap_redis ?s4)(cache_key ?g (item_suffix i) \<mapsto> (b, Some ttl))\<rparr>)"
    using calm_storing [of ?s4 j ?g v i c] id assms(3,8) by auto
  show thesis
    using that [OF _ _ b, of "(with_request j (Answered (Inr (CItem v))) ?s4)
       \<lparr>ap_redis := (ap_redis ?s4)(cache_key ?g (item_suffix i) \<mapsto> (b, Some ttl))\<rparr>" ttl]
      two_steps [OF 1 two_steps [OF 2 two_steps [OF 3 two_steps [OF 4 r_into_rtranclp [of "api_step c", OF 5]]]]]
    by simp
qed

lemma calm_reread:
  assumes "generation_at (ap_redis s) k" "ap_request s j = Asked" "ac_queries c j = ItemQuery i"
    "\<not> rc_decode (ac_cache c)" "ap_redis s (cache_key (str_nat k) (item_suffix i)) = Some (b, ttl)"
    "length b \<le> MAX_CACHE_PAYLOAD_BYTES"
  obtains s' where "(api_step c)\<^sup>*\<^sup>* s s'" "ap_request s' j = Confirming (str_nat k) (RBytes b)"
    "ap_redis s' = ap_redis s"
proof -
  let ?s1 = "with_request j (Probing (str_nat k)) s"
  have 1: "api_step c s ?s1" by (rule calm_asking [OF assms(1,2)])
  have 2: "api_step c ?s1 (with_request j (Confirming (str_nat k) (RBytes b)) ?s1)"
    using assms(3-6) by (intro calm_probing) (simp_all add: redis_bytes_def)
  show thesis using that [OF two_steps [OF 1 r_into_rtranclp [of "api_step c", OF 2]]] by simp
qed

section \<open>A system\<close>

definition sample_api :: api_config where
  "sample_api =
     \<lparr>ac_faults = False, ac_pg = sample_pg, ac_snapshots = (\<lambda>_. sample_snapshot), ac_workers = 1,
      ac_command_cache = sample_cache, ac_cache = sample_cache, ac_locale = ascii_locale,
      ac_queries = (\<lambda>j. if j < 2 then ItemQuery 5 else ItemQuery 7)\<rparr>"

definition sample_store :: redis_store where
  "sample_store = [CACHE_GENERATION_KEY \<mapsto> (str_nat 7, None)]"

abbreviation sample_start :: api_system where
  "sample_start \<equiv> initial_api sample_db sample_store"

lemma sample_api_simps [simp]:
  "ac_cache sample_api = sample_cache" "ac_locale sample_api = ascii_locale" "\<not> rc_decode sample_cache"
  "ac_queries sample_api 0 = ItemQuery 5" "ac_queries sample_api (Suc 0) = ItemQuery 5"
  "ac_queries sample_api 2 = ItemQuery 7"
  by (simp_all add: sample_api_def sample_cache_def)

lemma sample_start_simps [simp]:
  "ap_redis sample_start = sample_store" "ap_request sample_start = (\<lambda>_. Asked)"
  "ap_ingestion sample_start = initial_system sample_db" "sy_database (initial_system sample_db) = sample_db"
  by (simp_all add: initial_api_def initial_system_def)

lemma sample_store_entry [simp]: "sample_store (cache_key g sx) = None"
  by (simp add: sample_store_def)

lemma sample_config: "config_ok sample_api {sample_params}"
  using sample_digest plain_pydantic_ok sample_distinct
  by (simp add: config_ok_def asked_def sample_api_def split: query.split)

lemma sample_generation_at: "generation_at sample_store 7"
  by (simp add: generation_at_def sample_store_def MAX_GENERATION_def)

lemma sample_no_entries: "no_entries_from n sample_store"
  by (simp add: no_entries_from_def sample_store_def)

text \<open>Request 0 fills the cache with item 5, request 1 is about to confirm what it read.\<close>

lemma sample_hit:
  obtains s b ttl where "(api_step sample_api)\<^sup>*\<^sup>* sample_start s"
    "ap_request s 1 = Confirming (str_nat 7) (RBytes b)" "generation_at (ap_redis s) 7"
    "ap_redis s (cache_key (str_nat 7) (item_suffix 5)) = Some (b, ttl)" "length b \<le> MAX_CACHE_PAYLOAD_BYTES"
    "utf8_encode (encode_payload sample_cache (item_suffix 5) (CItem (response_of_row sample_row))) = Some b"
proof -
  obtain s1 b ttl where s1: "(api_step sample_api)\<^sup>*\<^sup>* sample_start s1"
    "ap_request s1 = (\<lambda>_. Asked)(0 := Answered (Inr (CItem (response_of_row sample_row))))"
    "utf8_encode (encode_payload sample_cache (item_suffix 5) (CItem (response_of_row sample_row))) = Some b"
    "length b \<le> MAX_CACHE_PAYLOAD_BYTES"
    "ap_redis s1 = sample_store(cache_key (str_nat 7) (item_suffix 5) \<mapsto> (b, Some ttl))"
    using calm_fill [of sample_start 7 0 sample_api 5 "response_of_row sample_row" thesis]
      sample_generation_at sample_answer sample_storable
    by auto
  have gen: "generation_at (ap_redis s1) 7" using s1(5) sample_generation_at by (simp add: generation_at_def)
  obtain s2 where s2: "(api_step sample_api)\<^sup>*\<^sup>* s1 s2"
    "ap_request s2 1 = Confirming (str_nat 7) (RBytes b)" "ap_redis s2 = ap_redis s1"
    using calm_reread [of s1 7 1 sample_api 5 b "Some ttl" thesis, OF gen] s1 by auto
  show thesis using that [of s2 b "Some ttl"] s1 s2 gen by (simp add: rtranclp_trans [OF s1(1) s2(1)])
qed

section \<open>Publication, invalidation, and a request for the new item\<close>

lemma lift_ingestion:
  assumes "(ingest_step (ac_faults c) (ac_pg c) (ac_snapshots c) (ac_workers c))\<^sup>*\<^sup>* (ap_ingestion s) i"
  shows "\<exists>s'. (api_step c)\<^sup>*\<^sup>* s s' \<and> ap_ingestion s' = i \<and> ap_redis s' = ap_redis s \<and> ap_request s' = ap_request s"
  using assms
proof induction
  case (step i1 i2)
  then obtain s1 where s1: "(api_step c)\<^sup>*\<^sup>* s s1" "ap_ingestion s1 = i1" "ap_redis s1 = ap_redis s"
    "ap_request s1 = ap_request s" by blast
  from api_step.ingestion [of c s1 i2] step.hyps(2) s1(2)
  obtain s2 where "api_step c s1 s2" "ap_ingestion s2 = i2" "ap_redis s2 = ap_redis s1" "ap_request s2 = ap_request s1"
    by fastforce
  then show ?case using s1 rtranclp.rtrancl_into_rtrancl [OF s1(1)] by metis
qed blast

definition sample_new_item :: item_response where
  "sample_new_item =
     \<lparr>ir_game_id = 7, ir_name = lit ''Guppy'', ir_description = lit ''A cat'', ir_quality = Some 4,
      ir_type = Some (lit ''passive''), ir_recharge_time = None, ir_image_url = lit ''https://x.io/7'',
      ir_introduced_in_version = None\<rparr>"

lemma sample_new_response: "import_of_row r = sample_import \<Longrightarrow> response_of_row r = sample_new_item"
  by (simp add: import_of_row_def sample_import_def response_of_row_def to_item_response_def to_record_def
      sample_new_item_def)

lemma sample_new_storable:
  assumes "item_response_ok sample_new_item"
  shows "item_storable sample_cache 7 sample_new_item"
  using plain_pydantic_ok assms
  by (simp add: item_storable_def)
     (simp add: storable_def oversized_list_def encode_payload_def sample_cache_def plain_pydantic_def
       item_to_json_def sample_new_item_def lit_def
       dumps_str_def json_opt_def str_int_def str_nat.simps escape_char_def utf8_encode_def
       MAX_CACHE_PAYLOAD_BYTES_def scalar_def utf8_char_def)

text \<open>Worker 0 publishes the snapshot and invalidates; no request has begun.\<close>

lemma sample_published:
  obtains s where "(api_step sample_api)\<^sup>*\<^sup>* sample_start s" "0 \<in> ap_invalidated s"
    "generation_at (ap_redis s) 8" "ap_request s = (\<lambda>_. Asked)"
    "ap_redis s (cache_key (str_nat 8) (item_suffix 7)) = None" "committed_workers s = [(0, 5)]"
proof -
  obtain i where i: "reachable False sample_pg (\<lambda>_. sample_snapshot) 1 sample_db i" "sy_committed i = [(0, 5)]"
    "sy_phase i 0 = Done 5" using sample_commits by blast
  obtain s1 where s1: "(api_step sample_api)\<^sup>*\<^sup>* sample_start s1" "ap_ingestion s1 = i"
    "ap_redis s1 = sample_store" "ap_request s1 = (\<lambda>_. Asked)"
    using lift_ingestion [of sample_api sample_start i] reachable_run [OF i(1)] by (auto simp: sample_api_def)
  let ?s2 = "s1\<lparr>ap_checked := insert 0 (ap_checked s1)\<rparr>"
  have 2: "api_step sample_api s1 ?s2"
    by (rule calm_check [where t = 5 and k = 7]) (simp_all add: s1 i sample_generation_at)
  obtain s3 where s3: "api_step sample_api ?s2 s3" "0 \<in> ap_invalidated s3" "generation_at (ap_redis s3) 8"
    "ap_request s3 = (\<lambda>_. Asked)" "ap_ingestion s3 = i"
    "\<And>key. key \<noteq> CACHE_GENERATION_KEY \<Longrightarrow> ap_redis s3 key = sample_store key"
    using calm_increment [of 0 ?s2 7 sample_api thesis] s1 sample_generation_at
    by (auto simp: MAX_GENERATION_def)
  have "(api_step sample_api)\<^sup>*\<^sup>* sample_start s3"
    using s1(1) two_steps [OF 2 r_into_rtranclp [of "api_step sample_api", OF s3(1)]] by (rule rtranclp_trans)
  then show thesis using that [of s3] s3 i(2) by simp
qed

lemma sample_start_ok: "api_ok sample_api {sample_params} sample_db 7 sample_start"
  by (rule initial_api_ok [OF sample_config sample_db_ok sample_generation_at sample_no_entries])

text \<open>Request 2 then asks for the new item, and gets it.\<close>

lemma sample_served:
  obtains s s' where "(api_step sample_api)\<^sup>*\<^sup>* sample_start s" "0 \<in> ap_invalidated s" "ap_request s 2 = Asked"
    "(api_step sample_api)\<^sup>*\<^sup>* s s'" "ap_request s' 2 = Answered (Inr (CItem sample_new_item))"
proof -
  obtain s where s: "(api_step sample_api)\<^sup>*\<^sup>* sample_start s" "0 \<in> ap_invalidated s"
    "generation_at (ap_redis s) 8" "ap_request s = (\<lambda>_. Asked)"
    "ap_redis s (cache_key (str_nat 8) (item_suffix 7)) = None" "committed_workers s = [(0, 5)]"
    by (rule sample_published)
  let ?D = "sy_database (ap_ingestion s)"
  have base: "base_ok sample_api sample_db s"
    using run_api_ok [OF s(1) sample_config sample_start_ok] by (simp add: api_ok_def)
  then have ok: "db_ok ?D" by (simp add: base_ok_def views_ok_def)
  obtain D where D: "D \<in> versions s 1" "same_tables D ?D"
    using current_version [OF base, of 1] s(6) by (auto simp: commits_def)
  have "length (ap_history s) = 2" using base s(6) by (simp add: base_ok_def history_ok_def)
  then have "D = ap_history s ! 1"
    using D(1) by (auto simp: versions_def numeral_2_eq_2 length_Suc_conv)
  then have "catalogue_of ?D = ingested sample_snapshot 5 (catalogue_of sample_db)"
    using base s(6) answers_tables(4) [OF D(2)]
    by (simp add: base_ok_def history_ok_def serial_def sample_api_def)
  then have "cat_items (catalogue_of ?D) 7 = Some sample_import"
    by (simp add: ingested_def stale_def sample_last_sync publish_def import_map_def sample_snapshot_def sample_import_def)
  then obtain row where row: "import_of_row row = sample_import" "item_answer 7 ?D = Some (response_of_row row)"
    using published_row by blast
  have item: "item_answer 7 ?D = Some sample_new_item" using row sample_new_response by simp
  have "item_storable sample_cache 7 sample_new_item"
    using item_answer_ok [OF ok item] by (intro sample_new_storable) simp
  then obtain s' where "(api_step sample_api)\<^sup>*\<^sup>* s s'" "ap_request s' 2 = Answered (Inr (CItem sample_new_item))"
    using calm_fill [of s 8 2 sample_api 7 sample_new_item thesis] s ok item by auto
  then show thesis using that [of s s'] s by simp
qed

end
