(* ===== verification/ApiTheorems.thy ===== *)
theory ApiTheorems
  imports ApiSamples
begin

text \<open>
  The properties of the whole system: requests, ingestions and invalidations interleaved
  step by step, with failures and evictions. An answer never predates an invalidation that
  was over when the request began, nor, when it comes from the cache, one that was over
  when the generation was read for the second time; and what is stored under a generation
  comes from versions at least as new as the generation.
\<close>

section \<open>What is published\<close>

text \<open>The versions of the database that contain the ingestions of the workers \<open>I\<close>: each is the
  catalogue after the first \<open>k\<close> commits, one after another, the workers of \<open>I\<close> among them.\<close>

definition published :: "api_config \<Rightarrow> database \<Rightarrow> api_system \<Rightarrow> nat set \<Rightarrow> database set" where
  "published c db s I =
     {D \<in> set (ap_history s). \<exists>k \<le> commits s. I \<subseteq> fst ` set (take k (committed_workers s)) \<and>
        catalogue_of D = serial (ac_snapshots c) (take k (committed_workers s)) (catalogue_of db)}"

lemma versions_published:
  assumes "base_ok c db s" "I \<subseteq> fst ` set (take m (committed_workers s))"
  shows "versions s m \<subseteq> published c db s I"
proof
  fix D
  assume "D \<in> versions s m"
  then obtain i where i: "D = drop m (ap_history s) ! i" "i < length (drop m (ap_history s))"
    unfolding versions_def by (metis in_set_conv_nth)
  then have D: "D = ap_history s ! (m + i)" "m + i < length (ap_history s)" by simp_all
  have "set (take m (committed_workers s)) \<subseteq> set (take (m + i) (committed_workers s))"
    by (rule set_take_subset_set_take) simp
  then have "I \<subseteq> fst ` set (take (m + i) (committed_workers s))" using assms(2) by blast
  moreover have "m + i \<le> commits s \<and>
      catalogue_of D = serial (ac_snapshots c) (take (m + i) (committed_workers s)) (catalogue_of db)"
    using assms(1) D by (simp add: base_ok_def history_ok_def commits_def)
  ultimately show "D \<in> published c db s I"
    using D by (auto simp: published_def intro!: exI [of _ "m + i"])
qed

text \<open>The floor of a generation that was there in an earlier state is above the commits of the
  workers that had invalidated then.\<close>

lemma since_published:
  assumes "base_ok c db s1" "base_ok c db s2" "evolves s1 s2"
  shows "versions s2 (ap_floor s2 (generation_now s1)) \<subseteq> published c db s2 (ap_invalidated s1)"
proof (rule versions_published [OF assms(2)])
  let ?m = "ap_floor s1 (generation_now s1)"
  have "?m \<le> commits s1" using floor_commits [OF assms(1)] by simp
  moreover have "prefix (committed_workers s1) (committed_workers s2)" using assms(3) by (simp add: evolves_def)
  ultimately have "take ?m (committed_workers s2) = take ?m (committed_workers s1)"
    by (auto simp: prefix_def commits_def)
  moreover have "ap_floor s2 (generation_now s1) = ?m" using assms(3) by (simp add: evolves_def)
  ultimately show "ap_invalidated s1 \<subseteq> fst ` set (take (ap_floor s2 (generation_now s1)) (committed_workers s2))"
    using assms(1) by (simp add: base_ok_def floors_ok_def)
qed

text \<open>An outcome of a request, against a set of versions.\<close>

definition answered_from :: "pg_locale \<Rightarrow> query \<Rightarrow> database set \<Rightarrow> exn + cached_value \<Rightarrow> bool" where
  "answered_from loc q Ds r \<longleftrightarrow> (case r of Inr v \<Rightarrow> v \<in> answers loc q Ds | Inl e \<Rightarrow> refusal q Ds e)"

lemma answered_from_mono: "answered_from loc q Ds r \<Longrightarrow> Ds \<subseteq> Es \<Longrightarrow> answered_from loc q Es r"
  using answers_mono [of Ds Es loc q] by (cases r) (auto simp: answered_from_def intro: refusal_mono)

section \<open>The properties\<close>

text \<open>C1. Take any execution of the system: requests, ingestions, their invalidations, evictions and
  failures interleaved at every await and statement. When a request has not begun in \<open>s1\<close>
  and is answered in \<open>s2\<close>, it is answered from committed versions of the catalogue, those of
  a serial execution of the ingestions in commit order, and every ingestion whose
  invalidation had returned in \<open>s1\<close> is in each of them. A value computed before the
  invalidation, but stored after it, is never served.\<close>

theorem answers_after_invalidation:
  assumes "config_ok c U" "db_ok db" "generation_at st n" "no_entries_from n st"
    "(api_step c)\<^sup>*\<^sup>* (initial_api db st) s1" "ap_request s1 j = Asked"
    "(api_step c)\<^sup>*\<^sup>* s1 s2" "ap_request s2 j = Answered r"
  shows "answered_from (ac_locale c) (ac_queries c j) (published c db s2 (ap_invalidated s1)) r"
proof -
  have ok1: "api_ok c U db n s1"
    using run_api_ok [OF assms(5,1) initial_api_ok [OF assms(1-4)]] by simp
  have ok2: "api_ok c U db n s2" and ev: "evolves s1 s2" using run_api_ok [OF assms(7,1) ok1] by simp_all
  let ?Ds = "versions s2 (ap_floor s2 (generation_now s1))"
  have "n \<le> generation_now s1" using ok1 by (simp add: api_ok_def)
  from run_phase_ok [OF assms(7,1) ok1 this, of j]
  have "phase_ok c s2 (generation_now s1) (ac_queries c j) (Answered r)" using assms(6,8) by simp
  then have "answered_from (ac_locale c) (ac_queries c j) ?Ds r"
    by (cases r) (simp_all add: answered_from_def since_def)
  moreover have "?Ds \<subseteq> published c db s2 (ap_invalidated s1)"
    by (rule since_published [OF _ _ ev]) (use ok1 ok2 in \<open>simp_all add: api_ok_def\<close>)
  ultimately show ?thesis by (rule answered_from_mono)
qed

theorem answers_after_invalidation_witness:
  "\<exists>s s'. (api_step sample_api)\<^sup>*\<^sup>* s s' \<and> 0 \<in> ap_invalidated s \<and>
     answered_from ascii_locale (ItemQuery 7) (published sample_api sample_db s' (ap_invalidated s))
       (Inr (CItem sample_new_item))"
proof -
  obtain s s' where s: "(api_step sample_api)\<^sup>*\<^sup>* sample_start s" "0 \<in> ap_invalidated s" "ap_request s 2 = Asked"
    "(api_step sample_api)\<^sup>*\<^sup>* s s'" "ap_request s' 2 = Answered (Inr (CItem sample_new_item))"
    by (rule sample_served)
  have "answered_from (ac_locale sample_api) (ac_queries sample_api 2)
      (published sample_api sample_db s' (ap_invalidated s)) (Inr (CItem sample_new_item))"
    by (rule answers_after_invalidation [OF sample_config sample_db_ok sample_generation_at sample_no_entries s(1,3,4,5)])
  then show ?thesis using s(2,4) by auto
qed

text \<open>C6. A value that a request takes from the cache is as fresh as the moment of the second read of
  the generation: it contains every ingestion whose invalidation had returned by then, also
  those that ran while the request was reading the payload.\<close>

theorem hits_fresh_when_confirmed:
  assumes "config_ok c U" "db_ok db" "generation_at st n" "no_entries_from n st"
    "(api_step c)\<^sup>*\<^sup>* (initial_api db st) s" "is_reading (ap_request s j)" "observes s w"
    "read_step (ac_cache c) (ac_queries c j) (ap_request s j) w = (Inr (Answered (Inr v)), w')"
  shows "v \<in> answers (ac_locale c) (ac_queries c j) (published c db s (ap_invalidated s))"
proof -
  have ok: "api_ok c U db n s"
    using run_api_ok [OF assms(5,1) initial_api_ok [OF assms(1-4)]] by simp
  then have base: "base_ok c db s" and entries: "entries_ok c U n s" and lo: "n \<le> generation_now s"
    and ph: "phase_ok c s n (ac_queries c j) (ap_request s j)"
    and gen: "generation_at (ap_redis s) (generation_now s)"
    by (simp_all add: api_ok_def base_ok_def)
  have cache: "factory_ok (ac_cache c)" using assms(1) by (simp add: config_ok_def)
  have "\<exists>t. payload_text (Some p) = Inr t" if "ap_request s j = Confirming g p" for g p
    using phase_payload [of c s n "ac_queries c j" g p] ph that by simp
  then have "redis w' = ap_redis s \<and> (case Inr (Answered (Inr v)) of Inl e \<Rightarrow> CACHE_FAILURES e
      | Inr ph' \<Rightarrow> read_result (ac_cache c) (ap_redis s) (generation_now s) (ac_queries c j) (ap_request s j) ph')"
    by (rule read_step_run [OF assms(7) gen cache assms(6,8)])
  then obtain p x where "ap_request s j = Confirming (str_nat (generation_now s)) p"
    "payload_text (Some p) = Inr (Some x)" "query_decode (ac_cache c) (ac_queries c j) x = Some v"
    by (auto simp: read_result_def)
  then have "v \<in> answers (ac_locale c) (ac_queries c j) (versions s (ap_floor s (generation_now s)))"
    using ph by (auto simp: since_def)
  then show ?thesis
    using answers_mono [OF since_published [OF base base evolves_refl]] by blast
qed

theorem hits_fresh_when_confirmed_witness:
  "\<exists>s w w' v. read_step sample_cache (ItemQuery 5) (ap_request s 1) w = (Inr (Answered (Inr v)), w') \<and>
     v \<in> answers ascii_locale (ItemQuery 5) (published sample_api sample_db s (ap_invalidated s))"
proof -
  let ?v = "response_of_row sample_row"
  obtain s b ttl where s: "(api_step sample_api)\<^sup>*\<^sup>* sample_start s"
    "ap_request s 1 = Confirming (str_nat 7) (RBytes b)" "generation_at (ap_redis s) 7" "length b \<le> MAX_CACHE_PAYLOAD_BYTES"
    "utf8_encode (encode_payload sample_cache (item_suffix 5) (CItem ?v)) = Some b"
    by (rule sample_hit)
  have "item_response_ok ?v" using sample_row_ok by (rule response_of_row_ok)
  then have decode: "decode_payload sample_cache (item_suffix 5) item_model
      (encode_payload sample_cache (item_suffix 5) (CItem ?v)) = Some ?v"
    using plain_pydantic_ok by (intro decode_encode_item) simp_all
  have run: "read_step (ac_cache sample_api) (ac_queries sample_api 1) (ap_request s 1) (calm_world s) =
      (Inr (Answered (Inr (CItem ?v))), calm_world s)"
    using s(2,4) decode utf8_roundtrip [OF s(5)]
    by (simp add: bindM_def calm_generation [OF s(3)] validated_lookup_def payload_text_def keep_if_def
        looked_up_def tagged_def) (simp add: response_of_row_def to_item_response_def to_record_def sample_row_def)
  have "CItem ?v \<in> answers (ac_locale sample_api) (ac_queries sample_api 1) (published sample_api sample_db s (ap_invalidated s))"
    by (rule hits_fresh_when_confirmed [OF sample_config sample_db_ok sample_generation_at sample_no_entries
          s(1) _ calm_observes run]) (use s(2) in simp)
  then show ?thesis using run unfolding sample_api_simps One_nat_def by blast
qed

text \<open>C9. What Redis holds under a generation, once the invalidation that began it is over, is never
  older than that invalidation, and nothing is ever stored under a generation that has not
  begun: whatever a reader would accept under the present generation is an answer of
  committed versions that contain every ingestion invalidated so far.\<close>

theorem stored_entries_fresh:
  assumes "config_ok c U" "db_ok db" "generation_at st n" "no_entries_from n st"
    "(api_step c)\<^sup>*\<^sup>* (initial_api db st) s" "n \<le> k" "k \<le> MAX_GENERATION" "asked U q"
    "entry_text (ap_redis s) (cache_key (str_nat k) (query_suffix (ac_cache c) q)) = Some t"
    "query_decode (ac_cache c) q t = Some v"
  shows "k \<le> generation_now s \<and>
    v \<in> answers (ac_locale c) q (published c db s (if k = generation_now s then ap_invalidated s else {}))"
proof -
  have ok: "api_ok c U db n s"
    using run_api_ok [OF assms(5,1) initial_api_ok [OF assms(1-4)]] by simp
  then have base: "base_ok c db s" and entries: "entries_ok c U n s" by (simp_all add: api_ok_def)
  have v: "k \<le> generation_now s" "v \<in> answers (ac_locale c) q (versions s (ap_floor s k))"
    using entries assms(6-10) unfolding entries_ok_def by blast+
  have "versions s (ap_floor s k) \<subseteq> published c db s {}" by (rule versions_published [OF base]) simp
  moreover have "versions s (ap_floor s k) \<subseteq> published c db s (ap_invalidated s)" if "k = generation_now s"
    using since_published [OF base base evolves_refl] that by simp
  ultimately have "versions s (ap_floor s k) \<subseteq>
      published c db s (if k = generation_now s then ap_invalidated s else {})" by simp
  from answers_mono [OF this] show ?thesis using v by blast
qed

theorem stored_entries_fresh_witness:
  "\<exists>s t. entry_text (ap_redis s) (cache_key (str_nat 7) (item_suffix 5)) = Some t \<and> 7 \<le> generation_now s \<and>
     CItem (response_of_row sample_row) \<in> answers ascii_locale (ItemQuery 5)
       (published sample_api sample_db s (if 7 = generation_now s then ap_invalidated s else {}))"
proof -
  let ?v = "response_of_row sample_row"
  obtain s b ttl where s: "(api_step sample_api)\<^sup>*\<^sup>* sample_start s"
    "ap_redis s (cache_key (str_nat 7) (item_suffix 5)) = Some (b, ttl)" "length b \<le> MAX_CACHE_PAYLOAD_BYTES"
    "utf8_encode (encode_payload sample_cache (item_suffix 5) (CItem ?v)) = Some b"
    by (rule sample_hit)
  let ?t = "encode_payload sample_cache (item_suffix 5) (CItem ?v)"
  have t: "entry_text (ap_redis s) (cache_key (str_nat 7) (item_suffix 5)) = Some ?t"
    using s(2,3) utf8_roundtrip [OF s(4)] by (simp add: entry_text_def redis_bytes_def)
  have "item_response_ok ?v" using sample_row_ok by (rule response_of_row_ok)
  then have "query_decode sample_cache (ItemQuery 5) ?t = Some (CItem ?v)"
    using plain_pydantic_ok by (simp add: decode_encode_item)
      (simp add: response_of_row_def to_item_response_def to_record_def sample_row_def)
  then have "7 \<le> generation_now s \<and> CItem ?v \<in> answers (ac_locale sample_api) (ItemQuery 5)
      (published sample_api sample_db s (if 7 = generation_now s then ap_invalidated s else {}))"
    using t by (intro stored_entries_fresh [OF sample_config sample_db_ok sample_generation_at sample_no_entries s(1)])
      (simp_all add: MAX_GENERATION_def asked_def)
  then show ?thesis using t unfolding sample_api_simps by blast
qed

text \<open>C10. The steps of a request, one after another, are the operations of \<open>ItemService\<close>: the same
  result and the same effects in every world, whatever other clients do in between and
  whichever calls fail.\<close>

theorem service_runs_in_steps:
  "request_program rc loc (ItemQuery i) = bindM (svc_get_by_game_id (item_service_of loc rc) i) (\<lambda>r. ret (CItem r)) \<and>
   request_program rc loc (ListQuery p) = bindM (svc_list_items (item_service_of loc rc) p) (\<lambda>r. ret (CList r)) \<and>
   request_program rc loc (MetaQuery a) = bindM (svc_get_meta (item_service_of loc rc) a) (\<lambda>r. ret (CMeta r))"
  by (intro conjI ext request_program_item request_program_list request_program_meta)

text \<open>C12. No request waits for another, for an ingestion or for a lock of the cache: as long as it is
  not answered it has a step, every step it makes brings it closer to its answer, and the
  steps of the others do not take it back. From \<open>Asked\<close> it is answered after at most six.\<close>

theorem requests_wait_free:
  assumes "config_ok c U" "db_ok db" "generation_at st n" "no_entries_from n st"
    "(api_step c)\<^sup>*\<^sup>* (initial_api db st) s"
  shows "((\<exists>r. ap_request s j = Answered r) \<or>
      (\<exists>s'. api_step c s s' \<and> request_rank (ap_request s' j) < request_rank (ap_request s j))) \<and>
    (\<forall>s'. api_step c s s' \<longrightarrow> ap_request s' j = ap_request s j \<or>
       request_rank (ap_request s' j) < request_rank (ap_request s j)) \<and>
    request_rank (ap_request s j) \<le> 6"
proof -
  have ok: "api_ok c U db n s"
    using run_api_ok [OF assms(5,1) initial_api_ok [OF assms(1-4)]] by simp
  have "request_rank (ap_request s j) \<le> 6" by (cases "ap_request s j") simp_all
  then show ?thesis using request_enabled [OF assms(1) ok] request_forward [OF assms(1) ok] by blast
qed

theorem requests_wait_free_witness:
  "\<exists>s'. api_step sample_api sample_start s' \<and> request_rank (ap_request s' 0) < request_rank Asked"
  using requests_wait_free [OF sample_config sample_db_ok sample_generation_at sample_no_entries rtranclp.rtrancl_refl, of 0]
  by auto

end
