(* ===== verification/Divergences.thy ===== *)
theory Divergences
  imports CommandTheorems Application
begin

text \<open>
  Behaviours of the code that its comments, documents or structure do not announce, each
  with the lemma that shows it.
\<close>

section \<open>An explicit null type\<close>

lemma both_Abort: "(\<And>e. r \<noteq> Abort e) \<Longrightarrow> both r (Abort x) = Abort x"
  by (cases r) auto

lemma text_no_Abort: "non_empty_string j \<noteq> Abort e"
  by (cases j) (auto simp: non_empty_string_def reject_oversized_string_def strict_str_def reject_nul_def issue_def Let_def)

lemma located_Abort: "located l r = Abort e \<longleftrightarrow> r = Abort e"
  by (cases r) auto

lemma map_outcome_Abort: "map_outcome_value f r = Abort e \<longleftrightarrow> r = Abort e"
  by (cases r) auto

lemma nullable_text_no_Abort: "nullable_value non_empty_string j \<noteq> Abort e"
  by (auto simp: nullable_value_def map_outcome_Abort text_no_Abort)

lemma field_no_Abort:
  "required_field v non_empty_string \<noteq> Abort e"
  "default_none v (nullable_value non_empty_string) \<noteq> Abort e"
  "required_field v (strict_int_between c) \<noteq> Abort e"
  "required_field v (nullable_value (strict_int_between c)) \<noteq> Abort e"
  "required_field v (\<lambda>j. after (non_empty_string j) (validate_image_url lib)) \<noteq> Abort e"
proof -
  have int: "strict_int_between c j \<noteq> Abort e" for j
    by (auto simp: strict_int_between_def issue_def split: json.split option.split)
  have url: "after (non_empty_string j) (validate_image_url lib) \<noteq> Abort e" for j
    using text_no_Abort [of j] by (cases "non_empty_string j") (auto simp: validate_image_url_def issue_def)
  show "required_field v non_empty_string \<noteq> Abort e"
    "default_none v (nullable_value non_empty_string) \<noteq> Abort e"
    "required_field v (strict_int_between c) \<noteq> Abort e"
    "required_field v (nullable_value (strict_int_between c)) \<noteq> Abort e"
    "required_field v (\<lambda>j. after (non_empty_string j) (validate_image_url lib)) \<noteq> Abort e"
    using int url
    by (auto simp: required_field_def default_none_def issue_def text_no_Abort nullable_text_no_Abort
        nullable_value_def map_outcome_Abort split: option.split)
qed

text \<open>C40. The schema declares \<open>type\<close> as nullable, but \<open>normalize_item_type\<close> also runs on an
  explicit \<open>null\<close> and calls a method of it. The exception is no \<open>ValueError\<close>, so it is not
  collected as an error of the field: whatever the other fields hold, the validation is
  aborted, and the command ends as an unexpected internal error.\<close>

theorem null_item_type:
  assumes "fst ` set kvs \<subseteq> set ITEM_IMPORT_FIELDS" "map_of kvs (lit ''type'') = Some JNull"
  shows "validate_item lib (JObj kvs) = Abort AttributeError \<and>
    exit_message AttributeError = (1, lit ''Ingestion failed: unexpected internal error'')"
proof -
  have type: "default_none (map_of kvs (lit ''type''))
      (\<lambda>j. after (nullable_value non_empty_string j) (normalize_item_type lib)) = Abort AttributeError"
    using assms(2) by (simp add: default_none_def nullable_value_def normalize_item_type_def)
  have "item_fields lib kvs = Abort AttributeError"
    by (simp add: item_fields_def map_outcome_Abort type both_Abort located_Abort field_no_Abort)
  moreover have "exit_message AttributeError = (1, lit ''Ingestion failed: unexpected internal error'')"
    by (simp add: exit_message_def service_failure_def is_OSError_def)
  ultimately show ?thesis by (simp add: validate_item_def reject_unknown_known [OF assms(1)])
qed

theorem null_item_type_witness:
  "validate_item sample_lib (JObj [(lit ''type'', JNull)]) = Abort AttributeError"
  using null_item_type [of "[(lit ''type'', JNull)]" sample_lib] by (simp add: ITEM_IMPORT_FIELDS_def)

section \<open>Identifiers outside the integer type\<close>

text \<open>No item can have an identifier outside the 32 bits of the column, yet the answer is not
  404: the driver refuses the parameter and the request ends as an unavailable service.\<close>

lemma item_id_out_of_range:
  assumes "\<not> int4 i" "db_events w = []" "db_ok (database w)"
  shows "item_answer i (database w) = None \<and>
    load_item (sqlalchemy_item_repository loc) i w = (Inl SERVICE_UNAVAILABLE, w)"
proof -
  have "find_item i (database w) = None"
    using assms(1,3) by (auto simp: find_item_def find_None_iff db_ok_def list_all_iff item_row_ok_def)
  then show ?thesis
    using assms(1,2)
    by (simp add: item_answer_def load_item_def sql_get_by_game_id_def sql_scalar_def execute_def db_call_def
        select_stmt_def bindM_def catchM_def database_failure_def)
qed

section \<open>Ordinary misses are logged as invalid payloads\<close>

text \<open>\<open>GETRANGE\<close> of a missing key is the empty string and never \<open>None\<close>, so the branch of
  \<open>_get\<close> for a missing entry is not the one that a miss takes.\<close>

lemma miss_logged_as_invalid:
  assumes "redis_events w = []" "stored_generation w = Some n" "pydantic_ok (rc_pydantic rc)"
    "redis w (cache_key (str_nat n) (item_suffix i)) = None"
  shows "get_item rc i w = (Inr \<lparr>lk_value = None, lk_generation = Some (str_nat n)\<rparr>, w\<lparr>logs := logs w @
    [log_entry_of (lit ''app.cache'') (lit ''WARNING'') (lit ''cache_payload_invalid'') []]\<rparr>)"
  using lookups_calm_miss(1) [OF assms] by (simp add: invalid_miss_run)

section \<open>A timeout that truncates to zero\<close>

text \<open>The settings accept any positive timeout, and the conversion to milliseconds truncates:
  below a millisecond Clerk is called with the timeout zero.\<close>

lemma tiny_timeout: "verifier_timeout_ms (s\<lparr>ps_dependency_timeout_seconds := 1 / 2000\<rparr>) = 0"
  by (simp add: verifier_timeout_ms_def floor_eq_iff)

end
