(* ===== verification/Spec2Isabelle.thy ===== *)
theory Spec2Isabelle
  imports ItemsTheorems IngestionTheorems CommandTheorems PlatformTheorems ApiTheorems Divergences
begin

text \<open>
  A verification development for the Platinum Gold backend: an API over a catalogue of items
  (\<open>src/app\<close>), the command that publishes a new catalogue (\<open>src/scripts/ingest.py\<close>) and the
  schema they share (\<open>src/alembic\<close>).

  THE PROGRAM. Requests pass the logging middleware (\<open>core/logging.py\<close>), the exception handlers
  (\<open>core/exceptions.py\<close>) and the API key check against Clerk (\<open>auth\<close>) and reach \<open>ItemService\<close>,
  which reads PostgreSQL through \<open>SqlAlchemyItemRepository\<close> beside a Redis cache. The keys of
  the cache carry a generation; the command loads a JSON snapshot, validates it, writes it to
  PostgreSQL in one transaction under an advisory lock and moves the generation, so that
  everything cached before is out of reach. The lifespan of the application and the command
  build their clients from settings that are validated first (\<open>core/config.py\<close>).

  THEORIES, in the order of their imports.
  Prelude: the coroutines, as functions from a state to a result (\<open>Inl\<close> an exception, \<open>Inr\<close> a
  value) and the next state; \<open>bindM\<close>, \<open>catchM\<close>, \<open>finallyM\<close> are \<open>await\<close>, \<open>except\<close> and \<open>finally\<close>;
  the judgements \<open>frame\<close>, \<open>keeps\<close> and \<open>safe\<close> with their collections of rules.
  Text, Json, Url: what the program uses of \<open>str\<close>, \<open>bytes\<close>, UTF-8, \<open>json\<close>, \<open>urllib.parse\<close> and
  \<open>ipaddress\<close>. Errors: \<open>core/exceptions.py\<close>. Catalog: \<open>items/models.py\<close> and \<open>meta/models.py\<close>,
  the tables with their constraints.
  World: Redis, the database, the log, and a schedule of events, one per command or statement,
  that says what other clients do before it and whether it fails.
  ItemsSchemas, Cache, ItemsRepository, ItemsService: the files of \<open>app/items\<close> with those names.
  CacheContract and CacheGenerations: the laws of the cache, and generations over time.
  ItemsCoherence: the service on the concrete repository and cache.
  IngestionSchemas, IngestionLoader, IngestionRepository, IngestionService: \<open>app/ingestion\<close>;
  IngestionConcurrency: several ingestions, interleaved statement by statement; IngestionSteps: the
  coroutine \<open>ingest\<close> is an execution of these steps.
  Config, Connections: \<open>core/config.py\<close>; \<open>core/database.py\<close> and \<open>core/redis.py\<close>, with the record
  \<open>clients\<close> of what was opened and closed and the exit stack that closes it (\<open>async_exit_stack\<close>).
  IngestCommand: \<open>scripts/ingest.py\<close>. Auth: \<open>app/auth\<close>. Router: \<open>items/router.py\<close> and
  \<open>items/dependencies.py\<close>. Logging: \<open>core/logging.py\<close>. Health: \<open>app/health\<close>, the checks as
  two concurrent tasks whose order and timeouts a \<open>readiness_schedule\<close> decides. Application:
  \<open>app/main.py\<close>. Migrations, MigrationRun: \<open>src/alembic\<close>, and the guard of the test database,
  \<open>scripts/validate_test_database.py\<close>.
  RequestSteps: a cached request cut at its awaits, and the proof that the pieces, run one after
  another, are the operations of \<open>ItemService\<close>. ApiSystem: the step relation of everything
  together, requests, ingestions, invalidations, Redis and PostgreSQL; ApiFragments: what one step
  does; ApiInvariant: the invariant, and that requests move forward.
  Samples, IngestionSamples, ConfigSamples, ApiSamples: concrete instances for the witnesses.
  ItemsTheorems, IngestionTheorems, CommandTheorems, PlatformTheorems, ApiTheorems: the properties,
  numbered by importance. Divergences: behaviours that the sources do not announce.

  NAMES. A definition has the name of the function it models, prefixed where two classes share a
  method (\<open>svc_\<close> for \<open>ItemService\<close>, \<open>sql_\<close> for the repository, \<open>cache_\<close> for the private methods
  of \<open>RedisItemCache\<close>). A class with injected methods (\<open>ItemRepository\<close>, \<open>ItemCache\<close>,
  \<open>IngestionRepository\<close>, \<open>ApiKeyVerifier\<close>) is a record of functions, or one function.
\<close>

text \<open>
  INTERFACES. \<open>keyed_cache\<close> (CacheContract) is what the service needs of a kind of cached value,
  interpreted for items, listings and metadata; its lemmas give the outcomes of the read-through
  pattern once for all three. \<open>coherent_cache\<close> (ItemsCoherence) extends it by an invariant that
  survives interference, with the same three interpretations. \<open>ingestion_store\<close>
  (IngestionService) is what \<open>IngestionService\<close> needs of its repository, seen through the
  abstract \<open>catalogue\<close> (a map from game identifiers to imported items, and the metadata); its
  interpretation is the SQL repository, and the refinement of \<open>ingested\<close> follows inside it.
  \<open>verifier_protocol\<close> (Auth) is what the dependencies need of a verifier, interpreted for Clerk
  and for the verifier that is always unavailable. \<open>step_invariant\<close> (Prelude) is a system of steps
  with what each of them keeps; interpreted for the ingestions (\<open>serial_runs\<close>, \<open>live_runs\<close>) and for
  the whole system and its requests (\<open>api_runs\<close>, \<open>request_runs\<close>), it carries that over to every run.

  SPECIFICATIONS. \<open>item_answer\<close>, \<open>list_answer\<close>, \<open>meta_answer\<close>: what the API should answer from
  the tables alone. \<open>publish\<close>, \<open>ingested\<close>: what an ingestion does to the catalogue. \<open>serial\<close>: a
  list of ingestions, one after another. \<open>snapshot_at\<close>: what a path names. \<open>target_metadata\<close>: the
  schema that the models declare. \<open>listed_before\<close>: the order of a listing, strict, so that two
  rows whose keys tie would not be ordered by it. \<open>holds_key\<close>: that a text contains an API key.

  WHAT IS SHOWN. In every interleaving of requests with ingestions and their invalidations, a
  request is answered from committed versions of the catalogue that contain every ingestion
  whose invalidation was over before it began, and a cached value is that fresh even at its
  confirmation; no request waits for another. While no other client changes the tables and
  the other clients of Redis write only what the program would, an answer of the items API is
  the database's at that moment, or the service is unavailable, whatever failure that the code
  catches occurs; the cache's entries are bounded and expire; listings are pages of one sorted
  enumeration, in whatever order each statement meets the rows. A validated snapshot is within
  its bounds; publishing it is atomic and keeps every row's identity, and any interleaving of
  ingestions is equivalent to a serial one and comes to an end. The command says once how it
  ended, reports success only after both steps and closes its clients and descriptors on every
  path; after a success that was not stale the API serves the new items. No item is read
  without an accepted key with the scope. Every request is answered once, with an identifier,
  and its record in the log does not depend on the secret of a key in its path. The readiness
  endpoint tells the outages from the bugs. Every client the application opens is closed, also
  when the startup fails. Accepted settings mean TLS and credentials for remote services. The
  migrations build the models.

  BOUNDS AND RECURSION. The constants of the sources are definitions with their values, e.g.
  \<open>MAX_SNAPSHOT_BYTES\<close>, \<open>MAX_CACHE_PAYLOAD_BYTES\<close>, \<open>ITEM_BATCH_SIZE\<close>. The JSON parser recurses on
  the depth that Python's recursion limit leaves, an argument: deeper input is an error
  of the parser. It parses back everything the printer emits within that depth.
  \<open>revision_chain\<close> has as fuel the number of revisions, as a chain visits each at most once. Integer
  columns have the range of \<open>int4\<close>; parameters of statements are checked against \<open>int4\<close>, \<open>int8\<close>
  and text without NUL, as the driver does.

  PARAMETERS, with the documented behaviour that a theorem uses as its hypothesis: Pydantic's
  parsing and printing of the cached models (\<open>pydantic_ok\<close>: reading back what was printed),
  SHA-256 (\<open>digest_ok\<close>: no collision on the parameters in use), the Unicode tables, the
  locale's collation and case folding, the constructors of SQLAlchemy, redis-py and Clerk, what
  FastAPI parses from a request, the size of index entries (\<open>row_storable\<close>), clocks and
  randomness, and the order in which a statement meets the rows of a table (\<open>permuted\<close>). The samples instantiate each of them with a concrete function.

  NOT MODELLED. The annotations of responses, which only the documentation shows; how
  Alembic renders SQL, its logging configuration; the help text of \<open>argparse\<close>; the rounding of floats
  (timeouts are rationals); cancellation of a coroutine between two awaits, other than that of a readiness check; what the
  constructors of SQLAlchemy and redis-py raise, which nothing here relies on; the pool and the timeouts inside
  the drivers, which appear only as the failure of a call. A listing's two statements (page and
  total) each see the tables at their own moment, as under READ COMMITTED: the theorem on
  listings of one run assumes tables that no other client changes meanwhile, the theorems on
  the whole system let page and total come from two versions. There, any entry may disappear,
  but the key of the generation stays: it has no time to live, and were it evicted the next
  generation would be drawn at random.
\<close>

end
